(* ===== verification/Sponge_Prelude.thy ===== *)
theory Sponge_Prelude
  imports Main "HOL-Library.Word"
begin

text \<open>
  The vocabulary the component theories share: the C++ integer types as they are used
  by libsponge, the exceptions of the standard library as values of a sum type, the
  string operations, and the generic lemmas about lists that carry the component proofs.

  A \<open>size_t\<close> (or \<open>uint64_t\<close>) is a natural number below \<open>SIZE_MOD\<close>, the modulus
  \<open>2 ^ 64\<close>; its addition and subtraction wrap around and are written \<open>add64\<close> and
  \<open>sub64\<close>. An \<open>unsigned int\<close> is a natural number below \<open>UINT_MOD\<close> and a value is
  stored into one with \<open>trunc32\<close>. Bytes, ports, flags, checksums and sequence numbers,
  where single bits matter, are words of their width.
\<close>

section \<open>Collections of rules\<close>

named_theorems inv_defs \<open>definitions of the component invariants\<close>
named_theorems op_defs \<open>definitions of operations that only wrap others\<close>
named_theorems size_simps \<open>size_t and unsigned arithmetic where it does not wrap around\<close>

section \<open>Integers\<close>

type_synonym byte = "8 word"
type_synonym size_t = nat

abbreviation SIZE_MOD :: nat where
  "SIZE_MOD \<equiv> 18446744073709551616"

abbreviation ULLONG_MAX :: nat where
  "ULLONG_MAX \<equiv> 18446744073709551615"

abbreviation UINT_MOD :: nat where
  "UINT_MOD \<equiv> 4294967296"

definition add64 :: "size_t \<Rightarrow> size_t \<Rightarrow> size_t" where
  "add64 a b = (a + b) mod SIZE_MOD"

definition sub64 :: "size_t \<Rightarrow> size_t \<Rightarrow> size_t" where
  "sub64 a b = (a + (SIZE_MOD - b mod SIZE_MOD)) mod SIZE_MOD"

definition trunc32 :: "nat \<Rightarrow> nat" where
  "trunc32 n = n mod UINT_MOD"

lemma SIZE_MOD_power: "SIZE_MOD = 2 ^ 64"
  by simp

lemma add64_bound [simp]: "add64 a b < SIZE_MOD"
  by (simp add: add64_def)

lemma sub64_bound [simp]: "sub64 a b < SIZE_MOD"
  by (simp add: sub64_def)

lemma trunc32_bound [simp]: "trunc32 n < UINT_MOD"
  by (simp add: trunc32_def)

lemma add64_eq [size_simps]: "a + b < SIZE_MOD \<Longrightarrow> add64 a b = a + b"
  by (simp add: add64_def)

lemma sub64_eq [size_simps]:
  assumes "b \<le> a" and "a < SIZE_MOD"
  shows "sub64 a b = a - b"
proof -
  have "a + (SIZE_MOD - b mod SIZE_MOD) = (a - b) + SIZE_MOD" using assms by simp
  then have "sub64 a b = (a - b) mod SIZE_MOD" by (simp only: sub64_def mod_add_self2)
  then show ?thesis using assms by simp
qed

lemma trunc32_eq [size_simps]: "n < UINT_MOD \<Longrightarrow> trunc32 n = n"
  by (simp add: trunc32_def)

lemma add64_0 [simp]: "a < SIZE_MOD \<Longrightarrow> add64 a 0 = a"
  by (simp add: add64_def)

lemma sub64_0 [simp]: "a < SIZE_MOD \<Longrightarrow> sub64 a 0 = a"
  by (simp add: sub64_def)

lemma sub64_self [simp]: "a < SIZE_MOD \<Longrightarrow> sub64 a a = 0"
  by (simp add: sub64_eq)

lemma add64_assoc: "add64 (add64 a b) c = add64 a (b + c)"
  by (simp add: add64_def mod_add_left_eq add.assoc)

lemma add64_right: "add64 a (add64 b c) = add64 a (b + c)"
  by (simp add: add64_def mod_add_right_eq)

lemma mod_add_cancel:
  fixes r a b m :: nat
  assumes "(r + a) mod m = (r + b) mod m" and "a < m" and "b < m"
  shows "a = b"
proof -
  have eq: "x = y" if "(r + x) mod m = (r + y) mod m" "y \<le> x" "x < m" for x y
  proof -
    have "m dvd x - y" using that mod_eq_dvd_iff_nat [of "r + y" "r + x" m] by simp
    then show ?thesis using that by (meson dvd_imp_le diff_is_0_eq le_antisym less_imp_diff_less
          linorder_not_le not_gr_zero)
  qed
  show ?thesis using eq [of a b] eq [of b a] assms by (cases "b \<le> a") auto
qed

section \<open>Exceptions\<close>

text \<open>
  A call that may throw returns \<open>Inl e\<close> for a thrown exception \<open>e\<close> and \<open>Inr x\<close> for a
  normal return; \<open>bindR\<close> is the sequencing of two such calls.
\<close>

datatype cpp_exn = out_of_range string | runtime_error string | invalid_argument string | length_error string
  | bad_optional_access | tagged_error string string int

type_synonym 'a res = "cpp_exn + 'a"

definition bindR :: "'a res \<Rightarrow> ('a \<Rightarrow> 'b res) \<Rightarrow> 'b res" where
  "bindR m f = (case m of Inl e \<Rightarrow> Inl e | Inr x \<Rightarrow> f x)"

lemma bindR_simps [simp]:
  "bindR (Inl e) f = Inl e"
  "bindR (Inr x) f = f x"
  by (simp_all add: bindR_def)

lemma bindR_eq_Inr [simp]: "bindR m f = Inr y \<longleftrightarrow> (\<exists>x. m = Inr x \<and> f x = Inr y)"
  by (cases m) auto

lemma bindR_cong [fundef_cong]: "m = m' \<Longrightarrow> (\<And>x. m' = Inr x \<Longrightarrow> f x = g x) \<Longrightarrow> bindR m f = bindR m' g"
  by (cases m') auto

lemma bindR_eq_Inl: "bindR m f = Inl e \<longleftrightarrow> m = Inl e \<or> (\<exists>x. m = Inr x \<and> f x = Inl e)"
  by (cases m) auto

section \<open>Strings\<close>

text \<open>\<open>std::string::substr(pos, n)\<close> throws when \<open>pos\<close> is past the end.\<close>

definition substr :: "'a list \<Rightarrow> size_t \<Rightarrow> size_t \<Rightarrow> 'a list res" where
  "substr s pos n =
     (if pos > length s then Inl (out_of_range ''basic_string::substr'')
      else Inr (take n (drop pos s)))"

text \<open>\<open>std::string::resize(n)\<close>: cut, or fill with the zero byte.\<close>

definition resize :: "byte list \<Rightarrow> size_t \<Rightarrow> byte list" where
  "resize s n = take n s @ replicate (n - length s) 0"

lemma substr_ok [simp]: "pos \<le> length s \<Longrightarrow> substr s pos n = Inr (take n (drop pos s))"
  by (simp add: substr_def)

lemma length_resize [simp]: "length (resize s n) = n"
  by (simp add: resize_def)

lemma resize_longer: "length s \<le> n \<Longrightarrow> resize s n = s @ replicate (n - length s) 0"
  by (simp add: resize_def)

lemma resize_id [simp]: "length s = n \<Longrightarrow> resize s n = s"
  by (simp add: resize_def)

section \<open>Lists\<close>

lemma foldl_snoc_map: "foldl (\<lambda>s i. s @ [f i]) s xs = s @ map f xs"
  by (induction xs arbitrary: s) auto

text \<open>\<open>chunk S i n\<close> is the part of \<open>S\<close> of at most \<open>n\<close> elements that starts at \<open>i\<close>.\<close>

definition chunk :: "'a list \<Rightarrow> nat \<Rightarrow> nat \<Rightarrow> 'a list" where
  "chunk S i n = take n (drop i S)"

lemma chunk_0 [simp]: "chunk S i 0 = []"
  by (simp add: chunk_def)

lemma length_chunk [simp]: "length (chunk S i n) = min n (length S - i)"
  by (simp add: chunk_def)

lemma chunk_min [simp]:
  "chunk S i (min n (length S - i)) = chunk S i n" "chunk S i (min (length S - i) n) = chunk S i n"
  by (simp_all add: chunk_def min_def)

lemma nth_chunk [simp]: "k < n \<Longrightarrow> i + k < length S \<Longrightarrow> chunk S i n ! k = S ! (i + k)"
  by (simp add: chunk_def)

lemma take_Suc_chunk: "take i S @ chunk S i n = take (i + n) S"
  by (simp add: chunk_def take_add)

lemma chunk_append: "chunk S i m @ chunk S (i + m) n = chunk S i (m + n)"
  by (simp add: chunk_def take_add add.commute)

lemma take_drop_chunk: "take n (drop m (chunk S i k)) = chunk S (i + m) (min n (k - m))"
  by (simp add: chunk_def drop_take min.commute add.commute)

lemma drop_chunk:
  assumes "xs = chunk S i (length xs)"
  shows "drop n xs = chunk S (i + length (take n xs)) (length (drop n xs))"
proof (cases "n \<le> length xs")
  case True
  have "drop n xs = drop n (chunk S i (length xs))" using assms by (rule arg_cong)
  then show ?thesis using True by (simp add: chunk_def drop_take min_def add.commute)
qed simp

lemma chunk_of_prefix: "i + n \<le> length S \<Longrightarrow> chunk (S @ T) i n = chunk S i n"
  by (simp add: chunk_def)

lemma chunk_all: "length S \<le> n \<Longrightarrow> chunk S 0 n = S"
  by (simp add: chunk_def)

lemma list_eq_chunk:
  assumes "i + length xs \<le> length S" and "\<And>k. k < length xs \<Longrightarrow> xs ! k = S ! (i + k)"
  shows "xs = chunk S i (length xs)"
  using assms by (intro nth_equalityI) auto

end
