(* ===== verification/Byte_Stream.thy ===== *)
theory Byte_Stream
  imports Sponge_Prelude
begin

text \<open>
  \<open>ByteStream\<close> (\<open>libsponge/byte_stream.hh\<close>, \<open>byte_stream.cc\<close>): the bounded in-order
  byte stream between a writer and a reader. The theory has the class as a record, one
  definition per member function, the class invariant, and the contract its clients
  (the reassembler, the sender, the sockets) rely on, stated as the locale
  \<open>bounded_fifo\<close> and discharged for the model by an interpretation.
\<close>

section \<open>The class\<close>

record ByteStream =
  bs_buff :: "byte list"
  bs_totin :: size_t
  bs_totout :: size_t
  bs_capacity :: size_t
  bs_isInputEnd :: bool
  bs_error :: bool

definition ByteStream_new :: "size_t \<Rightarrow> ByteStream" where
  "ByteStream_new capacity =
     \<lparr>bs_buff = [], bs_totin = 0, bs_totout = 0, bs_capacity = capacity,
      bs_isInputEnd = False, bs_error = False\<rparr>"

definition ByteStream_buffer_size :: "ByteStream \<Rightarrow> size_t" where
  "ByteStream_buffer_size s = length (bs_buff s)"

definition ByteStream_buffer_empty :: "ByteStream \<Rightarrow> bool" where
  "ByteStream_buffer_empty s = (bs_buff s = [])"

definition ByteStream_remaining_capacity :: "ByteStream \<Rightarrow> size_t" where
  "ByteStream_remaining_capacity s = sub64 (bs_capacity s) (length (bs_buff s))"

definition ByteStream_write :: "ByteStream \<Rightarrow> byte list \<Rightarrow> ByteStream \<times> size_t" where
  "ByteStream_write s data =
     (let writeBytes = min (length data) (ByteStream_remaining_capacity s)
      in (s\<lparr>bs_totin := add64 (bs_totin s) writeBytes,
            bs_buff := bs_buff s @ take writeBytes data\<rparr>, writeBytes))"

definition ByteStream_peek_output :: "ByteStream \<Rightarrow> size_t \<Rightarrow> byte list" where
  "ByteStream_peek_output s len =
     (let peekBytes = min len (length (bs_buff s)) in take peekBytes (bs_buff s))"

definition ByteStream_pop_output :: "ByteStream \<Rightarrow> size_t \<Rightarrow> ByteStream" where
  "ByteStream_pop_output s len =
     (let popBytes = min len (length (bs_buff s))
      in s\<lparr>bs_totout := add64 (bs_totout s) popBytes, bs_buff := drop popBytes (bs_buff s)\<rparr>)"

definition ByteStream_read :: "ByteStream \<Rightarrow> size_t \<Rightarrow> ByteStream \<times> byte list" where
  "ByteStream_read s len =
     (let outbuff = ByteStream_peek_output s len
      in (ByteStream_pop_output s (length outbuff), outbuff))"

definition ByteStream_end_input :: "ByteStream \<Rightarrow> ByteStream" where
  "ByteStream_end_input s = s\<lparr>bs_isInputEnd := True\<rparr>"

definition ByteStream_set_error :: "ByteStream \<Rightarrow> ByteStream" where
  "ByteStream_set_error s = s\<lparr>bs_error := True\<rparr>"

definition ByteStream_input_ended :: "ByteStream \<Rightarrow> bool" where
  "ByteStream_input_ended s = bs_isInputEnd s"

definition ByteStream_eof :: "ByteStream \<Rightarrow> bool" where
  "ByteStream_eof s = (ByteStream_input_ended s \<and> ByteStream_buffer_empty s)"

definition ByteStream_bytes_written :: "ByteStream \<Rightarrow> size_t" where
  "ByteStream_bytes_written s = bs_totin s"

definition ByteStream_bytes_read :: "ByteStream \<Rightarrow> size_t" where
  "ByteStream_bytes_read s = bs_totout s"

lemmas ByteStream_accessors =
  ByteStream_buffer_size_def ByteStream_buffer_empty_def ByteStream_input_ended_def
  ByteStream_eof_def ByteStream_bytes_written_def ByteStream_bytes_read_def

section \<open>The class invariant\<close>

text \<open>
  The buffer never holds more than the capacity, and the two counters differ by what is
  buffered, modulo the width of the counters.
\<close>

definition ByteStream_inv :: "ByteStream \<Rightarrow> bool" where
  "ByteStream_inv s \<longleftrightarrow>
     length (bs_buff s) \<le> bs_capacity s \<and> bs_capacity s < SIZE_MOD \<and>
     bs_totout s < SIZE_MOD \<and> bs_totin s = add64 (bs_totout s) (length (bs_buff s))"

declare ByteStream_inv_def [inv_defs]

lemma ByteStream_new_inv: "capacity < SIZE_MOD \<Longrightarrow> ByteStream_inv (ByteStream_new capacity)"
  by (simp add: ByteStream_inv_def ByteStream_new_def)

lemma ByteStream_len: "ByteStream_inv s \<Longrightarrow> length (bs_buff s) \<le> bs_capacity s"
  by (simp add: ByteStream_inv_def)

lemma ByteStream_room:
  "ByteStream_inv s \<Longrightarrow> ByteStream_remaining_capacity s = bs_capacity s - length (bs_buff s)"
  by (simp add: ByteStream_inv_def ByteStream_remaining_capacity_def sub64_eq)

lemma ByteStream_write_inv: "ByteStream_inv s \<Longrightarrow> ByteStream_inv (fst (ByteStream_write s d))"
  by (simp add: ByteStream_write_def Let_def ByteStream_room)
    (auto simp: ByteStream_inv_def add64_assoc min_def)

lemma ByteStream_pop_inv: "ByteStream_inv s \<Longrightarrow> ByteStream_inv (ByteStream_pop_output s n)"
  by (auto simp: ByteStream_inv_def ByteStream_pop_output_def Let_def add64_assoc min_def)

lemma ByteStream_read_inv: "ByteStream_inv s \<Longrightarrow> ByteStream_inv (fst (ByteStream_read s n))"
  by (simp add: ByteStream_read_def Let_def ByteStream_pop_inv)

lemma ByteStream_flags_inv [simp]:
  "ByteStream_inv (ByteStream_end_input s) = ByteStream_inv s"
  "ByteStream_inv (ByteStream_set_error s) = ByteStream_inv s"
  by (simp_all add: ByteStream_inv_def ByteStream_end_input_def ByteStream_set_error_def)

text \<open>What each operation does to the fields, for the clients' proofs.\<close>

lemma ByteStream_write_fields [simp]:
  "bs_capacity (fst (ByteStream_write s d)) = bs_capacity s"
  "bs_totout (fst (ByteStream_write s d)) = bs_totout s"
  "bs_isInputEnd (fst (ByteStream_write s d)) = bs_isInputEnd s"
  "bs_error (fst (ByteStream_write s d)) = bs_error s"
  by (simp_all add: ByteStream_write_def Let_def)

lemma ByteStream_write_buff:
  "ByteStream_inv s \<Longrightarrow>
   bs_buff (fst (ByteStream_write s d)) =
     bs_buff s @ take (bs_capacity s - length (bs_buff s)) d"
  by (simp add: ByteStream_write_def Let_def ByteStream_room min_def)

lemma ByteStream_write_count:
  "ByteStream_inv s \<Longrightarrow>
   snd (ByteStream_write s d) = min (length d) (bs_capacity s - length (bs_buff s))"
  by (simp add: ByteStream_write_def Let_def ByteStream_room)

lemma ByteStream_write_totin:
  "bs_totin (fst (ByteStream_write s d)) = add64 (bs_totin s) (snd (ByteStream_write s d))"
  by (simp add: ByteStream_write_def Let_def)

lemma ByteStream_read_fields [simp]:
  "bs_capacity (fst (ByteStream_read s n)) = bs_capacity s"
  "bs_totin (fst (ByteStream_read s n)) = bs_totin s"
  "bs_isInputEnd (fst (ByteStream_read s n)) = bs_isInputEnd s"
  "bs_error (fst (ByteStream_read s n)) = bs_error s"
  "bs_buff (fst (ByteStream_read s n)) = drop n (bs_buff s)"
  "bs_totout (fst (ByteStream_read s n)) = add64 (bs_totout s) (min n (length (bs_buff s)))"
  by (simp_all add: ByteStream_read_def ByteStream_pop_output_def ByteStream_peek_output_def
      Let_def min_def)

lemma ByteStream_read_data [simp]: "snd (ByteStream_read s n) = take n (bs_buff s)"
  by (simp add: ByteStream_read_def ByteStream_peek_output_def Let_def min_def)

section \<open>The contract of a bounded byte queue\<close>

text \<open>
  What a client may assume: \<open>put\<close> accepts the longest prefix that fits and says how
  long it is, \<open>get\<close> hands out the oldest bytes and removes them.
\<close>

datatype fifo_op = Put "byte list" | Get nat

fun fifo_run ::
  "('s \<Rightarrow> byte list \<Rightarrow> 's \<times> nat) \<Rightarrow> ('s \<Rightarrow> nat \<Rightarrow> 's \<times> byte list) \<Rightarrow> 's \<Rightarrow> fifo_op list \<Rightarrow>
     's \<times> byte list \<times> byte list" where
  "fifo_run put get s [] = (s, [], [])"
| "fifo_run put get s (Put d # ops) =
     (let (s1, n) = put s d; (s2, ins, outs) = fifo_run put get s1 ops
      in (s2, take n d @ ins, outs))"
| "fifo_run put get s (Get k # ops) =
     (let (s1, d) = get s k; (s2, ins, outs) = fifo_run put get s1 ops
      in (s2, ins, d @ outs))"

locale bounded_fifo =
  fixes inv :: "'s \<Rightarrow> bool"
    and contents :: "'s \<Rightarrow> byte list"
    and room :: "'s \<Rightarrow> nat"
    and put :: "'s \<Rightarrow> byte list \<Rightarrow> 's \<times> nat"
    and get :: "'s \<Rightarrow> nat \<Rightarrow> 's \<times> byte list"
  assumes put_inv: "inv s \<Longrightarrow> inv (fst (put s d))"
    and put_count: "inv s \<Longrightarrow> snd (put s d) = min (length d) (room s)"
    and put_contents: "inv s \<Longrightarrow> contents (fst (put s d)) = contents s @ take (room s) d"
    and put_room: "inv s \<Longrightarrow> room (fst (put s d)) = room s - length d"
    and get_inv: "inv s \<Longrightarrow> inv (fst (get s n))"
    and get_data: "inv s \<Longrightarrow> snd (get s n) = take n (contents s)"
    and get_contents: "inv s \<Longrightarrow> contents (fst (get s n)) = drop n (contents s)"
    and get_room: "inv s \<Longrightarrow> room (fst (get s n)) = room s + min n (length (contents s))"
begin

lemma put_all: "inv s \<Longrightarrow> length d \<le> room s \<Longrightarrow>
    contents (fst (put s d)) = contents s @ d \<and> snd (put s d) = length d"
  by (simp add: put_contents put_count)

lemma put_get: "inv s \<Longrightarrow> contents s = [] \<Longrightarrow> length d \<le> room s \<Longrightarrow>
    snd (get (fst (put s d)) (length d)) = d"
  by (simp add: get_data put_inv put_all)

text \<open>Nothing is lost, duplicated or reordered, whatever the sequence of operations.\<close>

lemma run_conserves:
  "inv s \<Longrightarrow> fifo_run put get s ops = (s', ins, outs) \<Longrightarrow>
   inv s' \<and> contents s @ ins = outs @ contents s' \<and>
   room s' + length (contents s') = room s + length (contents s)"
proof (induction ops arbitrary: s s' ins outs)
  case Nil
  then show ?case by simp
next
  case (Cons oper ops)
  show ?case
  proof (cases oper)
    case (Put d)
    obtain s1 n where p: "put s d = (s1, n)" by fastforce
    obtain s2 xs ys where r: "fifo_run put get s1 ops = (s2, xs, ys)" using prod_cases3 by blast
    have e: "s2 = s'" "take n d @ xs = ins" "ys = outs" using Cons.prems(2) Put p r by auto
    have i: "inv s1" and n: "n = min (length d) (room s)"
      and c: "contents s1 = contents s @ take (room s) d" and m: "room s1 = room s - length d"
      using put_inv put_count put_contents put_room Cons.prems(1) p by (metis fst_conv snd_conv)+
    show ?thesis using Cons.IH [OF i r] e n c m by (auto simp: min_def)
  next
    case (Get k)
    obtain s1 d where p: "get s k = (s1, d)" by fastforce
    obtain s2 xs ys where r: "fifo_run put get s1 ops = (s2, xs, ys)" using prod_cases3 by blast
    have e: "s2 = s'" "xs = ins" "d @ ys = outs" using Cons.prems(2) Get p r by auto
    have i: "inv s1" and c: "contents s = d @ contents s1"
      and m: "room s1 + length (contents s1) = room s + length (contents s)"
      using get_inv [OF Cons.prems(1), of k] get_data [OF Cons.prems(1), of k]
        get_contents [OF Cons.prems(1), of k] get_room [OF Cons.prems(1), of k] p
      by (auto simp: min_def)
    show ?thesis using Cons.IH [OF i r] e c m by auto
  qed
qed

end

interpretation bsq: bounded_fifo ByteStream_inv bs_buff
  "\<lambda>s. bs_capacity s - length (bs_buff s)" ByteStream_write ByteStream_read
  by unfold_locales
    (auto simp: ByteStream_write_inv ByteStream_write_count ByteStream_write_buff
      ByteStream_read_inv dest: ByteStream_len)

lemma fifo_run_counts:
  "fifo_run ByteStream_write ByteStream_read s ops = (s', ins, outs) \<Longrightarrow>
   bs_capacity s' = bs_capacity s \<and> bs_totout s' mod SIZE_MOD = (bs_totout s + length outs) mod SIZE_MOD \<and>
   (bs_totout s < SIZE_MOD \<longrightarrow> bs_totout s' < SIZE_MOD)"
proof (induction ops arbitrary: s s' ins outs)
  case (Cons oper ops)
  show ?case
  proof (cases oper)
    case (Put d)
    obtain s2 xs ys where r: "fifo_run ByteStream_write ByteStream_read (fst (ByteStream_write s d)) ops
        = (s2, xs, ys)" using prod_cases3 by blast
    show ?thesis using Cons.IH [OF r] Cons.prems Put r by (auto simp: Let_def split: prod.splits)
  next
    case (Get k)
    obtain s2 xs ys where r: "fifo_run ByteStream_write ByteStream_read (fst (ByteStream_read s k)) ops
        = (s2, xs, ys)" using prod_cases3 by blast
    have e: "s2 = s'" "take k (bs_buff s) @ ys = outs"
      using Cons.prems Get r by (simp_all add: case_prod_beta Let_def)
    have "(bs_totout (fst (ByteStream_read s k)) + length ys) mod SIZE_MOD
        = (bs_totout s + length outs) mod SIZE_MOD"
      using e(2) by (auto simp: add64_def mod_add_left_eq min.commute add.assoc)
    then show ?thesis using Cons.IH [OF r] e(1) by simp
  qed
qed simp

section \<open>Properties\<close>

text \<open>
  C18. The stream neither loses, duplicates nor reorders bytes: after any sequence of
  \<open>write\<close> and \<open>read\<close> calls on a new stream, the bytes the writes accepted are the bytes the
  reads returned followed by what is still buffered; at most \<open>capacity\<close> bytes are buffered
  and the 64-bit counters agree with the two byte counts.
\<close>

theorem ByteStream_fifo:
  assumes "capacity < SIZE_MOD"
    and "fifo_run ByteStream_write ByteStream_read (ByteStream_new capacity) ops = (s, ins, outs)"
  shows "ins = outs @ bs_buff s \<and> ByteStream_buffer_size s \<le> capacity \<and>
    ByteStream_remaining_capacity s = capacity - ByteStream_buffer_size s \<and>
    ByteStream_bytes_read s = length outs mod SIZE_MOD \<and>
    ByteStream_bytes_written s = length ins mod SIZE_MOD"
proof -
  have i: "ByteStream_inv (ByteStream_new capacity)" using ByteStream_new_inv assms(1) .
  have c: "bs_capacity s = capacity" "bs_totout s = add64 0 (length outs)"
    using fifo_run_counts [OF assms(2)] mod_less [of "bs_totout s" SIZE_MOD]
    by (simp_all add: ByteStream_new_def add64_def)
  have r: "ByteStream_inv s" "ins = outs @ bs_buff s"
    using bsq.run_conserves [OF i assms(2)] by (simp_all add: ByteStream_new_def)
  then have "bs_totin s = add64 0 (length ins)"
    using c(2) by (simp add: ByteStream_inv_def add64_assoc)
  then show ?thesis
    using r c ByteStream_room [OF r(1)] ByteStream_len [OF r(1)]
    by (simp add: ByteStream_accessors add64_def)
qed

theorem ByteStream_fifo_witness:
  "fst (snd (fifo_run ByteStream_write ByteStream_read (ByteStream_new 3)
      [Put [1, 2], Get 1, Put [3, 4, 5]])) = [1, 2, 3, 4]"
proof -
  have r: "fifo_run ByteStream_write ByteStream_read (ByteStream_new 3) [Put [1, 2], Get 1, Put [3, 4, 5]]
    = (\<lparr>bs_buff = [2, 3, 4], bs_totin = 4, bs_totout = 1, bs_capacity = 3,
        bs_isInputEnd = False, bs_error = False\<rparr>, [1, 2, 3, 4], [1])"
    by (simp add: ByteStream_new_def ByteStream_write_def ByteStream_read_def
        ByteStream_peek_output_def ByteStream_pop_output_def ByteStream_remaining_capacity_def
        size_simps)
  show ?thesis using ByteStream_fifo [OF _ r] r by simp
qed

text \<open>
  A finished stream is not closed: \<open>end_input\<close> only raises the flag \<open>input_ended\<close>
  reports, and a later \<open>write\<close> accepts and buffers bytes exactly as before, so that a
  stream that had reached \<open>eof\<close> leaves it again.
\<close>

lemma ByteStream_write_after_end:
  assumes "ByteStream_inv s" and "d \<noteq> []" and "ByteStream_remaining_capacity s > 0"
  shows "ByteStream_input_ended (ByteStream_end_input s) \<and>
    bs_buff (fst (ByteStream_write (ByteStream_end_input s) d)) = bs_buff (fst (ByteStream_write s d)) \<and>
    snd (ByteStream_write (ByteStream_end_input s) d) = snd (ByteStream_write s d) \<and>
    \<not> ByteStream_eof (fst (ByteStream_write (ByteStream_end_input s) d))"
proof -
  have i: "ByteStream_inv (ByteStream_end_input s)" using assms(1) by simp
  have f: "bs_buff (ByteStream_end_input s) = bs_buff s" "bs_capacity (ByteStream_end_input s) = bs_capacity s"
    by (simp_all add: ByteStream_end_input_def)
  show ?thesis
    using assms ByteStream_room [OF assms(1)]
    by (simp add: ByteStream_write_buff [OF i] ByteStream_write_count [OF i] ByteStream_write_buff
        ByteStream_write_count f ByteStream_accessors) (simp add: ByteStream_end_input_def)
qed

end
