(* ===== verification/Net_Buffer.thy ===== *)
theory Net_Buffer
  imports Sponge_Prelude
begin

text \<open>
  \<open>Buffer\<close>, \<open>BufferList\<close> and \<open>BufferViewList\<close> (\<open>libsponge/util/buffer.hh\<close>,
  \<open>buffer.cc\<close>): reference-counted strings that can discard bytes from the front. A shared
  pointer to an immutable string is an optional string, since no one can see the sharing.
  The locale \<open>front_droppable\<close> is the contract the three classes have in common.
\<close>

section \<open>Buffer\<close>

record Buffer =
  buf_storage :: "byte list option"
  buf_starting_offset :: size_t

definition Buffer_empty :: Buffer where
  "Buffer_empty = \<lparr>buf_storage = None, buf_starting_offset = 0\<rparr>"

definition Buffer_of :: "byte list \<Rightarrow> Buffer" where
  "Buffer_of s = \<lparr>buf_storage = Some s, buf_starting_offset = 0\<rparr>"

definition Buffer_str :: "Buffer \<Rightarrow> byte list" where
  "Buffer_str b =
     (case buf_storage b of None \<Rightarrow> [] | Some s \<Rightarrow> drop (buf_starting_offset b) s)"

definition Buffer_size :: "Buffer \<Rightarrow> size_t" where
  "Buffer_size b = length (Buffer_str b)"

definition Buffer_at :: "Buffer \<Rightarrow> size_t \<Rightarrow> byte res" where
  "Buffer_at b n =
     (if n < length (Buffer_str b) then Inr (Buffer_str b ! n)
      else Inl (out_of_range ''basic_string_view::at''))"

definition Buffer_copy :: "Buffer \<Rightarrow> byte list" where
  "Buffer_copy b = Buffer_str b"

definition Buffer_remove_prefix :: "Buffer \<Rightarrow> size_t \<Rightarrow> Buffer res" where
  "Buffer_remove_prefix b n =
     (if n > length (Buffer_str b) then Inl (out_of_range ''Buffer::remove_prefix'')
      else
        let b' = b\<lparr>buf_starting_offset := add64 (buf_starting_offset b) n\<rparr>
        in Inr (case buf_storage b' of
             None \<Rightarrow> b'
           | Some s \<Rightarrow>
               if buf_starting_offset b' = length s then b'\<lparr>buf_storage := None\<rparr> else b'))"

text \<open>
  The offset stays inside the string and the string fits into the address space, so the
  view that \<open>str()\<close> makes never has a negative length.
\<close>

definition Buffer_inv :: "Buffer \<Rightarrow> bool" where
  "Buffer_inv b \<longleftrightarrow>
     (case buf_storage b of None \<Rightarrow> True
      | Some s \<Rightarrow> buf_starting_offset b \<le> length s \<and> length s < SIZE_MOD)"

declare Buffer_inv_def [inv_defs]

lemma Buffer_of_str [simp]: "Buffer_str (Buffer_of s) = s" "Buffer_str Buffer_empty = []"
  by (simp_all add: Buffer_str_def Buffer_of_def Buffer_empty_def)

lemma Buffer_of_inv [simp]:
  "length s < SIZE_MOD \<Longrightarrow> Buffer_inv (Buffer_of s)" "Buffer_inv Buffer_empty"
  by (simp_all add: Buffer_inv_def Buffer_of_def Buffer_empty_def)

lemma Buffer_remove_prefix_ok:
  assumes "Buffer_inv b" and "n \<le> length (Buffer_str b)"
  obtains b' where "Buffer_remove_prefix b n = Inr b'" "Buffer_inv b'"
    "Buffer_str b' = drop n (Buffer_str b)"
proof (cases "buf_storage b")
  case None
  then show ?thesis
    using assms that by (auto simp: Buffer_remove_prefix_def Buffer_str_def Buffer_inv_def)
next
  case (Some s)
  then have len: "buf_starting_offset b + n \<le> length s" "length s < SIZE_MOD"
    using assms by (auto simp: Buffer_str_def Buffer_inv_def)
  let ?b = "b\<lparr>buf_starting_offset := buf_starting_offset b + n\<rparr>"
  let ?b' = "if buf_starting_offset b + n = length s then ?b\<lparr>buf_storage := None\<rparr> else ?b"
  show ?thesis
  proof (rule that)
    show "Buffer_remove_prefix b n = Inr ?b'"
      using Some len by (simp add: Buffer_remove_prefix_def Buffer_str_def add64_eq Let_def)
    show "Buffer_inv ?b'" "Buffer_str ?b' = drop n (Buffer_str b)"
      using Some len by (simp_all add: Buffer_str_def Buffer_inv_def add.commute)
  qed
qed

section \<open>BufferList\<close>

type_synonym BufferList = "Buffer list"

primrec BufferList_append :: "BufferList \<Rightarrow> BufferList \<Rightarrow> BufferList" where
  "BufferList_append bl [] = bl"
| "BufferList_append bl (buf # others) = BufferList_append (bl @ [buf]) others"

definition BufferList_to_Buffer :: "BufferList \<Rightarrow> Buffer res" where
  "BufferList_to_Buffer bl =
     (case bl of [] \<Rightarrow> Inr Buffer_empty | [b] \<Rightarrow> Inr b
      | _ \<Rightarrow> Inl (runtime_error ''BufferList: please use concatenate() to combine a multi-Buffer BufferList into one Buffer''))"

definition BufferList_concatenate :: "BufferList \<Rightarrow> byte list" where
  "BufferList_concatenate bl = foldl (\<lambda>ret buf. ret @ Buffer_str buf) [] bl"

definition BufferList_size :: "BufferList \<Rightarrow> size_t" where
  "BufferList_size bl = foldl (\<lambda>ret buf. add64 ret (Buffer_size buf)) 0 bl"

fun BufferList_remove_prefix :: "BufferList \<Rightarrow> size_t \<Rightarrow> BufferList res" where
  "BufferList_remove_prefix [] n =
     (if n > 0 then Inl (out_of_range ''BufferList::remove_prefix'') else Inr [])"
| "BufferList_remove_prefix (b # bs) n =
     (if n > 0
      then if n < length (Buffer_str b)
           then bindR (Buffer_remove_prefix b n) (\<lambda>b'. Inr (b' # bs))
           else BufferList_remove_prefix bs (n - length (Buffer_str b))
      else Inr (b # bs))"

definition BufferList_inv :: "BufferList \<Rightarrow> bool" where
  "BufferList_inv bl \<longleftrightarrow> (\<forall>b\<in>set bl. Buffer_inv b)"

lemma BufferList_append_eq [simp]: "BufferList_append bl bl' = bl @ bl'"
  by (induction bl' arbitrary: bl) auto

lemma BufferList_concatenate_eq: "BufferList_concatenate bl = concat (map Buffer_str bl)"
proof -
  have "foldl (\<lambda>ret buf. ret @ Buffer_str buf) s bl = s @ concat (map Buffer_str bl)" for s
    by (induction bl arbitrary: s) auto
  then show ?thesis by (simp add: BufferList_concatenate_def)
qed

lemma BufferList_size_eq:
  "BufferList_size bl = length (BufferList_concatenate bl) mod SIZE_MOD"
proof -
  have "foldl (\<lambda>ret buf. add64 ret (Buffer_size buf)) n bl
      = (n + length (concat (map Buffer_str bl))) mod SIZE_MOD" if "n < SIZE_MOD" for n
    using that
    by (induction bl arbitrary: n)
      (auto simp: Buffer_size_def add64_def mod_add_left_eq add.assoc)
  from this [of 0] show ?thesis by (simp add: BufferList_size_def BufferList_concatenate_eq)
qed

lemma BufferList_remove_prefix_ok:
  assumes "BufferList_inv bl" and "n \<le> length (BufferList_concatenate bl)"
  shows "\<exists>bl'. BufferList_remove_prefix bl n = Inr bl' \<and> BufferList_inv bl' \<and>
    BufferList_concatenate bl' = drop n (BufferList_concatenate bl)"
  using assms
proof (induction bl n rule: BufferList_remove_prefix.induct)
  case (1 n)
  then show ?case by (simp add: BufferList_concatenate_eq)
next
  case (2 b bs n)
  consider "n = 0" | "0 < n" "n < length (Buffer_str b)" | "0 < n" "length (Buffer_str b) \<le> n"
    by linarith
  then show ?case
  proof cases
    case 1
    then show ?thesis using "2.prems" by simp
  next
    case 2
    obtain b' where "Buffer_remove_prefix b n = Inr b'" "Buffer_inv b'"
      "Buffer_str b' = drop n (Buffer_str b)"
      using Buffer_remove_prefix_ok [of b n] "2.prems"(1) 2 by (auto simp: BufferList_inv_def)
    then show ?thesis using 2 "2.prems"(1)
      by (auto simp: BufferList_inv_def BufferList_concatenate_eq)
  next
    case 3
    then show ?thesis using "2.IH" "2.prems"
      by (auto simp: BufferList_inv_def BufferList_concatenate_eq)
  qed
qed

lemma BufferList_remove_prefix_throws:
  "n > length (BufferList_concatenate bl) \<Longrightarrow>
   BufferList_remove_prefix bl n = Inl (out_of_range ''BufferList::remove_prefix'')"
  by (induction bl n rule: BufferList_remove_prefix.induct)
    (auto simp: BufferList_concatenate_eq)

section \<open>BufferViewList\<close>

text \<open>A view is the run of bytes it shows; \<open>as_iovecs\<close> lists the same runs.\<close>

type_synonym BufferViewList = "byte list list"

definition BufferViewList_of_string :: "byte list \<Rightarrow> BufferViewList" where
  "BufferViewList_of_string s = [s]"

definition BufferViewList_of_list :: "BufferList \<Rightarrow> BufferViewList" where
  "BufferViewList_of_list bl = map Buffer_str bl"

definition BufferViewList_size :: "BufferViewList \<Rightarrow> size_t" where
  "BufferViewList_size vs = foldl (\<lambda>ret buf. add64 ret (length buf)) 0 vs"

definition BufferViewList_as_iovecs :: "BufferViewList \<Rightarrow> byte list list" where
  "BufferViewList_as_iovecs vs = foldl (\<lambda>ret x. ret @ [x]) [] vs"

fun BufferViewList_remove_prefix :: "BufferViewList \<Rightarrow> size_t \<Rightarrow> BufferViewList res" where
  "BufferViewList_remove_prefix [] n =
     (if n > 0 then Inl (out_of_range ''BufferListView::remove_prefix'') else Inr [])"
| "BufferViewList_remove_prefix (v # vs) n =
     (if n > 0
      then if n < length v then Inr (drop n v # vs)
           else BufferViewList_remove_prefix vs (n - length v)
      else Inr (v # vs))"

lemma BufferViewList_size_eq: "BufferViewList_size vs = length (concat vs) mod SIZE_MOD"
proof -
  have "foldl (\<lambda>ret buf. add64 ret (length buf)) n vs
      = (n + length (concat vs)) mod SIZE_MOD" if "n < SIZE_MOD" for n
    using that
    by (induction vs arbitrary: n) (auto simp: add64_def mod_add_left_eq add.assoc)
  from this [of 0] show ?thesis by (simp add: BufferViewList_size_def)
qed

lemma BufferViewList_as_iovecs_eq [simp]: "BufferViewList_as_iovecs vs = vs"
proof -
  have "foldl (\<lambda>ret x. ret @ [x]) us vs = us @ vs" for us
    by (induction vs arbitrary: us) auto
  then show ?thesis by (simp add: BufferViewList_as_iovecs_def)
qed

lemma BufferViewList_remove_prefix_ok:
  "n \<le> length (concat vs) \<Longrightarrow>
   \<exists>vs'. BufferViewList_remove_prefix vs n = Inr vs' \<and> concat vs' = drop n (concat vs)"
  by (induction vs n rule: BufferViewList_remove_prefix.induct) auto

lemma BufferViewList_remove_prefix_throws:
  "n > length (concat vs) \<Longrightarrow>
   BufferViewList_remove_prefix vs n = Inl (out_of_range ''BufferListView::remove_prefix'')"
  by (induction vs n rule: BufferViewList_remove_prefix.induct) auto

section \<open>The common contract\<close>

locale front_droppable =
  fixes inv :: "'b \<Rightarrow> bool"
    and bytes :: "'b \<Rightarrow> byte list"
    and drop_front :: "'b \<Rightarrow> size_t \<Rightarrow> 'b res"
    and exn :: cpp_exn
  assumes drop_ok: "inv b \<Longrightarrow> n \<le> length (bytes b) \<Longrightarrow>
      \<exists>b'. drop_front b n = Inr b' \<and> inv b' \<and> bytes b' = drop n (bytes b)"
    and drop_throws: "inv b \<Longrightarrow> n > length (bytes b) \<Longrightarrow> drop_front b n = Inl exn"
begin

lemma dropD: "inv b \<Longrightarrow> drop_front b n = Inr b' \<Longrightarrow>
    n \<le> length (bytes b) \<and> inv b' \<and> bytes b' = drop n (bytes b)"
  using drop_ok [of b n] drop_throws [of b n] by (cases "n \<le> length (bytes b)") auto

text \<open>Two drops in a row are one drop of the sum, errors included.\<close>

lemma drop_drop:
  assumes "inv b"
  shows "(\<exists>b1 b2. bindR (drop_front b m) (\<lambda>b1. drop_front b1 n) = Inr b2 \<and>
            bytes b2 = drop (m + n) (bytes b) \<and> m + n \<le> length (bytes b)) \<or>
         bindR (drop_front b m) (\<lambda>b1. drop_front b1 n) = Inl exn \<and> m + n > length (bytes b)"
proof (cases "m \<le> length (bytes b)")
  case True
  then obtain b1 where b1: "drop_front b m = Inr b1" "inv b1" "bytes b1 = drop m (bytes b)"
    using drop_ok assms by blast
  show ?thesis
    using drop_ok [OF b1(2), of n] drop_throws [OF b1(2), of n] b1 True
    by (cases "n \<le> length (bytes b1)") (auto simp: add.commute)
next
  case False
  then show ?thesis using drop_throws assms by simp
qed

end

interpretation buf: front_droppable Buffer_inv Buffer_str Buffer_remove_prefix
  "out_of_range ''Buffer::remove_prefix''"
proof unfold_locales
  fix b n assume "Buffer_inv b" "n \<le> length (Buffer_str b)"
  then show "\<exists>b'. Buffer_remove_prefix b n = Inr b' \<and> Buffer_inv b' \<and>
      Buffer_str b' = drop n (Buffer_str b)"
    by (rule Buffer_remove_prefix_ok) blast
qed (simp add: Buffer_remove_prefix_def)

interpretation buflist: front_droppable BufferList_inv BufferList_concatenate
  BufferList_remove_prefix "out_of_range ''BufferList::remove_prefix''"
  by unfold_locales (simp_all add: BufferList_remove_prefix_ok BufferList_remove_prefix_throws)

interpretation bufviews: front_droppable "\<lambda>_. True" concat
  BufferViewList_remove_prefix "out_of_range ''BufferListView::remove_prefix''"
  by unfold_locales
    (simp_all add: BufferViewList_remove_prefix_ok BufferViewList_remove_prefix_throws)

end
