(* ===== verification/Net_Parser.thy ===== *)
theory Net_Parser
  imports Net_Buffer
begin

text \<open>
  \<open>NetParser\<close> and \<open>NetUnparser\<close> (\<open>libsponge/util/parser.hh\<close>, \<open>parser.cc\<close>): integers in
  network byte order, read from a \<open>Buffer\<close> and appended to a string. The template
  \<open>_parse_int<T>\<close> is a definition at an arbitrary word length with the number of bytes as
  an argument, and \<open>u8\<close>, \<open>u16\<close>, \<open>u32\<close> are its three instances. The locale \<open>int_codec\<close>
  is the round trip the header codecs rely on.
\<close>

unbundle bit_operations_syntax

section \<open>Parse results\<close>

datatype ParseResult =
  NoError | BadChecksum | PacketTooShort | WrongIPVersion | HeaderTooShort
| TruncatedPacket | Unsupported

fun ParseResult_index :: "ParseResult \<Rightarrow> nat" where
  "ParseResult_index NoError = 0"
| "ParseResult_index BadChecksum = 1"
| "ParseResult_index PacketTooShort = 2"
| "ParseResult_index WrongIPVersion = 3"
| "ParseResult_index HeaderTooShort = 4"
| "ParseResult_index TruncatedPacket = 5"
| "ParseResult_index Unsupported = 6"

text \<open>
  \<open>as_string\<close> indexes an array of six names; \<open>None\<close> stands for a read past the end of
  the array, which C++ leaves undefined.
\<close>

definition as_string :: "ParseResult \<Rightarrow> string option" where
  "as_string r =
     (let names = [''NoError'', ''BadChecksum'', ''PacketTooShort'', ''WrongIPVersion'',
                   ''HeaderTooShort'', ''TruncatedPacket'']
      in if ParseResult_index r < length names then Some (names ! ParseResult_index r)
         else None)"

section \<open>NetParser\<close>

record NetParser =
  np_buffer :: Buffer
  np_error :: ParseResult

definition NetParser_new :: "Buffer \<Rightarrow> NetParser" where
  "NetParser_new b = \<lparr>np_buffer = b, np_error = NoError\<rparr>"

definition NetParser_set_error :: "NetParser \<Rightarrow> ParseResult \<Rightarrow> NetParser" where
  "NetParser_set_error p r = p\<lparr>np_error := r\<rparr>"

definition NetParser_error :: "NetParser \<Rightarrow> bool" where
  "NetParser_error p = (np_error p \<noteq> NoError)"

definition NetParser_check_size :: "NetParser \<Rightarrow> size_t \<Rightarrow> NetParser" where
  "NetParser_check_size p sz =
     (if sz > Buffer_size (np_buffer p) then NetParser_set_error p PacketTooShort else p)"

fun NetParser_int_loop :: "Buffer \<Rightarrow> size_t \<Rightarrow> nat \<Rightarrow> 'a::len word \<Rightarrow> 'a word res" where
  "NetParser_int_loop b i 0 ret = Inr ret"
| "NetParser_int_loop b i (Suc k) ret =
     bindR (Buffer_at b i) (\<lambda>x. NetParser_int_loop b (Suc i) k (push_bit 8 ret + ucast x))"

definition NetParser_parse_int :: "size_t \<Rightarrow> NetParser \<Rightarrow> (NetParser \<times> 'a::len word) res" where
  "NetParser_parse_int len p =
     (let p = NetParser_check_size p len
      in if NetParser_error p then Inr (p, 0)
         else bindR (NetParser_int_loop (np_buffer p) 0 len 0)
           (\<lambda>ret. bindR (Buffer_remove_prefix (np_buffer p) len)
             (\<lambda>b. Inr (p\<lparr>np_buffer := b\<rparr>, ret))))"

definition NetParser_u32 :: "NetParser \<Rightarrow> (NetParser \<times> 32 word) res" where
  "NetParser_u32 = NetParser_parse_int 4"

definition NetParser_u16 :: "NetParser \<Rightarrow> (NetParser \<times> 16 word) res" where
  "NetParser_u16 = NetParser_parse_int 2"

definition NetParser_u8 :: "NetParser \<Rightarrow> (NetParser \<times> 8 word) res" where
  "NetParser_u8 = NetParser_parse_int 1"

definition NetParser_remove_prefix :: "NetParser \<Rightarrow> size_t \<Rightarrow> NetParser res" where
  "NetParser_remove_prefix p n =
     (let p = NetParser_check_size p n
      in if NetParser_error p then Inr p
         else bindR (Buffer_remove_prefix (np_buffer p) n) (\<lambda>b. Inr (p\<lparr>np_buffer := b\<rparr>)))"

section \<open>NetUnparser\<close>

definition NetUnparser_unparse_int :: "size_t \<Rightarrow> byte list \<Rightarrow> 'a::len word \<Rightarrow> byte list" where
  "NetUnparser_unparse_int len s val =
     foldl (\<lambda>s i. s @ [ucast (drop_bit ((len - i - 1) * 8) val AND 0xff)]) s [0..<len]"

definition NetUnparser_u32 :: "byte list \<Rightarrow> 32 word \<Rightarrow> byte list" where
  "NetUnparser_u32 = NetUnparser_unparse_int 4"

definition NetUnparser_u16 :: "byte list \<Rightarrow> 16 word \<Rightarrow> byte list" where
  "NetUnparser_u16 = NetUnparser_unparse_int 2"

definition NetUnparser_u8 :: "byte list \<Rightarrow> 8 word \<Rightarrow> byte list" where
  "NetUnparser_u8 = NetUnparser_unparse_int 1"

section \<open>Integers in network byte order\<close>

text \<open>The reference: the bytes of a number, most significant first, and back.\<close>

definition be_bytes :: "nat \<Rightarrow> nat \<Rightarrow> byte list" where
  "be_bytes n v = map (\<lambda>i. of_nat (v div 256 ^ (n - i - 1))) [0..<n]"

definition be_value :: "byte list \<Rightarrow> nat" where
  "be_value bs = foldl (\<lambda>a b. a * 256 + unat b) 0 bs"

lemma length_be_bytes [simp]: "length (be_bytes n v) = n"
  by (simp add: be_bytes_def)

lemma be_bytes_Suc: "be_bytes (Suc n) v = be_bytes n (v div 256) @ [of_nat v]"
proof -
  have "v div 256 ^ (Suc n - i - 1) = v div 256 div 256 ^ (n - i - 1)" if "i < n" for i
  proof -
    have "Suc n - i - 1 = Suc (n - i - 1)" using that by simp
    then show ?thesis by (simp add: div_mult2_eq)
  qed
  then show ?thesis by (simp add: be_bytes_def)
qed

lemma be_value_snoc: "be_value (bs @ [b]) = be_value bs * 256 + unat b"
  by (simp add: be_value_def)

lemma be_value_bytes: "be_value (be_bytes n v) = v mod 256 ^ n"
proof (induction n arbitrary: v)
  case 0
  then show ?case by (simp add: be_bytes_def be_value_def)
next
  case (Suc n)
  have "unat (of_nat v :: byte) = v mod 256" by (simp add: unat_of_nat)
  then have "be_value (be_bytes (Suc n) v) = v div 256 mod 256 ^ n * 256 + v mod 256"
    by (simp add: be_bytes_Suc be_value_snoc Suc.IH)
  also have "\<dots> = v mod (256 * 256 ^ n)" by (simp add: mod_mult2_eq)
  finally show ?case by simp
qed

lemma ucast_byte:
  "(ucast (drop_bit k val AND 0xff) :: byte) = of_nat (unat val div 2 ^ k)"
  for val :: "'a::len word"
proof -
  have m: "(0xff :: 'a word) = mask 8" by (simp add: mask_eq_exp_minus_1)
  have "(ucast (drop_bit k val AND 0xff) :: byte) = ucast (drop_bit k val)"
    unfolding m by (rule bit_word_eqI) (auto simp: bit_simps dest: bit_imp_le_length)
  also have "\<dots> = of_nat (unat (drop_bit k val))" by simp
  also have "unat (drop_bit k val) = unat val div 2 ^ k"
    by (simp only: unat_drop_bit_eq) (simp only: drop_bit_eq_div)
  finally show ?thesis .
qed

lemma power_256: "256 ^ j = (2::nat) ^ (j * 8)"
  by (simp add: mult.commute [of j] power_mult)

lemma unparse_int_eq:
  fixes val :: "'a::len word"
  shows "NetUnparser_unparse_int len s val = s @ be_bytes len (unat val)"
proof -
  have "map (\<lambda>i. ucast (drop_bit ((len - i - 1) * 8) val AND 0xff)) [0..<len]
      = be_bytes len (unat val)"
    unfolding be_bytes_def power_256 by (rule map_cong [OF refl], rule ucast_byte)
  then show ?thesis by (simp only: NetUnparser_unparse_int_def foldl_snoc_map)
qed

section \<open>What the parser does\<close>

lemma int_loop_value:
  assumes "i + k \<le> length (Buffer_str b)"
  shows "NetParser_int_loop b i k ret =
    Inr (foldl (\<lambda>r x. push_bit 8 r + ucast x) ret (take k (drop i (Buffer_str b))))"
  using assms
proof (induction k arbitrary: i ret)
  case 0
  then show ?case by simp
next
  case (Suc k)
  have "take (Suc k) (drop i (Buffer_str b)) = Buffer_str b ! i # take k (drop (Suc i) (Buffer_str b))"
    using Suc.prems by (simp add: take_Suc_conv_app_nth Cons_nth_drop_Suc [symmetric])
  then show ?case using Suc by (simp add: Buffer_at_def)
qed

lemma word_fold_value:
  "foldl (\<lambda>r x. push_bit 8 r + ucast x) 0 bs = (of_nat (be_value bs) :: 'a::len word)"
proof (induction bs rule: rev_induct)
  case Nil
  then show ?case by (simp add: be_value_def)
next
  case (snoc b bs)
  have "(ucast b :: 'a word) = of_nat (unat b)" by simp
  with snoc show ?case by (simp add: be_value_snoc push_bit_eq_mult mult.commute)
qed

lemma parse_int_short:
  "len > length (Buffer_str (np_buffer p)) \<Longrightarrow>
   NetParser_parse_int len p = Inr (p\<lparr>np_error := PacketTooShort\<rparr>, 0)"
  by (simp add: NetParser_parse_int_def NetParser_check_size_def NetParser_set_error_def
      NetParser_error_def Buffer_size_def Let_def)

lemma parse_int_error:
  "np_error p \<noteq> NoError \<Longrightarrow> len \<le> length (Buffer_str (np_buffer p)) \<Longrightarrow>
   NetParser_parse_int len p = Inr (p, 0)"
  by (simp add: NetParser_parse_int_def NetParser_check_size_def NetParser_error_def
      Buffer_size_def Let_def)

lemma parse_int_ok:
  assumes "Buffer_inv (np_buffer p)" and "np_error p = NoError"
    and "Buffer_str (np_buffer p) = bs @ rest" and "length bs = len"
  obtains b where "NetParser_parse_int len p = Inr (p\<lparr>np_buffer := b\<rparr>, of_nat (be_value bs))"
    "Buffer_inv b" "Buffer_str b = rest"
proof -
  obtain b where b: "Buffer_remove_prefix (np_buffer p) len = Inr b" "Buffer_inv b"
    "Buffer_str b = drop len (Buffer_str (np_buffer p))"
    using buf.drop_ok [OF assms(1), of len] assms(3,4) by auto
  have "NetParser_int_loop (np_buffer p) 0 len 0 = Inr (of_nat (be_value bs))"
    using assms(3,4) by (simp add: int_loop_value word_fold_value)
  with b assms show ?thesis
    by (intro that)
      (auto simp: NetParser_parse_int_def NetParser_check_size_def NetParser_error_def
        Buffer_size_def Let_def)
qed

lemma NetParser_remove_prefix_ok:
  assumes "Buffer_inv (np_buffer p)" and "np_error p = NoError"
    and "n \<le> length (Buffer_str (np_buffer p))"
  obtains b where "NetParser_remove_prefix p n = Inr (p\<lparr>np_buffer := b\<rparr>)" "Buffer_inv b"
    "Buffer_str b = drop n (Buffer_str (np_buffer p))"
  using buf.drop_ok [OF assms(1,3)] assms(2,3) that
  by (auto simp: NetParser_remove_prefix_def NetParser_check_size_def NetParser_error_def
      Buffer_size_def Let_def)

section \<open>The contract of an integer codec\<close>

text \<open>\<open>np_at p s\<close>: the parser is fault-free and what is left to read is \<open>s\<close>.\<close>

definition np_at :: "NetParser \<Rightarrow> byte list \<Rightarrow> bool" where
  "np_at p s \<longleftrightarrow> Buffer_inv (np_buffer p) \<and> np_error p = NoError \<and> Buffer_str (np_buffer p) = s"

lemma np_at_new: "length s < SIZE_MOD \<Longrightarrow> np_at (NetParser_new (Buffer_of s)) s"
  by (simp add: np_at_def NetParser_new_def)

text \<open>\<open>parses_to r x s\<close>: a call returned \<open>x\<close> and left a fault-free parser before \<open>s\<close>.\<close>

definition parses_to :: "(NetParser \<times> 'b) res \<Rightarrow> 'b \<Rightarrow> byte list \<Rightarrow> bool" where
  "parses_to r x s \<longleftrightarrow> (\<exists>p'. r = Inr (p', x) \<and> np_at p' s)"

lemma parses_to_skip:
  assumes "np_at p (pad @ rest)" and "length pad = n" and "\<And>p'. np_at p' rest \<Longrightarrow> parses_to (f p') x s"
  shows "parses_to (bindR (NetParser_remove_prefix p n) f) x s"
proof -
  obtain b where "NetParser_remove_prefix p n = Inr (p\<lparr>np_buffer := b\<rparr>)" "Buffer_inv b"
    "Buffer_str b = rest"
    using NetParser_remove_prefix_ok [of p n] assms(1,2) by (auto simp: np_at_def)
  then show ?thesis using assms by (simp add: np_at_def)
qed

text \<open>
  \<open>np_short n p\<close>: fewer than \<open>n\<close> bytes are left, or an error was recorded before;
  \<open>parses_bad r\<close>: a call returned (did not throw) with an error recorded in the parser.
\<close>

definition np_short :: "nat \<Rightarrow> NetParser \<Rightarrow> bool" where
  "np_short n p \<longleftrightarrow> Buffer_inv (np_buffer p) \<and>
     (np_error p \<noteq> NoError \<or> length (Buffer_str (np_buffer p)) < n)"

definition parses_bad :: "(NetParser \<times> 'b) res \<Rightarrow> bool" where
  "parses_bad r \<longleftrightarrow> (\<exists>p' x. r = Inr (p', x) \<and> np_short 0 p')"

lemma np_short_new: "Buffer_inv b \<Longrightarrow> length (Buffer_str b) < n \<Longrightarrow> np_short n (NetParser_new b)"
  by (simp add: np_short_def NetParser_new_def)

lemma parses_bad_skip:
  assumes "np_short n p" and "\<And>p'. np_short 0 p' \<Longrightarrow> parses_bad (f p')"
  shows "parses_bad (bindR (NetParser_remove_prefix p n) f)"
  using assms(1)
  by (auto simp: NetParser_remove_prefix_def NetParser_check_size_def NetParser_set_error_def
      NetParser_error_def Buffer_size_def np_short_def Let_def intro!: assms(2))

locale int_codec =
  fixes unparse :: "byte list \<Rightarrow> 'a::len word \<Rightarrow> byte list"
    and parse :: "NetParser \<Rightarrow> (NetParser \<times> 'a word) res"
    and enc :: "'a word \<Rightarrow> byte list"
    and width :: nat
  assumes unparse_enc: "unparse s v = s @ enc v"
    and length_enc: "length (enc v) = width"
    and parse_enc: "np_at p (enc v @ rest) \<Longrightarrow> \<exists>p'. parse p = Inr (p', v) \<and> np_at p' rest"
    and enc_onto: "width \<le> length s \<Longrightarrow> \<exists>v. take width s = enc v"
    and parse_fail: "np_error p \<noteq> NoError \<or> length (Buffer_str (np_buffer p)) < width \<Longrightarrow>
      \<exists>e. e \<noteq> NoError \<and> parse p = Inr (p\<lparr>np_error := e\<rparr>, 0)"
begin

text \<open>What was unparsed onto a string is read back, and reading leaves the rest.\<close>

lemma round_trip:
  assumes "length (unparse [] v @ rest) < SIZE_MOD"
  shows "\<exists>p'. parse (NetParser_new (Buffer_of (unparse [] v @ rest))) = Inr (p', v) \<and> np_at p' rest"
  using assms by (intro parse_enc) (simp add: np_at_new unparse_enc)

lemma parses_bind:
  assumes "np_at p (enc v @ rest)" and "\<And>p'. np_at p' rest \<Longrightarrow> parses_to (f (p', v)) x s"
  shows "parses_to (bindR (parse p) f) x s"
  using parse_enc [OF assms(1)] assms(2) by auto

text \<open>The same on arbitrary input that is long enough.\<close>

lemma read_bind:
  assumes "np_at p s" and "width \<le> length s"
    and "\<And>p' v. take width s = enc v \<Longrightarrow> np_at p' (drop width s) \<Longrightarrow> Q (f (p', v))"
  shows "Q (bindR (parse p) f)"
proof -
  obtain v where v: "take width s = enc v" using enc_onto [OF assms(2)] by blast
  have "np_at p (enc v @ drop width s)" using assms(1) append_take_drop_id [of width s] by (simp add: v)
  then show ?thesis using parse_enc assms(3) [OF v] by force
qed

text \<open>And on input that is too short, now or by the end.\<close>

lemma bad_bind:
  assumes "np_short (width + n) p" and "\<And>p' v. np_short n p' \<Longrightarrow> parses_bad (f (p', v))"
  shows "parses_bad (bindR (parse p) f)"
proof (cases "np_error p \<noteq> NoError \<or> length (Buffer_str (np_buffer p)) < width")
  case True
  then obtain e where "e \<noteq> NoError" "parse p = Inr (p\<lparr>np_error := e\<rparr>, 0)" using parse_fail by blast
  then show ?thesis using assms by (simp add: np_short_def)
next
  case False
  then have "np_at p (Buffer_str (np_buffer p))" using assms(1) by (simp add: np_at_def np_short_def)
  moreover have "np_short n p'" if "np_at p' (drop width (Buffer_str (np_buffer p)))" for p'
    using that assms(1) False by (auto simp: np_at_def np_short_def)
  ultimately show ?thesis using read_bind [of p _ parses_bad f] assms(2) False by fastforce
qed

end

lemma np_at_parse_int:
  assumes "np_at p (be_bytes len (unat v) @ rest)" and "256 ^ len = (2::nat) ^ LENGTH('a)"
  shows "\<exists>p'. NetParser_parse_int len p = Inr (p', v :: 'a::len word) \<and> np_at p' rest"
proof -
  have "be_value (be_bytes len (unat v)) = unat v"
    using unsigned_less [of v, where 'a = nat] assms(2) by (simp add: be_value_bytes)
  then show ?thesis
    using parse_int_ok [of p "be_bytes len (unat v)" rest len, where 'a = 'a] assms(1)
    by (force simp: np_at_def)
qed

lemma be_bytes_value: "be_bytes (length bs) (be_value bs) = bs"
proof (induction bs rule: rev_induct)
  case Nil
  then show ?case by (simp add: be_bytes_def)
next
  case (snoc b bs)
  have "unat b < 256" using unsigned_less [of b, where 'a = nat] by simp
  then have "(be_value bs * 256 + unat b) div 256 = be_value bs" by simp
  moreover have z: "(256 :: byte) = 0" by simp
  have "(of_nat (be_value bs * 256 + unat b) :: byte) = b" by (simp add: z)
  ultimately show ?case using snoc by (simp add: be_bytes_Suc be_value_snoc)
qed

lemma be_value_less: "be_value bs < 256 ^ length bs"
  using be_value_bytes [of "length bs" "be_value bs"] by (simp add: be_bytes_value)
    (metis mod_less_divisor zero_less_numeral zero_less_power)

lemma be_bytes_onto:
  assumes "len \<le> length s" and "256 ^ len = (2::nat) ^ LENGTH('a)"
  shows "\<exists>v :: 'a::len word. take len s = be_bytes len (unat v)"
proof -
  let ?bs = "take len s"
  have l: "length ?bs = len" using assms(1) by simp
  have "unat (of_nat (be_value ?bs) :: 'a word) = be_value ?bs"
    using be_value_less [of ?bs] assms by (simp add: unat_of_nat)
  then have "be_bytes len (unat (of_nat (be_value ?bs) :: 'a word)) = ?bs"
    using be_bytes_value [of ?bs] l by simp
  then show ?thesis by metis
qed

lemma parse_int_fail:
  "np_error p \<noteq> NoError \<or> length (Buffer_str (np_buffer p)) < len \<Longrightarrow>
   \<exists>e. e \<noteq> NoError \<and> NetParser_parse_int len p = Inr (p\<lparr>np_error := e\<rparr>, 0)"
  by (cases "length (Buffer_str (np_buffer p)) < len")
    (auto simp: parse_int_short parse_int_error)

lemmas unparser_defs = NetUnparser_u32_def NetUnparser_u16_def NetUnparser_u8_def
lemmas parser_defs = NetParser_u32_def NetParser_u16_def NetParser_u8_def

interpretation n8: int_codec NetUnparser_u8 NetParser_u8 "\<lambda>v. be_bytes 1 (unat v)" 1
  unfolding parser_defs unparser_defs
  by unfold_locales
    (simp_all add: unparse_int_eq np_at_parse_int be_bytes_onto parse_int_fail)

interpretation n16: int_codec NetUnparser_u16 NetParser_u16 "\<lambda>v. be_bytes 2 (unat v)" 2
  unfolding parser_defs unparser_defs
  by unfold_locales
    (simp_all add: unparse_int_eq np_at_parse_int be_bytes_onto parse_int_fail)

interpretation n32: int_codec NetUnparser_u32 NetParser_u32 "\<lambda>v. be_bytes 4 (unat v)" 4
  unfolding parser_defs unparser_defs
  by unfold_locales
    (simp_all add: unparse_int_eq np_at_parse_int be_bytes_onto parse_int_fail)

end
