(* ===== verification/Internet_Checksum.thy ===== *)
theory Internet_Checksum
  imports Net_Parser
begin

text \<open>
  \<open>InternetChecksum\<close> (\<open>libsponge/util/util.hh\<close>, \<open>util.cc\<close>): the ones' complement sum of
  16-bit words over which IPv4 headers and TCP segments are protected. The accumulator is
  a 32-bit word, the folding loop is a recursive function with a measure, and the reference
  is the sum of the same words as natural numbers modulo 65535.
\<close>

section \<open>The class\<close>

record InternetChecksum =
  ck_sum :: "32 word"
  ck_parity :: bool

definition InternetChecksum_new :: "32 word \<Rightarrow> InternetChecksum" where
  "InternetChecksum_new initial_sum = \<lparr>ck_sum = initial_sum, ck_parity = False\<rparr>"

fun InternetChecksum_add :: "InternetChecksum \<Rightarrow> byte list \<Rightarrow> InternetChecksum" where
  "InternetChecksum_add c [] = c"
| "InternetChecksum_add c (b # bs) =
     (let val = (ucast b :: 16 word);
          val = (if \<not> ck_parity c then push_bit 8 val else val)
      in InternetChecksum_add
           (c\<lparr>ck_sum := ck_sum c + ucast val, ck_parity := \<not> ck_parity c\<rparr>) bs)"

lemma end_around_less: "65536 \<le> (n::nat) \<Longrightarrow> n div 65536 + n mod 65536 < n"
proof -
  assume "65536 \<le> n"
  then have "0 < n div 65536" by (simp add: div_greater_zero_iff)
  then show ?thesis using div_mult_mod_eq [of n 65536] by linarith
qed

lemma end_around_bound: "(n::nat) < 4294967296 \<Longrightarrow> n div 65536 + n mod 65536 < 131072"
proof -
  assume "n < 4294967296"
  then have "n div 65536 < 65536" by (simp add: less_mult_imp_div_less)
  moreover have "n mod 65536 < 65536" by simp
  ultimately show ?thesis by linarith
qed

lemma fold_step_less:
  "(r :: 32 word) > 0xffff \<Longrightarrow> unat (drop_bit 16 r + (r AND 0xffff)) < unat r"
  and fold_step_unat:
  "unat (drop_bit 16 (r :: 32 word) + (r AND 0xffff)) = unat r div 65536 + unat r mod 65536"
proof -
  have m: "(0xffff :: 32 word) = mask 16" by (simp add: mask_eq_exp_minus_1)
  have a: "unat (drop_bit 16 r) = unat r div 65536"
    by (simp only: unat_drop_bit_eq drop_bit_eq_div [where 'a = nat]) simp
  have b: "unat (r AND 0xffff) = unat r mod 65536"
    by (simp only: m flip: take_bit_eq_mask)
      (simp only: unsigned_take_bit_eq, simp add: take_bit_eq_mod)
  have l: "unat r div 65536 + unat r mod 65536 < 2 ^ LENGTH(32)"
    using end_around_bound [of "unat r"] unsigned_less [of r, where 'a = nat] by simp
  have "unat (drop_bit 16 r + (r AND 0xffff)) =
      (unat r div 65536 + unat r mod 65536) mod 2 ^ LENGTH(32)"
    by (simp only: unat_word_ariths a b)
  then show c: "unat (drop_bit 16 r + (r AND 0xffff)) = unat r div 65536 + unat r mod 65536"
    using l by (simp only: mod_less)
  show "unat (drop_bit 16 r + (r AND 0xffff)) < unat r" if "r > 0xffff"
  proof -
    have "65536 \<le> unat r" using that by (simp add: word_less_nat_alt)
    then show ?thesis unfolding c by (rule end_around_less)
  qed
qed

function InternetChecksum_fold :: "32 word \<Rightarrow> 32 word" where
  "InternetChecksum_fold ret =
     (if ret > 0xffff then InternetChecksum_fold (drop_bit 16 ret + (ret AND 0xffff)) else ret)"
  by pat_completeness auto
termination
  by (relation "measure unat") (auto simp: fold_step_less simp del: drop_bit_eq_div)

declare InternetChecksum_fold.simps [simp del]

definition InternetChecksum_value :: "InternetChecksum \<Rightarrow> 16 word" where
  "InternetChecksum_value c = ucast (NOT (InternetChecksum_fold (ck_sum c)))"

section \<open>The reference sum\<close>

text \<open>\<open>byte_sum odd bs\<close>: the sum of the 16-bit words of \<open>bs\<close>, as a natural number.\<close>

fun byte_sum :: "bool \<Rightarrow> byte list \<Rightarrow> nat" where
  "byte_sum par [] = 0"
| "byte_sum par (b # bs) = (if par then unat b else unat b * 256) + byte_sum (\<not> par) bs"

lemma byte_sum_append:
  "byte_sum par (xs @ ys) = byte_sum par xs + byte_sum (par \<noteq> odd (length xs)) ys"
proof (induction xs arbitrary: par)
  case (Cons x xs)
  have "((\<not> par) \<noteq> odd (length xs)) = (par \<noteq> odd (length (x # xs)))" by auto
  then show ?case using Cons [of "\<not> par"] by simp
qed simp

lemma unat_byte: "unat (b :: byte) \<le> 255"
  using unsigned_less [of b, where 'a = nat] by simp

lemma byte_sum_bound: "byte_sum par bs \<le> 65280 * length bs"
proof (induction bs arbitrary: par)
  case Nil
  then show ?case by simp
next
  case (Cons b bs)
  have "(if par then unat b else unat b * 256) \<le> 65280" using unat_byte [of b] by simp
  then show ?case using Cons.IH [of "\<not> par"] by simp
qed

lemma ucast_word_high: "(ucast (push_bit 8 (ucast (b :: byte) :: 16 word)) :: 32 word)
    = of_nat (unat b * 256)"
proof -
  have "(ucast (push_bit 8 (ucast b :: 16 word)) :: 32 word) = push_bit 8 (ucast b)"
    by (rule bit_word_eqI) (auto simp: bit_simps dest: bit_imp_le_length)
  also have "\<dots> = of_nat (unat b * 256)" by (simp add: push_bit_eq_mult)
  finally show ?thesis .
qed

lemma ucast_word_low: "(ucast (ucast (b :: byte) :: 16 word) :: 32 word) = of_nat (unat b)"
proof -
  have "(ucast (ucast b :: 16 word) :: 32 word) = ucast b"
    by (rule bit_word_eqI) (auto simp: bit_simps dest: bit_imp_le_length)
  then show ?thesis by simp
qed

lemma add_sum: "ck_sum (InternetChecksum_add c bs) = ck_sum c + of_nat (byte_sum (ck_parity c) bs)"
  by (induction c bs rule: InternetChecksum_add.induct)
    (simp_all add: Let_def ucast_word_high ucast_word_low del: push_bit_eq_mult of_nat_mult)

lemma add_parity [simp]:
  "ck_parity (InternetChecksum_add c bs) = (ck_parity c \<noteq> odd (length bs))"
  by (induction c bs rule: InternetChecksum_add.induct) (auto simp: Let_def)

lemma add_append:
  "InternetChecksum_add c (xs @ ys) = InternetChecksum_add (InternetChecksum_add c xs) ys"
  by (induction c xs rule: InternetChecksum_add.induct) (auto simp: Let_def)

section \<open>The folding loop\<close>

lemma end_around_mod: "(n div 65536 + n mod 65536) mod 65535 = (n :: nat) mod 65535"
proof -
  have "n = n div 65536 * 65535 + (n div 65536 + n mod 65536)"
    using div_mult_mod_eq [of n 65536] by linarith
  then have "n mod 65535 = (n div 65536 * 65535 + (n div 65536 + n mod 65536)) mod 65535"
    by (rule arg_cong)
  then show ?thesis by (simp only: mod_mult_self3)
qed

lemma fold_value:
  "unat (InternetChecksum_fold r) \<le> 65535 \<and>
   unat (InternetChecksum_fold r) mod 65535 = unat r mod 65535 \<and>
   (InternetChecksum_fold r = 0 \<longleftrightarrow> r = 0)"
proof (induction r rule: InternetChecksum_fold.induct)
  case (1 r)
  show ?case
  proof (cases "r > 0xffff")
    case True
    define t where "t = drop_bit 16 r + (r AND 0xffff)"
    have big: "65536 \<le> unat r" using True by (simp add: word_less_nat_alt)
    have t: "unat t = unat r div 65536 + unat r mod 65536" unfolding t_def by (rule fold_step_unat)
    have "0 < unat r div 65536" using big by (simp add: div_greater_zero_iff)
    then have "t \<noteq> 0" using t by (metis add_is_0 less_numeral_extra(3) unsigned_0)
    moreover have "r \<noteq> 0" using big by auto
    moreover have "InternetChecksum_fold r = InternetChecksum_fold t"
      using True unfolding t_def by (subst InternetChecksum_fold.simps) (simp only: if_True)
    ultimately show ?thesis using "1.IH" [OF True] t end_around_mod [of "unat r"]
      unfolding t_def [symmetric] by metis
  next
    case False
    then have "InternetChecksum_fold r = r" by (subst InternetChecksum_fold.simps) (simp only: if_False)
    moreover have "unat r \<le> 65535" using False by (simp add: word_less_nat_alt not_less)
    ultimately show ?thesis by simp
  qed
qed

lemma value_unat:
  "unat (InternetChecksum_value c) = 65535 - unat (InternetChecksum_fold (ck_sum c))"
proof -
  let ?f = "InternetChecksum_fold (ck_sum c)"
  have f: "unat ?f \<le> 65535" using fold_value by blast
  have "NOT ?f = - 1 - ?f" by (simp add: not_eq_complement)
  moreover have "?f \<le> - 1" by simp
  moreover have "unat (- 1 :: 32 word) = 4294967295"
    by (simp add: unsigned_minus_1_eq_mask mask_eq_exp_minus_1)
  ultimately have "unat (NOT ?f) = 4294967295 - unat ?f" by (simp only: unat_sub)
  then have "unat (InternetChecksum_value c) = (4294967295 - unat ?f) mod 65536"
    by (simp add: InternetChecksum_value_def unsigned_ucast_eq take_bit_eq_mod)
  also have "4294967295 - unat ?f = 65535 - unat ?f + 65535 * 65536" using f by simp
  finally show ?thesis by (simp only: mod_mult_self1) (use f in simp)
qed

text \<open>A checksum verifies exactly when the sum is a positive multiple of 65535.\<close>

lemma value_zero_iff:
  "InternetChecksum_value c = 0 \<longleftrightarrow> ck_sum c \<noteq> 0 \<and> unat (ck_sum c) mod 65535 = 0"
proof -
  let ?f = "InternetChecksum_fold (ck_sum c)"
  have "InternetChecksum_value c = 0 \<longleftrightarrow> unat ?f = 65535"
    using fold_value [of "ck_sum c"] value_unat [of c] by (simp add: word_unat_eq_iff) linarith
  also have "\<dots> \<longleftrightarrow> ck_sum c \<noteq> 0 \<and> unat (ck_sum c) mod 65535 = 0"
  proof
    assume "unat ?f = 65535"
    then show "ck_sum c \<noteq> 0 \<and> unat (ck_sum c) mod 65535 = 0"
      using fold_value [of "ck_sum c"] by (metis mod_self unsigned_0 zero_neq_numeral)
  next
    assume "ck_sum c \<noteq> 0 \<and> unat (ck_sum c) mod 65535 = 0"
    then have "unat ?f \<noteq> 0" "unat ?f mod 65535 = 0" "unat ?f \<le> 65535"
      using fold_value [of "ck_sum c"] by (auto simp: unat_eq_zero)
    then show "unat ?f = 65535" by (metis le_neq_implies_less mod_less)
  qed
  finally show ?thesis .
qed

section \<open>Verification and detection\<close>

lemma new_sum:
  assumes "unat i + byte_sum False bs < UINT_MOD"
  shows "unat (ck_sum (InternetChecksum_add (InternetChecksum_new i) bs)) = unat i + byte_sum False bs"
proof -
  have "unat (of_nat (byte_sum False bs) :: 32 word) = byte_sum False bs"
    using assms by (simp add: unat_of_nat)
  then have "unat (i + of_nat (byte_sum False bs)) = unat i + byte_sum False bs"
    using assms by (simp add: unat_word_ariths)
  then show ?thesis by (simp add: add_sum InternetChecksum_new_def)
qed

text \<open>Adding the computed checksum to the sum it was computed from makes it verify.\<close>

lemma value_verifies:
  assumes "unat (ck_sum c') = unat (ck_sum c) + unat (InternetChecksum_value c)"
  shows "InternetChecksum_value c' = 0"
proof -
  define f where "f = unat (InternetChecksum_fold (ck_sum c))"
  have f: "f \<le> 65535" "f mod 65535 = unat (ck_sum c) mod 65535" "f = 0 \<longleftrightarrow> ck_sum c = 0"
    using fold_value [of "ck_sum c"] by (auto simp: f_def unat_eq_zero)
  have s: "unat (ck_sum c') = unat (ck_sum c) + (65535 - f)"
    using assms value_unat [of c] by (simp only: f_def)
  have "(unat (ck_sum c) + (65535 - f)) mod 65535 = (f + (65535 - f)) mod 65535"
    using f(2) by (metis mod_add_left_eq)
  then have "unat (ck_sum c') mod 65535 = 0" using s f(1) by simp
  moreover have "ck_sum c' \<noteq> 0"
  proof
    assume "ck_sum c' = 0"
    then have "unat (ck_sum c) = 0" "f = 65535" using s f(1) by auto
    then show False using f(3) by (simp add: unat_eq_zero)
  qed
  ultimately show ?thesis by (simp add: value_zero_iff)
qed

lemma byte_sum_be2: "byte_sum False (be_bytes 2 n) = n mod 65536"
proof -
  have b: "be_bytes 2 n = [of_nat (n div 256), of_nat n]"
    by (simp add: be_bytes_def upt_conv_Cons)
  show ?thesis using mod_mult2_eq [of n 256 256] by (simp add: b unat_of_nat mult.commute)
qed

lemma byte_sum_insert:
  assumes "even (length xs)"
  shows "byte_sum False (xs @ be_bytes 2 n @ ys) = byte_sum False (xs @ be_bytes 2 0 @ ys) + n mod 65536"
  using assms by (simp add: byte_sum_append byte_sum_be2)

text \<open>
  A packet whose checksum field was zeroed, summed, and then filled with the value
  verifies: the receiver's sum over the filled packet yields zero. The field sits at an
  even offset, and the packet is short enough for the 32-bit accumulator.
\<close>

lemma checksum_verifies:
  assumes "even (length xs)" and "unat i + byte_sum False (xs @ be_bytes 2 0 @ ys) + 65535 < UINT_MOD"
    and "v = InternetChecksum_value (InternetChecksum_add (InternetChecksum_new i) (xs @ be_bytes 2 0 @ ys))"
  shows "InternetChecksum_value
    (InternetChecksum_add (InternetChecksum_new i) (xs @ be_bytes 2 (unat v) @ ys)) = 0"
proof (rule value_verifies)
  have v: "unat v < 65536" using unsigned_less [of v, where 'a = nat] by simp
  then have b: "byte_sum False (xs @ be_bytes 2 (unat v) @ ys)
      = byte_sum False (xs @ be_bytes 2 0 @ ys) + unat v"
    using byte_sum_insert [OF assms(1), of "unat v" ys] by simp
  have "unat (ck_sum (InternetChecksum_add (InternetChecksum_new i) (xs @ be_bytes 2 (unat v) @ ys)))
      = unat i + byte_sum False (xs @ be_bytes 2 (unat v) @ ys)"
    using assms(2) b v by (intro new_sum) linarith
  moreover have "unat (ck_sum (InternetChecksum_add (InternetChecksum_new i) (xs @ be_bytes 2 0 @ ys)))
      = unat i + byte_sum False (xs @ be_bytes 2 0 @ ys)"
    using assms(2) by (intro new_sum) linarith
  ultimately show "unat (ck_sum (InternetChecksum_add (InternetChecksum_new i) (xs @ be_bytes 2 (unat v) @ ys)))
      = unat (ck_sum (InternetChecksum_add (InternetChecksum_new i) (xs @ be_bytes 2 0 @ ys))) +
        unat (InternetChecksum_value
          (InternetChecksum_add (InternetChecksum_new i) (xs @ be_bytes 2 0 @ ys)))"
    unfolding assms(3) [symmetric] using b by linarith
qed

text \<open>
  C31. The checksum detects every corruption of a single byte: of two packets that differ
  in exactly one byte, at most one verifies.
\<close>

theorem checksum_detects_byte:
  assumes "InternetChecksum_value (InternetChecksum_add (InternetChecksum_new i) (xs @ b # ys)) = 0"
    and "b \<noteq> b'" and "unat i + 65280 * (length xs + length ys + 1) < UINT_MOD"
  shows "InternetChecksum_value (InternetChecksum_add (InternetChecksum_new i) (xs @ b' # ys)) \<noteq> 0"
proof
  define w where "w = (\<lambda>x :: byte. if odd (length xs) then unat x else unat x * 256)"
  define r where "r = unat i + byte_sum False xs + byte_sum (even (length xs)) ys"
  assume z: "InternetChecksum_value (InternetChecksum_add (InternetChecksum_new i) (xs @ b' # ys)) = 0"
  have w: "w x < 65535" for x using unat_byte [of x] by (simp add: w_def)
  have t: "unat (ck_sum (InternetChecksum_add (InternetChecksum_new i) (xs @ x # ys))) = r + w x" for x
  proof -
    have "byte_sum False (xs @ x # ys) \<le> 65280 * length (xs @ x # ys)" by (rule byte_sum_bound)
    then have "unat i + byte_sum False (xs @ x # ys) < UINT_MOD" using assms(3) by simp
    from new_sum [OF this] show ?thesis by (simp add: byte_sum_append r_def w_def)
  qed
  have "(r + w b) mod 65535 = (r + w b') mod 65535"
    using assms(1) z unfolding value_zero_iff t by metis
  then have "w b = w b'" using w w by (rule mod_add_cancel)
  then show False using assms(2) by (simp add: w_def word_unat_eq_iff split: if_splits)
qed

theorem checksum_detects_byte_witness:
  "InternetChecksum_value (InternetChecksum_add (InternetChecksum_new 0) ([0xff] @ 0xff # [])) = 0 \<and>
   InternetChecksum_value (InternetChecksum_add (InternetChecksum_new 0) ([0xff] @ 0xfe # [])) \<noteq> 0"
proof -
  have v: "InternetChecksum_value (InternetChecksum_add (InternetChecksum_new 0) ([0xff] @ 0xff # [])) = 0"
    by (simp add: value_zero_iff add_sum InternetChecksum_new_def)
  then show ?thesis using checksum_detects_byte [OF v, of "0xfe"] by simp
qed

section \<open>The checksum of RFC 1071\<close>

text \<open>
  The definition: the data are 16-bit words, the last one padded with zero, added with an end-around carry after
  every word; the checksum is the complement of the sum.
\<close>

definition oc_add :: "nat \<Rightarrow> nat \<Rightarrow> nat" where
  "oc_add a b = (if a + b > 65535 then a + b - 65535 else a + b)"

fun words16 :: "byte list \<Rightarrow> nat list" where
  "words16 [] = []"
| "words16 [b] = [unat b * 256]"
| "words16 (b # c # bs) = (unat b * 256 + unat c) # words16 bs"

definition rfc1071 :: "byte list \<Rightarrow> nat" where
  "rfc1071 bs = 65535 - foldl oc_add 0 (words16 bs)"

lemma words16_sum: "sum_list (words16 bs) = byte_sum False bs"
  by (induction bs rule: words16.induct) simp_all

lemma words16_bound: "m \<in> set (words16 bs) \<Longrightarrow> m \<le> 65535"
proof (induction bs rule: words16.induct)
  case (2 b)
  then show ?case using unat_byte [of b] by simp
next
  case (3 b c bs)
  then show ?case using unat_byte [of b] unat_byte [of c] by auto
qed simp

text \<open>A sum with end-around carries is determined by its value modulo 65535 and by being zero or not.\<close>

definition oc_sum :: "nat \<Rightarrow> nat \<Rightarrow> bool" where
  "oc_sum x n \<longleftrightarrow> x \<le> 65535 \<and> x mod 65535 = n mod 65535 \<and> (x = 0 \<longleftrightarrow> n = 0)"

lemma oc_sum_unique:
  assumes "oc_sum x n" and "oc_sum y n"
  shows "x = y"
proof -
  have b: "x \<le> 65535" "y \<le> 65535" "x mod 65535 = y mod 65535" "x = 0 \<longleftrightarrow> y = 0" using assms by (auto simp: oc_sum_def)
  show ?thesis
  proof (cases "x = 65535 \<or> y = 65535")
    case True
    then show ?thesis using b by (metis le_neq_implies_less mod_less mod_self)
  next
    case False
    then show ?thesis using b by simp
  qed
qed

lemma oc_add_sum:
  assumes "oc_sum a n" and "b \<le> 65535"
  shows "oc_sum (oc_add a b) (n + b)"
proof -
  have "a + b = a + b - 65535 + 65535" if "a + b > 65535" using that by linarith
  then have "oc_add a b mod 65535 = (a + b) mod 65535" by (metis mod_add_self2 oc_add_def)
  also have "\<dots> = (n + b) mod 65535" using assms(1) unfolding oc_sum_def by (metis mod_add_left_eq)
  finally show ?thesis using assms by (auto simp: oc_sum_def oc_add_def)
qed

lemma foldl_oc_add:
  "oc_sum a n \<Longrightarrow> (\<And>m. m \<in> set ms \<Longrightarrow> m \<le> 65535) \<Longrightarrow> oc_sum (foldl oc_add a ms) (n + sum_list ms)"
proof (induction ms arbitrary: a n)
  case (Cons m ms)
  then show ?case using Cons.IH [OF oc_add_sum [of a n m]] by (simp add: add.assoc)
qed simp

lemma add_chunks: "foldl InternetChecksum_add c chunks = InternetChecksum_add c (concat chunks)"
  by (induction chunks arbitrary: c) (simp_all add: add_append)

text \<open>
  C29. \<open>InternetChecksum\<close> computes the checksum of RFC 1071. The class defers the carries to the end, adds single bytes with a
  parity bit and takes its data in pieces; for packets of up to 65792 bytes, split into pieces in any way, odd lengths
  included, the value is that of the definition on the whole packet.
\<close>

theorem checksum_is_rfc1071:
  assumes "length (concat chunks) \<le> 65792"
  shows "unat (InternetChecksum_value (foldl InternetChecksum_add (InternetChecksum_new 0) chunks)) = rfc1071 (concat chunks)"
proof -
  let ?bs = "concat chunks" let ?c = "InternetChecksum_add (InternetChecksum_new 0) ?bs"
  have "byte_sum False ?bs < UINT_MOD" using byte_sum_bound [of False ?bs] assms by simp
  then have "unat (ck_sum ?c) = byte_sum False ?bs" using new_sum [of 0 ?bs] by simp
  then have "oc_sum (unat (InternetChecksum_fold (ck_sum ?c))) (byte_sum False ?bs)"
    using fold_value [of "ck_sum ?c"] by (simp add: oc_sum_def unat_eq_zero) (metis unat_eq_zero)
  moreover have "oc_sum (foldl oc_add 0 (words16 ?bs)) (byte_sum False ?bs)"
    using foldl_oc_add [of 0 0 "words16 ?bs"] words16_bound by (simp add: oc_sum_def words16_sum)
  ultimately have "unat (InternetChecksum_fold (ck_sum ?c)) = foldl oc_add 0 (words16 ?bs)" by (rule oc_sum_unique)
  then show ?thesis by (simp add: add_chunks value_unat rfc1071_def)
qed

theorem checksum_is_rfc1071_witness:
  "unat (InternetChecksum_value (foldl InternetChecksum_add (InternetChecksum_new 0) [[0x45], [0, 0x1c], [0xff, 0xff, 0x80]])) = 0x9e7f"
  using checksum_is_rfc1071 [of "[[0x45], [0, 0x1c], [0xff, 0xff, 0x80]]"] by (simp add: rfc1071_def oc_add_def)

end
