(* ===== verification/Wrapping_Integers.thy ===== *)
theory Wrapping_Integers
  imports Sponge_Prelude
begin

text \<open>
  \<open>WrappingInt32\<close> (\<open>libsponge/wrapping_integers.hh\<close>, \<open>wrapping_integers.cc\<close>): 32-bit
  sequence numbers relative to an initial sequence number, and their translation from
  and to 64-bit absolute sequence numbers. The locale \<open>seq_codec\<close> is the contract the
  sender and the receiver rely on: near the checkpoint, \<open>unwrap\<close> inverts \<open>wrap\<close>.
\<close>

section \<open>The class and its operators\<close>

datatype WrappingInt32 = WrappingInt32 (raw_value: "32 word")

definition wi_diff :: "WrappingInt32 \<Rightarrow> WrappingInt32 \<Rightarrow> int" where
  "wi_diff a b = sint (raw_value a - raw_value b)"

definition wi_plus :: "WrappingInt32 \<Rightarrow> 32 word \<Rightarrow> WrappingInt32" where
  "wi_plus a b = WrappingInt32 (raw_value a + b)"

definition wi_minus :: "WrappingInt32 \<Rightarrow> 32 word \<Rightarrow> WrappingInt32" where
  "wi_minus a b = wi_plus a (- b)"

definition wrap :: "size_t \<Rightarrow> WrappingInt32 \<Rightarrow> WrappingInt32" where
  "wrap n isn = WrappingInt32 (of_nat (add64 n (unat (raw_value isn))))"

text \<open>
  The sum \<open>checkpoint + delta\<close> is computed modulo \<open>2 ^ 64\<close> and read back as an
  \<open>int64_t\<close>; a negative value is moved up by \<open>2 ^ 32\<close>, again modulo \<open>2 ^ 64\<close>.
\<close>

definition unwrap :: "WrappingInt32 \<Rightarrow> WrappingInt32 \<Rightarrow> size_t \<Rightarrow> size_t" where
  "unwrap n isn checkpoint =
     (let delta = wi_diff n (wrap checkpoint isn);
          ans = sint (word_of_int (int checkpoint + delta) :: 64 word)
      in if ans \<ge> 0 then nat ans else unat (word_of_int (ans + 4294967296) :: 64 word))"

section \<open>Facts about single operators\<close>

lemma of_nat_mod_SIZE: "(of_nat (n mod SIZE_MOD) :: 32 word) = of_nat n"
  by (simp add: word_of_nat_eq_iff take_bit_eq_mod mod_mod_cancel)

lemma raw_wrap: "raw_value (wrap n isn) = of_nat n + raw_value isn"
  by (simp add: wrap_def add64_def of_nat_mod_SIZE)

lemma wrap_eq_iff: "wrap m isn = wrap n isn \<longleftrightarrow> m mod UINT_MOD = n mod UINT_MOD"
proof -
  have "wrap m isn = wrap n isn \<longleftrightarrow> (of_nat m :: 32 word) = of_nat n"
    by (metis WrappingInt32.collapse add_right_cancel raw_wrap)
  also have "\<dots> \<longleftrightarrow> m mod UINT_MOD = n mod UINT_MOD"
    by (simp add: word_unat_eq_iff unat_of_nat)
  finally show ?thesis .
qed

lemma wi_diff_range: "- 2147483648 \<le> wi_diff a b" "wi_diff a b < 2147483648"
  using sint_greater_eq [of "raw_value a - raw_value b"] sint_less [of "raw_value a - raw_value b"]
  by (simp_all add: wi_diff_def)

lemma wi_diff_cong: "(of_int (wi_diff a b) :: 32 word) = raw_value a - raw_value b"
  by (simp add: wi_diff_def)

lemma wi_plus_minus: "wi_minus (wi_plus a b) b = a"
  by (cases a) (simp add: wi_minus_def wi_plus_def)

lemma wi_diff_plus: "- 2147483648 \<le> k \<Longrightarrow> k < 2147483648 \<Longrightarrow>
    wi_diff (wi_plus a (of_int k)) a = k"
  by (simp add: wi_diff_def wi_plus_def signed_of_int signed_take_bit_int_eq_self)

section \<open>The value of unwrap\<close>

lemma sint64_id: "- 9223372036854775808 \<le> k \<Longrightarrow> k < 9223372036854775808 \<Longrightarrow>
    sint (word_of_int k :: 64 word) = k"
  by (simp add: signed_of_int signed_take_bit_int_eq_self)

lemma uint64_id: "0 \<le> k \<Longrightarrow> k < 18446744073709551616 \<Longrightarrow> uint (word_of_int k :: 64 word) = k"
  by (simp add: uint_word_of_int)

lemma unwrap_value:
  fixes n isn :: WrappingInt32
  assumes "checkpoint < 9223372034707292160"
  defines "d \<equiv> wi_diff n (wrap checkpoint isn)"
  shows "int (unwrap n isn checkpoint) =
    (if int checkpoint + d \<ge> 0 then int checkpoint + d else int checkpoint + d + 4294967296)"
proof -
  have r: "- 2147483648 \<le> d" "d < 2147483648"
    using wi_diff_range by (simp_all add: d_def)
  then have s: "sint (word_of_int (int checkpoint + d) :: 64 word) = int checkpoint + d"
    using assms(1) by (intro sint64_id) auto
  have u: "uint (word_of_int (int checkpoint + d + 4294967296) :: 64 word)
      = int checkpoint + d + 4294967296" if "int checkpoint + d < 0"
    using that r by (intro uint64_id) auto
  show ?thesis
    using s u by (auto simp: unwrap_def Let_def d_def [symmetric] simp flip: uint_nat)
qed

lemma unwrap_cong:
  assumes "checkpoint < 9223372034707292160"
  shows "wrap (unwrap n isn checkpoint) isn = n"
proof -
  define d where "d = wi_diff n (wrap checkpoint isn)"
  have "(of_int (int (unwrap n isn checkpoint)) :: 32 word) = of_nat checkpoint + of_int d"
    using unwrap_value [OF assms, of n isn] by (simp add: d_def)
  also have "\<dots> = raw_value n - raw_value isn"
    by (simp add: d_def wi_diff_cong raw_wrap)
  finally show ?thesis
    by (cases n) (metis WrappingInt32.collapse WrappingInt32.sel diff_add_cancel of_int_of_nat_eq
        raw_wrap)
qed

lemma unwrap_near:
  assumes "checkpoint < 9223372034707292160"
  shows "- 2147483648 \<le> int (unwrap n isn checkpoint) - int checkpoint"
    and "int (unwrap n isn checkpoint) - int checkpoint < 2147483648 \<or>
      unwrap n isn checkpoint < 4294967296 \<and> checkpoint < 2147483648"
  using unwrap_value [OF assms, of n isn] wi_diff_range [of n "wrap checkpoint isn"]
  by (auto split: if_splits)

lemma wrap_diff_dvd:
  assumes "wrap m isn = wrap k isn"
  obtains q where "int m = int k + q * 4294967296"
proof -
  from assms have "int (m mod UINT_MOD) = int (k mod UINT_MOD)"
    by (simp only: wrap_eq_iff)
  then have "int m mod 4294967296 = int k mod 4294967296"
    by (simp only: zmod_int of_nat_numeral)
  then have "4294967296 dvd int m - int k" by (simp add: mod_eq_dvd_iff)
  then obtain q where "int m - int k = 4294967296 * q" by (elim dvdE)
  then show ?thesis using that [of q] by (simp add: algebra_simps)
qed

lemma unwrap_unique:
  assumes "checkpoint < 9223372034707292160"
    and "\<bar>int m - int checkpoint\<bar> < 2147483648"
  shows "unwrap (wrap m isn) isn checkpoint = m"
proof -
  have "wrap (unwrap (wrap m isn) isn checkpoint) isn = wrap m isn"
    using unwrap_cong [OF assms(1)] .
  then obtain q where "int (unwrap (wrap m isn) isn checkpoint) = int m + q * 4294967296"
    by (rule wrap_diff_dvd)
  moreover have "q = 0" if "int (unwrap (wrap m isn) isn checkpoint) = int m + q * 4294967296"
    using that unwrap_near [OF assms(1), of "wrap m isn" isn] assms(2) by auto
  ultimately show ?thesis by simp
qed

section \<open>The contract of a sequence number codec\<close>

locale seq_codec =
  fixes enc :: "nat \<Rightarrow> 'k \<Rightarrow> 'w"
    and dec :: "'w \<Rightarrow> 'k \<Rightarrow> nat \<Rightarrow> nat"
    and radius :: nat
    and limit :: nat
  assumes dec_enc: "c < limit \<Longrightarrow> \<bar>int n - int c\<bar> < int radius \<Longrightarrow> dec (enc n k) k c = n"
    and enc_dec: "c < limit \<Longrightarrow> enc (dec w k c) k = w"
begin

lemma dec_ahead: "c < limit \<Longrightarrow> c \<le> n \<Longrightarrow> n < c + radius \<Longrightarrow> dec (enc n k) k c = n"
  by (rule dec_enc) auto

lemma dec_behind: "c < limit \<Longrightarrow> n \<le> c \<Longrightarrow> c < n + radius \<Longrightarrow> dec (enc n k) k c = n"
  by (rule dec_enc) auto

lemma enc_inj_near:
  assumes "enc m k = enc n k" and "m < limit" and "\<bar>int n - int m\<bar> < int radius"
  shows "m = n"
proof -
  have "dec (enc m k) k m = m" using assms by (intro dec_enc) auto
  moreover have "dec (enc n k) k m = n" using assms by (intro dec_enc) auto
  ultimately show ?thesis using assms(1) by metis
qed

end

interpretation wseq: seq_codec wrap unwrap 2147483648 9223372034707292160
proof unfold_locales
  fix c n and k :: WrappingInt32
  assume "c < 9223372034707292160" and "\<bar>int n - int c\<bar> < int 2147483648"
  then show "unwrap (wrap n k) k c = n" by (intro unwrap_unique) simp_all
qed (rule unwrap_cong)

text \<open>Below \<open>2 ^ 31\<close>, the checkpoint does not matter.\<close>

lemma unwrap_below:
  assumes "checkpoint < 2147483648"
  shows "unwrap n isn checkpoint = unat (raw_value n - raw_value isn)"
proof -
  have c: "checkpoint < 9223372034707292160" using assms by simp
  have "unwrap n isn checkpoint < 4294967296"
    using unwrap_near [OF c, of n isn] assms by linarith
  moreover have "(of_nat (unwrap n isn checkpoint) :: 32 word) = raw_value n - raw_value isn"
    using unwrap_cong [OF c, of n isn] raw_wrap [of "unwrap n isn checkpoint" isn]
    by (simp add: eq_diff_eq)
  ultimately show ?thesis
    using unat_of_nat [of "unwrap n isn checkpoint", where 'a = 32] by simp
qed

lemma unwrap_wrap_below:
  "checkpoint < 2147483648 \<Longrightarrow> k < UINT_MOD \<Longrightarrow> unwrap (wrap k isn) isn checkpoint = k"
  by (simp add: unwrap_below raw_wrap unat_of_nat)

section \<open>Properties\<close>

text \<open>
  C19. Of all absolute sequence numbers that wrap to \<open>n\<close>, \<open>unwrap\<close> returns one that is
  closest to the checkpoint, as its documentation promises, for every checkpoint below
  \<open>2 ^ 63 - 2 ^ 31\<close>.
\<close>

theorem unwrap_closest:
  assumes "checkpoint < 9223372034707292160"
  shows "wrap (unwrap n isn checkpoint) isn = n \<and>
    (\<forall>m. wrap m isn = n \<longrightarrow>
       \<bar>int (unwrap n isn checkpoint) - int checkpoint\<bar> \<le> \<bar>int m - int checkpoint\<bar>)"
proof (intro conjI allI impI)
  show "wrap (unwrap n isn checkpoint) isn = n" by (rule unwrap_cong [OF assms])
  fix m assume m: "wrap m isn = n"
  obtain q where q: "int m = int (unwrap n isn checkpoint) + q * 4294967296"
    using wrap_diff_dvd [of m isn "unwrap n isn checkpoint"] m unwrap_cong [OF assms] by metis
  have "q = 0 \<or> q \<le> - 1 \<or> 1 \<le> q" by arith
  then have "int m = int (unwrap n isn checkpoint) \<or>
      int m \<le> int (unwrap n isn checkpoint) - 4294967296 \<or>
      int (unwrap n isn checkpoint) + 4294967296 \<le> int m"
    using q by auto
  then show "\<bar>int (unwrap n isn checkpoint) - int checkpoint\<bar> \<le> \<bar>int m - int checkpoint\<bar>"
    using unwrap_near [OF assms, of n isn] by linarith
qed

theorem unwrap_closest_witness:
  "wrap (unwrap (WrappingInt32 5) (WrappingInt32 7) 4294967296) (WrappingInt32 7) = WrappingInt32 5
   \<and> unwrap (WrappingInt32 5) (WrappingInt32 7) 4294967296 = 4294967294"
proof -
  have "unwrap (WrappingInt32 5) (WrappingInt32 7) 4294967296 = 4294967294"
    by (simp add: unwrap_def wrap_def wi_diff_def add64_def Let_def)
  then show ?thesis
    using unwrap_closest [of 4294967296 "WrappingInt32 5" "WrappingInt32 7"] by simp
qed

text \<open>
  C20. \<open>unwrap\<close> inverts \<open>wrap\<close>: an absolute sequence number less than \<open>2 ^ 31\<close> away
  from the checkpoint survives the trip through a 32-bit header field, whatever the
  initial sequence number.
\<close>

theorem unwrap_wrap:
  assumes "checkpoint < 9223372034707292160"
    and "\<bar>int n - int checkpoint\<bar> < 2147483648"
  shows "unwrap (wrap n isn) isn checkpoint = n"
  using wseq.dec_enc [OF assms(1)] assms(2) by simp

theorem unwrap_wrap_witness:
  "unwrap (wrap 4294967300 (WrappingInt32 4294967295)) (WrappingInt32 4294967295) 4294967000
     = 4294967300"
  by (rule unwrap_wrap) simp_all

text \<open>
  With a checkpoint below \<open>2 ^ 31\<close>, \<open>unwrap\<close> recovers a sequence number only modulo
  \<open>2 ^ 32\<close>. A caller that does not move its checkpoint along with the stream cannot see
  past the first 4 GiB.
\<close>

lemma unwrap_small_checkpoint:
  assumes "checkpoint < 2147483648"
  shows "unwrap (wrap k isn) isn checkpoint = k mod 4294967296"
  using unwrap_below [OF assms, of "wrap k isn" isn] by (simp add: raw_wrap unat_of_nat)

text \<open>
  C40. When the checkpoint's top bit is set, the intermediate \<open>int64_t\<close> is negative and
  \<open>unwrap\<close> is off by \<open>2 ^ 32\<close>: even the checkpoint itself does not survive the trip.
\<close>

theorem unwrap_high_checkpoint:
  assumes "9223372036854775808 \<le> c" and "c < SIZE_MOD"
  shows "unwrap (wrap c isn) isn c = add64 c 4294967296"
proof -
  have z: "(18446744073709551616 :: 64 word) = 0" by simp
  have "sint (word_of_int (int c) :: 64 word) = sint (word_of_int (int c - 18446744073709551616) :: 64 word)"
    by (simp add: z)
  also have "\<dots> = int c - 18446744073709551616"
    using assms by (intro sint64_id) auto
  finally have s: "sint (word_of_int (int c) :: 64 word) = int c - 18446744073709551616" .
  have "unwrap (wrap c isn) isn c =
      unat (word_of_int (int c - 18446744073709551616 + 4294967296) :: 64 word)"
    using s assms by (simp add: unwrap_def wi_diff_def Let_def)
  also have "\<dots> = nat ((int c - 18446744073709551616 + 4294967296) mod 18446744073709551616)"
    by (simp only: unat_eq_nat_uint uint_word_of_int) simp
  also have "\<dots> = nat ((int c + 4294967296) mod 18446744073709551616)"
    using mod_add_self2 [of "int c - 18446744073709551616 + 4294967296" "18446744073709551616"]
    by (simp add: add.commute)
  also have "\<dots> = add64 c 4294967296"
    by (simp add: add64_def nat_mod_distrib nat_add_distrib)
  finally show ?thesis .
qed

theorem unwrap_high_checkpoint_witness:
  "unwrap (wrap 9223372036854775808 (WrappingInt32 3)) (WrappingInt32 3) 9223372036854775808
     = 9223372041149743104"
  using unwrap_high_checkpoint [of 9223372036854775808 "WrappingInt32 3"] by (simp add: add64_def)

end
