(* ===== verification/Tcp_Segment.thy ===== *)
theory Tcp_Segment
  imports Internet_Checksum Wrapping_Integers
begin

text \<open>
  \<open>TCPHeader\<close> and \<open>TCPSegment\<close> (\<open>libsponge/tcp_helpers/tcp_header.hh\<close>,
  \<open>tcp_header.cc\<close>, \<open>tcp_segment.hh\<close>, \<open>tcp_segment.cc\<close>): the wire format of TCP. Parsing
  and serializing are written in the order of the source, every call that may throw
  included; the lemmas show that parsing never throws, that it inverts serializing, and
  which malformed segments it lets through.
\<close>

unbundle bit_operations_syntax

section \<open>TCPHeader\<close>

record TCPHeader =
  th_sport :: "16 word"
  th_dport :: "16 word"
  th_seqno :: WrappingInt32
  th_ackno :: WrappingInt32
  th_doff :: "8 word"
  th_urg :: bool
  th_ack :: bool
  th_psh :: bool
  th_rst :: bool
  th_syn :: bool
  th_fin :: bool
  th_win :: "16 word"
  th_cksum :: "16 word"
  th_uptr :: "16 word"

definition TCPHeader_LENGTH :: size_t where
  "TCPHeader_LENGTH = 20"

definition TCPHeader_default :: TCPHeader where
  "TCPHeader_default =
     \<lparr>th_sport = 0, th_dport = 0, th_seqno = WrappingInt32 0, th_ackno = WrappingInt32 0,
      th_doff = of_nat (TCPHeader_LENGTH div 4), th_urg = False, th_ack = False, th_psh = False,
      th_rst = False, th_syn = False, th_fin = False, th_win = 0, th_cksum = 0, th_uptr = 0\<rparr>"

definition TCPHeader_parse :: "NetParser \<Rightarrow> (NetParser \<times> TCPHeader \<times> ParseResult) res" where
  "TCPHeader_parse p =
     bindR (NetParser_u16 p) (\<lambda>(p, sport).
     bindR (NetParser_u16 p) (\<lambda>(p, dport).
     bindR (NetParser_u32 p) (\<lambda>(p, seqno).
     bindR (NetParser_u32 p) (\<lambda>(p, ackno).
     bindR (NetParser_u8 p) (\<lambda>(p, doff_b).
     bindR (NetParser_u8 p) (\<lambda>(p, fl_b).
     bindR (NetParser_u16 p) (\<lambda>(p, win).
     bindR (NetParser_u16 p) (\<lambda>(p, cksum).
     bindR (NetParser_u16 p) (\<lambda>(p, uptr).
       let h = \<lparr>th_sport = sport, th_dport = dport, th_seqno = WrappingInt32 seqno,
                th_ackno = WrappingInt32 ackno, th_doff = drop_bit 4 doff_b,
                th_urg = (fl_b AND 0b00100000 \<noteq> 0), th_ack = (fl_b AND 0b00010000 \<noteq> 0),
                th_psh = (fl_b AND 0b00001000 \<noteq> 0), th_rst = (fl_b AND 0b00000100 \<noteq> 0),
                th_syn = (fl_b AND 0b00000010 \<noteq> 0), th_fin = (fl_b AND 0b00000001 \<noteq> 0),
                th_win = win, th_cksum = cksum, th_uptr = uptr\<rparr>
       in if th_doff h < 5 then Inr (p, h, HeaderTooShort)
          else bindR (NetParser_remove_prefix p (sub64 (unat (th_doff h) * 4) TCPHeader_LENGTH)) (\<lambda>p.
            if NetParser_error p then Inr (p, h, np_error p) else Inr (p, h, NoError)))))))))))"

definition TCPHeader_flags :: "TCPHeader \<Rightarrow> 8 word" where
  "TCPHeader_flags h =
     (if th_urg h then 0b00100000 else 0) OR (if th_ack h then 0b00010000 else 0) OR
     (if th_psh h then 0b00001000 else 0) OR (if th_rst h then 0b00000100 else 0) OR
     (if th_syn h then 0b00000010 else 0) OR (if th_fin h then 0b00000001 else 0)"

definition TCPHeader_serialize :: "TCPHeader \<Rightarrow> byte list res" where
  "TCPHeader_serialize h =
     (if th_doff h < 5 then Inl (runtime_error ''TCP header too short'')
      else
        let ret = [];
            ret = NetUnparser_u16 ret (th_sport h);
            ret = NetUnparser_u16 ret (th_dport h);
            ret = NetUnparser_u32 ret (raw_value (th_seqno h));
            ret = NetUnparser_u32 ret (raw_value (th_ackno h));
            ret = NetUnparser_u8 ret (push_bit 4 (th_doff h));
            ret = NetUnparser_u8 ret (TCPHeader_flags h);
            ret = NetUnparser_u16 ret (th_win h);
            ret = NetUnparser_u16 ret (th_cksum h);
            ret = NetUnparser_u16 ret (th_uptr h)
        in Inr (resize ret (4 * unat (th_doff h))))"

definition TCPHeader_eq :: "TCPHeader \<Rightarrow> TCPHeader \<Rightarrow> bool" where
  "TCPHeader_eq a b \<longleftrightarrow>
     th_seqno a = th_seqno b \<and> th_ackno a = th_ackno b \<and> th_doff a = th_doff b \<and>
     th_urg a = th_urg b \<and> th_ack a = th_ack b \<and> th_psh a = th_psh b \<and> th_rst a = th_rst b \<and>
     th_syn a = th_syn b \<and> th_fin a = th_fin b \<and> th_win a = th_win b \<and> th_uptr a = th_uptr b"

section \<open>TCPSegment\<close>

record TCPSegment =
  seg_header :: TCPHeader
  seg_payload :: Buffer

definition TCPSegment_default :: TCPSegment where
  "TCPSegment_default = \<lparr>seg_header = TCPHeader_default, seg_payload = Buffer_empty\<rparr>"

definition TCPSegment_parse ::
  "TCPSegment \<Rightarrow> Buffer \<Rightarrow> 32 word \<Rightarrow> (TCPSegment \<times> ParseResult) res" where
  "TCPSegment_parse seg buffer datagram_layer_checksum =
     (let check = InternetChecksum_add (InternetChecksum_new datagram_layer_checksum) (Buffer_str buffer)
      in if InternetChecksum_value check \<noteq> 0 then Inr (seg, BadChecksum)
         else bindR (TCPHeader_parse (NetParser_new buffer)) (\<lambda>(p, h, _).
           Inr (seg\<lparr>seg_header := h, seg_payload := np_buffer p\<rparr>, np_error p)))"

definition TCPSegment_length_in_sequence_space :: "TCPSegment \<Rightarrow> size_t" where
  "TCPSegment_length_in_sequence_space seg =
     add64 (add64 (length (Buffer_str (seg_payload seg))) (if th_syn (seg_header seg) then 1 else 0))
       (if th_fin (seg_header seg) then 1 else 0)"

definition TCPSegment_serialize :: "TCPSegment \<Rightarrow> 32 word \<Rightarrow> BufferList res" where
  "TCPSegment_serialize seg datagram_layer_checksum =
     (let header_out = (seg_header seg)\<lparr>th_cksum := 0\<rparr>
      in bindR (TCPHeader_serialize header_out) (\<lambda>s0.
         let check = InternetChecksum_add (InternetChecksum_new datagram_layer_checksum) s0;
             check = InternetChecksum_add check (Buffer_str (seg_payload seg));
             header_out = header_out\<lparr>th_cksum := InternetChecksum_value check\<rparr>
         in bindR (TCPHeader_serialize header_out) (\<lambda>s1.
           Inr (BufferList_append (BufferList_append [] [Buffer_of s1]) [seg_payload seg]))))"

section \<open>The header on the wire\<close>

text \<open>The twenty fixed bytes of a header, in the order of RFC 793.\<close>

definition header_wire :: "TCPHeader \<Rightarrow> byte list" where
  "header_wire h =
     be_bytes 2 (unat (th_sport h)) @ be_bytes 2 (unat (th_dport h)) @
     be_bytes 4 (unat (raw_value (th_seqno h))) @ be_bytes 4 (unat (raw_value (th_ackno h))) @
     be_bytes 1 (unat (push_bit 4 (th_doff h))) @ be_bytes 1 (unat (TCPHeader_flags h)) @
     be_bytes 2 (unat (th_win h)) @ be_bytes 2 (unat (th_cksum h)) @ be_bytes 2 (unat (th_uptr h))"

lemma length_header_wire [simp]: "length (header_wire h) = 20"
  by (simp add: header_wire_def)

lemma doff_bounds: "\<not> th_doff h < 5 \<longleftrightarrow> 5 \<le> unat (th_doff h)"
  by (simp add: word_less_nat_alt not_less)

lemma TCPHeader_serialize_ok:
  "5 \<le> unat (th_doff h) \<Longrightarrow>
   TCPHeader_serialize h = Inr (header_wire h @ replicate (4 * unat (th_doff h) - 20) 0)"
  by (simp add: TCPHeader_serialize_def n8.unparse_enc n16.unparse_enc n32.unparse_enc Let_def
      resize_longer header_wire_def word_less_nat_alt)

lemma flags_read:
  "(TCPHeader_flags h AND 0b00100000 \<noteq> 0) = th_urg h" "(TCPHeader_flags h AND 0b00010000 \<noteq> 0) = th_ack h"
  "(TCPHeader_flags h AND 0b00001000 \<noteq> 0) = th_psh h" "(TCPHeader_flags h AND 0b00000100 \<noteq> 0) = th_rst h"
  "(TCPHeader_flags h AND 0b00000010 \<noteq> 0) = th_syn h" "(TCPHeader_flags h AND 0b00000001 \<noteq> 0) = th_fin h"
  by (simp_all add: TCPHeader_flags_def)

lemma doff_read:
  assumes "unat (d :: byte) < 16"
  shows "drop_bit 4 (push_bit 4 d) = d"
proof (rule bit_word_eqI)
  fix n assume n: "n < LENGTH(8)"
  have "take_bit 4 d = d"
    using assms by (simp only: word_unat_eq_iff unsigned_take_bit_eq) (simp add: take_bit_eq_mod)
  then have "n < 4" if "bit d n" using that by (metis bit_take_bit_iff)
  then show "bit (drop_bit 4 (push_bit 4 d)) n = bit d n"
    using n by (auto simp: bit_simps simp del: drop_bit_eq_div push_bit_eq_mult)
qed

lemma header_collapse:
  "\<lparr>th_sport = th_sport h, th_dport = th_dport h, th_seqno = th_seqno h, th_ackno = th_ackno h,
    th_doff = th_doff h, th_urg = th_urg h, th_ack = th_ack h, th_psh = th_psh h, th_rst = th_rst h,
    th_syn = th_syn h, th_fin = th_fin h, th_win = th_win h, th_cksum = th_cksum h,
    th_uptr = th_uptr h\<rparr> = h"
  by simp

lemma TCPHeader_parse_wire:
  assumes "np_at p (header_wire h @ pad @ rest)" and "length pad = 4 * unat (th_doff h) - 20"
    and "5 \<le> unat (th_doff h)" and "unat (th_doff h) < 16"
  shows "parses_to (TCPHeader_parse p) (h, NoError) rest"
proof -
  have skip: "length pad = sub64 (unat (th_doff h) * 4) TCPHeader_LENGTH"
    using assms(2-4) by (simp add: TCPHeader_LENGTH_def sub64_eq)
  have big: "\<not> th_doff h < 5" using assms(3) by (simp only: doff_bounds)
  have last: "parses_to (if th_doff h < 5 then Inr (p', h, HeaderTooShort)
      else bindR (NetParser_remove_prefix p' (sub64 (unat (th_doff h) * 4) TCPHeader_LENGTH)) (\<lambda>p.
            if NetParser_error p then Inr (p, h, np_error p) else Inr (p, h, NoError))) (h, NoError) rest"
    if "np_at p' (pad @ rest)" for p'
  proof (simp only: big if_False, rule parses_to_skip [OF that skip])
    fix q assume "np_at q rest"
    then show "parses_to (if NetParser_error q then Inr (q, h, np_error q) else Inr (q, h, NoError))
        (h, NoError) rest"
      by (simp add: parses_to_def np_at_def NetParser_error_def)
  qed
  show ?thesis
    unfolding TCPHeader_parse_def
    apply (rule n16.parses_bind [of p "th_sport h"])
     apply (use assms(1) in \<open>simp only: header_wire_def append_assoc\<close>)
    apply (simp only: prod.case)
    apply (erule n16.parses_bind n32.parses_bind n8.parses_bind, simp only: prod.case)+
    apply (simp only: Let_def TCPHeader.simps flags_read doff_read [OF assms(4)] WrappingInt32.collapse header_collapse)
    apply (erule last)
    done
qed

section \<open>The segment on the wire\<close>

lemma header_wire_cksum:
  obtains xs ys where "length xs = 16" "\<And>v. header_wire (h\<lparr>th_cksum := v\<rparr>) = xs @ be_bytes 2 (unat v) @ ys"
proof
  let ?xs = "be_bytes 2 (unat (th_sport h)) @ be_bytes 2 (unat (th_dport h)) @
     be_bytes 4 (unat (raw_value (th_seqno h))) @ be_bytes 4 (unat (raw_value (th_ackno h))) @
     be_bytes 1 (unat (push_bit 4 (th_doff h))) @ be_bytes 1 (unat (TCPHeader_flags h)) @
     be_bytes 2 (unat (th_win h))"
  show "length ?xs = 16" by simp
  show "header_wire (h\<lparr>th_cksum := v\<rparr>) = ?xs @ be_bytes 2 (unat v) @ be_bytes 2 (unat (th_uptr h))" for v
    by (simp add: header_wire_def TCPHeader_flags_def)
qed

lemma TCPSegment_serialize_ok:
  assumes "5 \<le> unat (th_doff (seg_header seg))"
    and "unat c + 65280 * (4 * unat (th_doff (seg_header seg)) + length (Buffer_str (seg_payload seg))) + 65535 < UINT_MOD"
  obtains v s where "TCPSegment_serialize seg c = Inr [Buffer_of s, seg_payload seg]"
    "s = header_wire ((seg_header seg)\<lparr>th_cksum := v\<rparr>) @ replicate (4 * unat (th_doff (seg_header seg)) - 20) 0"
    "InternetChecksum_value (InternetChecksum_add (InternetChecksum_new c) (s @ Buffer_str (seg_payload seg))) = 0"
proof -
  let ?h = "seg_header seg" and ?pad = "replicate (4 * unat (th_doff (seg_header seg)) - 20) (0 :: byte)"
  let ?d = "Buffer_str (seg_payload seg)"
  obtain xs ys where x: "length xs = 16"
    "\<And>v. header_wire (?h\<lparr>th_cksum := v\<rparr>) = xs @ be_bytes 2 (unat v) @ ys"
    by (rule header_wire_cksum [of ?h]) blast
  have wire: "TCPHeader_serialize (?h\<lparr>th_cksum := v\<rparr>) = Inr (header_wire (?h\<lparr>th_cksum := v\<rparr>) @ ?pad)" for v
    using TCPHeader_serialize_ok [of "?h\<lparr>th_cksum := v\<rparr>"] assms(1) by simp
  define v where "v = InternetChecksum_value (InternetChecksum_add (InternetChecksum_new c)
    (xs @ be_bytes 2 0 @ (ys @ ?pad @ ?d)))"
  have z: "header_wire (?h\<lparr>th_cksum := 0\<rparr>) = xs @ be_bytes 2 0 @ ys" using x(2) [of 0] by simp
  have "length (xs @ be_bytes 2 0 @ ys) = 20" unfolding z [symmetric] by simp
  then have "length (xs @ be_bytes 2 0 @ ys @ ?pad @ ?d) = 4 * unat (th_doff ?h) + length ?d"
    using assms(1) by simp
  then have "unat c + byte_sum False (xs @ be_bytes 2 0 @ ys @ ?pad @ ?d) + 65535 < UINT_MOD"
    using assms(2) byte_sum_bound [of False "xs @ be_bytes 2 0 @ ys @ ?pad @ ?d"] by simp
  from checksum_verifies [OF _ this v_def] x(1)
  have ok: "InternetChecksum_value (InternetChecksum_add (InternetChecksum_new c)
      (xs @ be_bytes 2 (unat v) @ ys @ ?pad @ ?d)) = 0" by simp
  show ?thesis
  proof (rule that [OF _ refl, of v])
    show "TCPSegment_serialize seg c = Inr [Buffer_of (header_wire (?h\<lparr>th_cksum := v\<rparr>) @ ?pad), seg_payload seg]"
      using wire [of 0] wire [of v] by (simp add: TCPSegment_serialize_def Let_def v_def z add_append)
    show "InternetChecksum_value (InternetChecksum_add (InternetChecksum_new c)
        ((header_wire (?h\<lparr>th_cksum := v\<rparr>) @ ?pad) @ Buffer_str (seg_payload seg))) = 0"
      using ok by (simp add: x(2))
  qed
qed

lemma TCPSegment_parse_wire:
  assumes "InternetChecksum_value (InternetChecksum_add (InternetChecksum_new c) (header_wire h @ pad @ d)) = 0"
    and "length pad = 4 * unat (th_doff h) - 20" and "5 \<le> unat (th_doff h)" and "unat (th_doff h) < 16"
    and "Buffer_inv b" and "Buffer_str b = header_wire h @ pad @ d"
  obtains pl where "TCPSegment_parse seg b c = Inr (seg\<lparr>seg_header := h, seg_payload := pl\<rparr>, NoError)"
    "Buffer_inv pl" "Buffer_str pl = d"
proof -
  have "np_at (NetParser_new b) (header_wire h @ pad @ d)"
    using assms(5,6) by (simp add: np_at_def NetParser_new_def)
  from TCPHeader_parse_wire [OF this assms(2-4)]
  obtain p' where "TCPHeader_parse (NetParser_new b) = Inr (p', h, NoError)" "np_at p' d"
    by (auto simp: parses_to_def)
  then show ?thesis using that assms(1,6) by (simp add: TCPSegment_parse_def np_at_def Let_def)
qed

text \<open>Which inputs the parser of the header takes, and what it leaves to read.\<close>

lemma TCPHeader_parse_short:
  assumes "Buffer_inv b" and "length (Buffer_str b) < 20"
  shows "parses_bad (TCPHeader_parse (NetParser_new b))"
proof -
  have last: "parses_bad (let h = H in if th_doff h < 5 then Inr (p', h, HeaderTooShort)
      else bindR (NetParser_remove_prefix p' (N h)) (\<lambda>p.
        if NetParser_error p then Inr (p, h, np_error p) else Inr (p, h, NoError)))"
    if "np_short 0 p'" for p' H N
  proof -
    have "np_short (N H) p'" using that by (auto simp: np_short_def)
    then have "parses_bad (bindR (NetParser_remove_prefix p' (N H)) (\<lambda>p.
        if NetParser_error p then Inr (p, H, np_error p) else Inr (p, H, NoError)))"
      by (rule parses_bad_skip) (simp add: parses_bad_def)
    then show ?thesis using that by (simp add: Let_def parses_bad_def)
  qed
  have "np_short (2 + (2 + (4 + (4 + (1 + (1 + (2 + (2 + (2 + 0))))))))) (NetParser_new b)"
    using np_short_new [OF assms] by simp
  then show ?thesis
    unfolding TCPHeader_parse_def
    by - ((erule n16.bad_bind n32.bad_bind n8.bad_bind, simp only: prod.case)+, erule last)
qed

lemma be_bytes_1: "be_bytes 1 (unat (v :: byte)) = [v]"
  by (simp add: be_bytes_def)

text \<open>What a header parse makes of a string \<open>s\<close> of at least twenty bytes with data offset \<open>d\<close>.\<close>

definition header_read :: "byte list \<Rightarrow> nat \<Rightarrow> (NetParser \<times> TCPHeader \<times> ParseResult) res \<Rightarrow> bool" where
  "header_read s d x \<longleftrightarrow> (\<exists>p' h r. x = Inr (p', h, r) \<and> unat (th_doff h) = d \<and>
    (if d < 5 then np_at p' (drop 20 s) \<and> r = HeaderTooShort
     else if 4 * d \<le> length s then np_at p' (drop (4 * d) s) \<and> r = NoError
     else np_error p' \<noteq> NoError \<and> r = np_error p'))"

lemma header_read_tail:
  assumes "np_at p (drop 20 s)" and "unat (th_doff h) = d" and "d < 16" and "20 \<le> length s"
  shows "header_read s d (if th_doff h < 5 then Inr (p, h, HeaderTooShort)
      else bindR (NetParser_remove_prefix p (sub64 (unat (th_doff h) * 4) TCPHeader_LENGTH)) (\<lambda>p.
        if NetParser_error p then Inr (p, h, np_error p) else Inr (p, h, NoError)))"
proof (cases "d < 5")
  case True
  then show ?thesis using assms by (simp add: header_read_def word_less_nat_alt)
next
  case False
  then have n: "sub64 (unat (th_doff h) * 4) TCPHeader_LENGTH = 4 * d - 20"
    using assms(2,3) by (simp add: TCPHeader_LENGTH_def sub64_eq mult.commute)
  have i: "Buffer_inv (np_buffer p)" "np_error p = NoError" "Buffer_str (np_buffer p) = drop 20 s"
    using assms(1) by (simp_all add: np_at_def)
  have big: "\<not> th_doff h < 5" using False assms(2) by (simp add: word_less_nat_alt)
  show ?thesis
  proof (cases "4 * d \<le> length s")
    case True
    then have "4 * d - 20 \<le> length (Buffer_str (np_buffer p))" using i(3) by simp
    then obtain b where "NetParser_remove_prefix p (4 * d - 20) = Inr (p\<lparr>np_buffer := b\<rparr>)"
      "Buffer_inv b" "Buffer_str b = drop (4 * d - 20) (Buffer_str (np_buffer p))"
      by (rule NetParser_remove_prefix_ok [OF i(1,2)])
    then show ?thesis using big n i False True assms(2)
      by (simp add: header_read_def np_at_def NetParser_error_def)
  next
    case nok: False
    then have "length s - 20 < 4 * d - 20" using assms(4) by simp
    then show ?thesis using big n i False assms(2) nok
      by (simp add: header_read_def NetParser_remove_prefix_def NetParser_check_size_def
          NetParser_set_error_def NetParser_error_def Buffer_size_def)
  qed
qed

lemma TCPHeader_parse_long:
  assumes "Buffer_inv b" and "Buffer_str b = s" and "20 \<le> length s"
  shows "header_read s (unat (s ! 12) div 16) (TCPHeader_parse (NetParser_new b))"
proof -
  define Q where "Q = header_read s (unat (s ! 12) div 16)"
  have s16: "Q (bindR (NetParser_u16 p) f)" if "np_at p (drop n s)" "n + 2 \<le> 20"
    "\<And>p' v. np_at p' (drop (n + 2) s) \<Longrightarrow> Q (f (p', v))" for p f n
    using that assms(3) by (intro n16.read_bind [where Q = Q, OF that(1)]) (auto simp: add.commute)
  have s32: "Q (bindR (NetParser_u32 p) f)" if "np_at p (drop n s)" "n + 4 \<le> 20"
    "\<And>p' v. np_at p' (drop (n + 4) s) \<Longrightarrow> Q (f (p', v))" for p f n
    using that assms(3) by (intro n32.read_bind [where Q = Q, OF that(1)]) (auto simp: add.commute)
  have s8: "Q (bindR (NetParser_u8 p) f)" if "np_at p (drop n s)" "n + 1 \<le> 20"
    "\<And>p'. np_at p' (drop (n + 1) s) \<Longrightarrow> Q (f (p', s ! n))" for p f n
  proof (rule n8.read_bind [where Q = Q, OF that(1)])
    show "1 \<le> length (drop n s)" using that(2) assms(3) by simp
    fix p' v assume "take 1 (drop n s) = be_bytes 1 (unat (v :: byte))" and a: "np_at p' (drop 1 (drop n s))"
    then have "s ! n = v" using that(2) assms(3) unfolding be_bytes_1 by (simp add: take_Suc_conv_app_nth)
    then show "Q (f (p', v))" using that(3) a by (simp add: add.commute)
  qed
  have d: "unat (drop_bit 4 (s ! 12)) = unat (s ! 12) div 16"
    by (simp only: unat_drop_bit_eq) (simp add: drop_bit_eq_div)
  have d16: "unat (s ! 12) div 16 < 16" using unat_byte [of "s ! 12"] by simp
  have last: "Q (let h = H in if th_doff h < 5 then Inr (p', h, HeaderTooShort)
      else bindR (NetParser_remove_prefix p' (sub64 (unat (th_doff h) * 4) TCPHeader_LENGTH)) (\<lambda>p.
        if NetParser_error p then Inr (p, h, np_error p) else Inr (p, h, NoError)))"
    if "np_at p' (drop 20 s)" "th_doff H = drop_bit 4 (s ! 12)" for p' H
    unfolding Q_def Let_def by (rule header_read_tail [OF that(1) _ d16 assms(3)]) (simp only: that(2) d)
  have "np_at (NetParser_new b) (drop 0 s)" using assms(1,2) by (simp add: np_at_def NetParser_new_def)
  then have "Q (TCPHeader_parse (NetParser_new b))"
    unfolding TCPHeader_parse_def
    apply -
    apply (erule s16 s32 s8, simp, simp only: prod.case)+
    apply (rule last, simp, simp)
    done
  then show ?thesis unfolding Q_def .
qed

section \<open>Properties\<close>

text \<open>
  C16. A segment survives the wire: what \<open>serialize\<close> makes of it, concatenated, is taken by
  \<open>parse\<close> under the same pseudo-header checksum and gives the same payload and the same
  header, the checksum field aside, which \<open>serialize\<close> fills in.
\<close>

theorem TCPSegment_round_trip:
  assumes "5 \<le> unat (th_doff (seg_header seg))" and "unat (th_doff (seg_header seg)) < 16"
    and "unat c + 65280 * (4 * unat (th_doff (seg_header seg)) + length (Buffer_str (seg_payload seg))) + 65535 < UINT_MOD"
  shows "\<exists>bl v pl. TCPSegment_serialize seg c = Inr bl \<and>
    TCPSegment_parse old (Buffer_of (BufferList_concatenate bl)) c =
      Inr (old\<lparr>seg_header := (seg_header seg)\<lparr>th_cksum := v\<rparr>, seg_payload := pl\<rparr>, NoError) \<and>
    Buffer_str pl = Buffer_str (seg_payload seg)"
proof -
  let ?d = "Buffer_str (seg_payload seg)" and ?n = "4 * unat (th_doff (seg_header seg)) - 20"
  obtain v s where s: "TCPSegment_serialize seg c = Inr [Buffer_of s, seg_payload seg]"
    "s = header_wire ((seg_header seg)\<lparr>th_cksum := v\<rparr>) @ replicate ?n 0"
    "InternetChecksum_value (InternetChecksum_add (InternetChecksum_new c) (s @ ?d)) = 0"
    by (rule TCPSegment_serialize_ok [OF assms(1,3)])
  have cat: "BufferList_concatenate [Buffer_of s, seg_payload seg] = s @ ?d"
    by (simp add: BufferList_concatenate_eq)
  have "Buffer_inv (Buffer_of (s @ ?d))" using assms(3) s(2) by simp
  then obtain pl where "TCPSegment_parse old (Buffer_of (s @ ?d)) c =
      Inr (old\<lparr>seg_header := (seg_header seg)\<lparr>th_cksum := v\<rparr>, seg_payload := pl\<rparr>, NoError)"
    "Buffer_str pl = ?d"
    using TCPSegment_parse_wire [of c "(seg_header seg)\<lparr>th_cksum := v\<rparr>" "replicate ?n 0" ?d "Buffer_of (s @ ?d)" old]
      assms(1,2) s(2,3) by auto
  then show ?thesis using s(1) cat by auto
qed

theorem TCPSegment_round_trip_witness:
  "\<exists>bl v pl. TCPSegment_serialize (TCPSegment_default\<lparr>seg_payload := Buffer_of [104, 105]\<rparr>) 7 = Inr bl \<and>
    TCPSegment_parse TCPSegment_default (Buffer_of (BufferList_concatenate bl)) 7 =
      Inr (TCPSegment_default\<lparr>seg_header := TCPHeader_default\<lparr>th_cksum := v\<rparr>, seg_payload := pl\<rparr>, NoError) \<and>
    Buffer_str pl = [104, 105]"
  using TCPSegment_round_trip [of "TCPSegment_default\<lparr>seg_payload := Buffer_of [104, 105]\<rparr>" 7 TCPSegment_default]
  by (simp add: TCPSegment_default_def TCPHeader_default_def TCPHeader_LENGTH_def)

text \<open>
  C38. What \<open>TCPSegment::parse\<close> takes, exactly: it never throws, and it reports success
  if and only if the checksum verifies, there are twenty bytes, and the data offset is
  either within the packet or below the legal minimum of five words. For a data offset
  below five, which \<open>TCPHeader::parse\<close> reports as \<open>HeaderTooShort\<close>, the result is
  dropped and everything after twenty bytes becomes the payload.
\<close>

theorem TCPSegment_parse_accepts:
  assumes "Buffer_inv b" and "Buffer_str b = s"
  shows "\<exists>seg' r. TCPSegment_parse seg b c = Inr (seg', r) \<and>
    (r = NoError \<longleftrightarrow>
       InternetChecksum_value (InternetChecksum_add (InternetChecksum_new c) s) = 0 \<and>
       20 \<le> length s \<and> (unat (s ! 12) div 16 < 5 \<or> 4 * (unat (s ! 12) div 16) \<le> length s)) \<and>
    (r = NoError \<longrightarrow> Buffer_str (seg_payload seg') =
       drop (if unat (s ! 12) div 16 < 5 then 20 else 4 * (unat (s ! 12) div 16)) s)"
proof (cases "InternetChecksum_value (InternetChecksum_add (InternetChecksum_new c) s) = 0")
  case False
  then show ?thesis using assms(2) by (simp add: TCPSegment_parse_def Let_def)
next
  case ck: True
  show ?thesis
  proof (cases "20 \<le> length s")
    case False
    then have "parses_bad (TCPHeader_parse (NetParser_new b))"
      using TCPHeader_parse_short assms by simp
    then obtain p h r where "TCPHeader_parse (NetParser_new b) = Inr (p, h, r)" "np_error p \<noteq> NoError"
      by (auto simp: parses_bad_def np_short_def)
    then show ?thesis using ck False assms(2) by (simp add: TCPSegment_parse_def Let_def)
  next
    case True
    then obtain p h r where "TCPHeader_parse (NetParser_new b) = Inr (p, h, r)"
      and h: "if unat (s ! 12) div 16 < 5 then np_at p (drop 20 s) \<and> r = HeaderTooShort
        else if 4 * (unat (s ! 12) div 16) \<le> length s
          then np_at p (drop (4 * (unat (s ! 12) div 16)) s) \<and> r = NoError
          else np_error p \<noteq> NoError \<and> r = np_error p"
      using TCPHeader_parse_long [OF assms] unfolding header_read_def by blast
    then show ?thesis using ck True assms(2)
      by (auto simp: TCPSegment_parse_def Let_def np_at_def split: if_splits)
  qed
qed

theorem TCPSegment_parse_accepts_witness:
  "\<exists>seg'. TCPSegment_parse TCPSegment_default
      (Buffer_of [0,0,0,0,0,0,0,0,0,0,0,0,0,0,0,0,0,0,0,0,7]) 0xf8ff = Inr (seg', NoError) \<and>
     Buffer_str (seg_payload seg') = [7]"
proof -
  define s :: "byte list" where "s = [0,0,0,0,0,0,0,0,0,0,0,0,0,0,0,0,0,0,0,0,7]"
  have "InternetChecksum_value (InternetChecksum_add (InternetChecksum_new 0xf8ff) s) = 0"
    by (simp add: s_def value_zero_iff add_sum InternetChecksum_new_def)
  moreover have "Buffer_inv (Buffer_of s)" "20 \<le> length s" "s ! 12 = 0" "drop 20 s = [7]"
    by (simp_all add: s_def)
  ultimately show ?thesis
    using TCPSegment_parse_accepts [of "Buffer_of s", OF _ refl, where seg = TCPSegment_default and c = "0xf8ff"]
    unfolding s_def [symmetric] by auto
qed

end
