(* ===== verification/Tcp_Sender.thy ===== *)
theory Tcp_Sender
  imports Byte_Stream Tcp_Segment
begin

text \<open>
  \<open>TCPSender\<close> (\<open>libsponge/tcp_sender.hh\<close>, \<open>tcp_sender.cc\<close>) and the constants of
  \<open>TCPConfig\<close>: cuts the outgoing stream into segments, tracks the outstanding ones in a map
  keyed by absolute sequence number, and retransmits the oldest of them when the timer
  expires. The loop of \<open>fill_window\<close> is a recursive function whose termination is proved:
  every round sends the SYN or takes bytes out of the stream. The number the
  \<open>random_device\<close> supplies for the initial sequence number is an argument.
\<close>

section \<open>TCPConfig\<close>

definition TCPConfig_DEFAULT_CAPACITY :: size_t where
  "TCPConfig_DEFAULT_CAPACITY = 64000"

definition TCPConfig_MAX_PAYLOAD_SIZE :: size_t where
  "TCPConfig_MAX_PAYLOAD_SIZE = 1000"

definition TCPConfig_TIMEOUT_DFLT :: nat where
  "TCPConfig_TIMEOUT_DFLT = 1000"

definition TCPConfig_MAX_RETX_ATTEMPTS :: nat where
  "TCPConfig_MAX_RETX_ATTEMPTS = 8"

record TCPConfig =
  cfg_rt_timeout :: nat
  cfg_recv_capacity :: size_t
  cfg_send_capacity :: size_t
  cfg_fixed_isn :: "WrappingInt32 option"

definition TCPConfig_default :: TCPConfig where
  "TCPConfig_default =
     \<lparr>cfg_rt_timeout = TCPConfig_TIMEOUT_DFLT, cfg_recv_capacity = TCPConfig_DEFAULT_CAPACITY,
      cfg_send_capacity = TCPConfig_DEFAULT_CAPACITY, cfg_fixed_isn = None\<rparr>"

section \<open>The outstanding segments\<close>

text \<open>A \<open>std::map\<close> as the list of its entries in key order; \<open>insert\<close> keeps an old entry.\<close>

type_synonym segment_map = "(size_t \<times> TCPSegment) list"

fun segment_map_insert :: "size_t \<Rightarrow> TCPSegment \<Rightarrow> segment_map \<Rightarrow> segment_map" where
  "segment_map_insert k v [] = [(k, v)]"
| "segment_map_insert k v ((k', v') # l) =
     (if k < k' then (k, v) # (k', v') # l
      else if k = k' then (k', v') # l
      else (k', v') # segment_map_insert k v l)"

section \<open>The class\<close>

record TCPSender =
  sn_isn :: WrappingInt32
  sn_segments_out :: "TCPSegment list"
  sn_initial_retransmission_timeout :: nat
  sn_stream :: ByteStream
  sn_next_seqno :: size_t
  sn_retransmission_timeout :: nat
  sn_retransmission_timecount :: nat
  sn_consecutive_retransmissions :: nat
  sn_segments_outgoing :: segment_map
  sn_outgoing_bytes :: size_t
  sn_syn :: bool
  sn_fin :: bool
  sn_win_size :: size_t

definition TCPSender_new :: "size_t \<Rightarrow> nat \<Rightarrow> WrappingInt32 option \<Rightarrow> 32 word \<Rightarrow> TCPSender" where
  "TCPSender_new capacity retx_timeout fixed_isn random_device =
     \<lparr>sn_isn = (case fixed_isn of Some i \<Rightarrow> i | None \<Rightarrow> WrappingInt32 random_device),
      sn_segments_out = [], sn_initial_retransmission_timeout = retx_timeout,
      sn_stream = ByteStream_new capacity, sn_next_seqno = 0, sn_retransmission_timeout = 0,
      sn_retransmission_timecount = 0, sn_consecutive_retransmissions = 0,
      sn_segments_outgoing = [], sn_outgoing_bytes = 0, sn_syn = False, sn_fin = False, sn_win_size = 1\<rparr>"

definition TCPSender_next_seqno_absolute :: "TCPSender \<Rightarrow> size_t" where
  "TCPSender_next_seqno_absolute sn = sn_next_seqno sn"

definition TCPSender_next_seqno :: "TCPSender \<Rightarrow> WrappingInt32" where
  "TCPSender_next_seqno sn = wrap (sn_next_seqno sn) (sn_isn sn)"

definition TCPSender_bytes_in_flight :: "TCPSender \<Rightarrow> size_t" where
  "TCPSender_bytes_in_flight sn = sn_outgoing_bytes sn"

definition TCPSender_consecutive_retransmissions :: "TCPSender \<Rightarrow> nat" where
  "TCPSender_consecutive_retransmissions sn = sn_consecutive_retransmissions sn"

text \<open>One round of the loop of \<open>fill_window\<close>, first half: the segment it makes.\<close>

definition TCPSender_make_segment :: "size_t \<Rightarrow> TCPSender \<Rightarrow> TCPSender \<times> TCPSegment" where
  "TCPSender_make_segment win_size sn =
     (let header = TCPHeader_default\<lparr>th_syn := \<not> sn_syn sn\<rparr>;
          sn = sn\<lparr>sn_syn := True\<rparr>;
          header = header\<lparr>th_seqno := TCPSender_next_seqno sn\<rparr>;
          payload_size = min TCPConfig_MAX_PAYLOAD_SIZE
            (sub64 (sub64 win_size (sn_outgoing_bytes sn)) (if th_syn header then 1 else 0));
          (stream, payload) = ByteStream_read (sn_stream sn) payload_size;
          sn = sn\<lparr>sn_stream := stream\<rparr>;
          fin = (\<not> sn_fin sn \<and> ByteStream_eof (sn_stream sn) \<and>
            add64 (length payload) (sn_outgoing_bytes sn) < win_size);
          sn = (if fin then sn\<lparr>sn_fin := True\<rparr> else sn)
      in (sn, \<lparr>seg_header = header\<lparr>th_fin := fin\<rparr>, seg_payload = Buffer_of payload\<rparr>))"

text \<open>Second half: sending and tracking it.\<close>

definition TCPSender_send_segment :: "TCPSender \<Rightarrow> TCPSegment \<Rightarrow> TCPSender" where
  "TCPSender_send_segment sn seg =
     (let sn = (if sn_segments_outgoing sn = []
                then sn\<lparr>sn_retransmission_timeout := sn_initial_retransmission_timeout sn,
                        sn_retransmission_timecount := 0\<rparr>
                else sn)
      in sn\<lparr>sn_segments_out := sn_segments_out sn @ [seg],
            sn_outgoing_bytes := add64 (sn_outgoing_bytes sn) (TCPSegment_length_in_sequence_space seg),
            sn_segments_outgoing := segment_map_insert (sn_next_seqno sn) seg (sn_segments_outgoing sn),
            sn_next_seqno := add64 (sn_next_seqno sn) (TCPSegment_length_in_sequence_space seg)\<rparr>)"

lemma make_segment_fields [simp]:
  "sn_segments_outgoing (fst (TCPSender_make_segment w sn)) = sn_segments_outgoing sn"
  "sn_outgoing_bytes (fst (TCPSender_make_segment w sn)) = sn_outgoing_bytes sn"
  "sn_next_seqno (fst (TCPSender_make_segment w sn)) = sn_next_seqno sn"
  "sn_isn (fst (TCPSender_make_segment w sn)) = sn_isn sn"
  "sn_win_size (fst (TCPSender_make_segment w sn)) = sn_win_size sn"
  "sn_segments_out (fst (TCPSender_make_segment w sn)) = sn_segments_out sn"
  "sn_syn (fst (TCPSender_make_segment w sn)) = True"
  by (simp_all add: TCPSender_make_segment_def Let_def case_prod_beta)

lemma send_segment_fields [simp]:
  "sn_stream (TCPSender_send_segment sn seg) = sn_stream sn"
  "sn_syn (TCPSender_send_segment sn seg) = sn_syn sn"
  "sn_fin (TCPSender_send_segment sn seg) = sn_fin sn"
  "sn_isn (TCPSender_send_segment sn seg) = sn_isn sn"
  "sn_win_size (TCPSender_send_segment sn seg) = sn_win_size sn"
  "sn_segments_out (TCPSender_send_segment sn seg) = sn_segments_out sn @ [seg]"
  "sn_segments_outgoing (TCPSender_send_segment sn seg) =
     segment_map_insert (sn_next_seqno sn) seg (sn_segments_outgoing sn)"
  "sn_outgoing_bytes (TCPSender_send_segment sn seg) =
     add64 (sn_outgoing_bytes sn) (TCPSegment_length_in_sequence_space seg)"
  "sn_next_seqno (TCPSender_send_segment sn seg) =
     add64 (sn_next_seqno sn) (TCPSegment_length_in_sequence_space seg)"
  by (simp_all add: TCPSender_send_segment_def Let_def)

definition payload_room :: "size_t \<Rightarrow> TCPSender \<Rightarrow> size_t" where
  "payload_room w sn = min TCPConfig_MAX_PAYLOAD_SIZE
     (sub64 (sub64 w (sn_outgoing_bytes sn)) (if sn_syn sn then 0 else 1))"

lemma make_segment_parts:
  "th_syn (seg_header (snd (TCPSender_make_segment w sn))) = (\<not> sn_syn sn)"
  "th_seqno (seg_header (snd (TCPSender_make_segment w sn))) = TCPSender_next_seqno sn"
  "seg_payload (snd (TCPSender_make_segment w sn)) = Buffer_of (take (payload_room w sn) (bs_buff (sn_stream sn)))"
  "sn_stream (fst (TCPSender_make_segment w sn)) = fst (ByteStream_read (sn_stream sn) (payload_room w sn))"
  "sn_fin (fst (TCPSender_make_segment w sn)) = (sn_fin sn \<or> th_fin (seg_header (snd (TCPSender_make_segment w sn))))"
  "th_fin (seg_header (snd (TCPSender_make_segment w sn))) =
     (\<not> sn_fin sn \<and> bs_isInputEnd (sn_stream sn) \<and> drop (payload_room w sn) (bs_buff (sn_stream sn)) = [] \<and>
      add64 (length (take (payload_room w sn) (bs_buff (sn_stream sn)))) (sn_outgoing_bytes sn) < w)"
proof -
  show "sn_fin (fst (TCPSender_make_segment w sn)) =
      (sn_fin sn \<or> th_fin (seg_header (snd (TCPSender_make_segment w sn))))"
    by (auto simp: TCPSender_make_segment_def Let_def case_prod_beta
        simp del: ByteStream_read_fields ByteStream_read_data)
qed (simp_all add: TCPSender_make_segment_def Let_def case_prod_beta payload_room_def
      TCPSender_next_seqno_def ByteStream_accessors)

lemma length_in_sequence_space_0:
  "TCPSegment_length_in_sequence_space seg \<noteq> 0 \<Longrightarrow>
   Buffer_str (seg_payload seg) \<noteq> [] \<or> th_syn (seg_header seg) \<or> th_fin (seg_header seg)"
  by (cases "th_syn (seg_header seg)"; cases "th_fin (seg_header seg)") (auto simp: TCPSegment_length_in_sequence_space_def)

lemma make_segment_progress:
  assumes "TCPSender_make_segment w sn = (sn', seg)" and "TCPSegment_length_in_sequence_space seg \<noteq> 0"
    and "\<not> th_fin (seg_header seg)"
  shows "length (bs_buff (sn_stream sn')) + (if sn_syn sn' then 0 else 1)
    < length (bs_buff (sn_stream sn)) + (if sn_syn sn then 0 else (1::nat))"
  using length_in_sequence_space_0 [OF assms(2)] assms(3) make_segment_parts [of w sn]
    make_segment_fields(7) [of w sn] unfolding assms(1) fst_conv snd_conv by auto

function TCPSender_fill_loop :: "size_t \<Rightarrow> TCPSender \<Rightarrow> TCPSender" where
  "TCPSender_fill_loop win_size sn =
     (if win_size > sn_outgoing_bytes sn then
        let (sn, seg) = TCPSender_make_segment win_size sn
        in if TCPSegment_length_in_sequence_space seg = 0 then sn
           else
             let sn = TCPSender_send_segment sn seg
             in if th_fin (seg_header seg) then sn else TCPSender_fill_loop win_size sn
      else sn)"
  by pat_completeness auto
termination
proof (relation "measure (\<lambda>(w, sn). length (bs_buff (sn_stream sn)) + (if sn_syn sn then 0 else 1))")
  fix w sn x sn1 seg sn2
  assume a: "w > sn_outgoing_bytes sn" "x = TCPSender_make_segment w sn" "(sn1, seg) = x"
    "TCPSegment_length_in_sequence_space seg \<noteq> 0" "sn2 = TCPSender_send_segment sn1 seg"
    "\<not> th_fin (seg_header seg)"
  show "((w, sn2), w, sn) \<in> measure (\<lambda>(w, sn). length (bs_buff (sn_stream sn)) + (if sn_syn sn then 0 else 1))"
    using make_segment_progress [of w sn sn1 seg] a by simp
qed simp

declare TCPSender_fill_loop.simps [simp del]

definition TCPSender_fill_window :: "TCPSender \<Rightarrow> TCPSender" where
  "TCPSender_fill_window sn =
     (let win_size = (if sn_win_size sn \<noteq> 0 then sn_win_size sn else 1) in TCPSender_fill_loop win_size sn)"

text \<open>The loop of \<open>ack_received\<close>: erase from the front what is acknowledged in full.\<close>

fun TCPSender_ack_loop :: "segment_map \<Rightarrow> size_t \<Rightarrow> TCPSender \<Rightarrow> TCPSender" where
  "TCPSender_ack_loop [] absolute_seqno sn = sn\<lparr>sn_segments_outgoing := []\<rparr>"
| "TCPSender_ack_loop ((k, seg) # l) absolute_seqno sn =
     (if add64 k (TCPSegment_length_in_sequence_space seg) \<le> absolute_seqno then
        TCPSender_ack_loop l absolute_seqno
          (sn\<lparr>sn_outgoing_bytes := sub64 (sn_outgoing_bytes sn) (TCPSegment_length_in_sequence_space seg),
              sn_retransmission_timeout := sn_initial_retransmission_timeout sn,
              sn_retransmission_timecount := 0\<rparr>)
      else sn\<lparr>sn_segments_outgoing := (k, seg) # l\<rparr>)"

definition TCPSender_ack_received :: "TCPSender \<Rightarrow> WrappingInt32 \<Rightarrow> 16 word \<Rightarrow> TCPSender" where
  "TCPSender_ack_received sn ackno window_size =
     (let absolute_seqno = unwrap ackno (sn_isn sn) (sn_next_seqno sn)
      in if absolute_seqno > sn_next_seqno sn then sn
         else
           let sn = TCPSender_ack_loop (sn_segments_outgoing sn) absolute_seqno sn;
               sn = sn\<lparr>sn_win_size := unat window_size, sn_consecutive_retransmissions := 0\<rparr>
           in TCPSender_fill_window sn)"

definition TCPSender_tick :: "TCPSender \<Rightarrow> size_t \<Rightarrow> TCPSender" where
  "TCPSender_tick sn ms_since_last_tick =
     (let sn = sn\<lparr>sn_retransmission_timecount := trunc32 (sn_retransmission_timecount sn + ms_since_last_tick)\<rparr>
      in if sn_retransmission_timecount sn \<ge> sn_retransmission_timeout sn
      then case sn_segments_outgoing sn of
          [] \<Rightarrow> sn
        | (k, seg) # _ \<Rightarrow>
            let sn = (if sn_win_size sn > 0
                      then sn\<lparr>sn_retransmission_timeout := trunc32 (sn_retransmission_timeout sn * 2)\<rparr> else sn)
            in sn\<lparr>sn_segments_out := sn_segments_out sn @ [seg],
                  sn_consecutive_retransmissions := trunc32 (sn_consecutive_retransmissions sn + 1),
                  sn_retransmission_timecount := 0\<rparr>
      else sn)"

definition TCPSender_send_empty_segment :: "TCPSender \<Rightarrow> TCPSender" where
  "TCPSender_send_empty_segment sn =
     sn\<lparr>sn_segments_out := sn_segments_out sn @
        [\<lparr>seg_header = TCPHeader_default\<lparr>th_seqno := TCPSender_next_seqno sn\<rparr>, seg_payload = Buffer_empty\<rparr>]\<rparr>"

end
