(* ===== verification/Stream_Reassembler.thy ===== *)
theory Stream_Reassembler
  imports Byte_Stream
begin

text \<open>
  \<open>StreamReassembler\<close> (\<open>libsponge/stream_reassembler.hh\<close>, \<open>stream_reassembler.cc\<close>):
  substrings of a byte stream, out of order and overlapping, go in; the in-order stream
  comes out. The list of stored substrings is modelled as it is, with the sentinel at its
  end, and so are the two loops over it. The abstract specification is a partial map from
  stream positions to bytes; the locale \<open>fragment_store\<close> says what the two loops do to it.
\<close>

section \<open>The class\<close>

type_synonym fragments = "(size_t \<times> byte list) list"

record StreamReassembler =
  sr_unassembledBuffer :: fragments
  sr_output :: ByteStream
  sr_capacity :: size_t
  sr_posEOF :: size_t
  sr_unassembledBytes :: size_t

definition StreamReassembler_new :: "size_t \<Rightarrow> StreamReassembler" where
  "StreamReassembler_new capacity =
     \<lparr>sr_unassembledBuffer = [(ULLONG_MAX, [])], sr_output = ByteStream_new capacity,
      sr_capacity = capacity, sr_posEOF = ULLONG_MAX, sr_unassembledBytes = 0\<rparr>"

text \<open>
  The loop of \<open>push_unassembledString\<close> over the list: \<open>pos\<close> is its variable, the result is
  the list after the insertions before the iterator, and the number of bytes inserted.
\<close>

fun push_unassembledString_loop ::
  "byte list \<Rightarrow> size_t \<Rightarrow> size_t \<Rightarrow> fragments \<Rightarrow> (fragments \<times> size_t) res" where
  "push_unassembledString_loop data index pos [] = Inr ([], 0)"
| "push_unassembledString_loop data index pos ((f, s) # rest) =
     (if pos \<ge> add64 index (length data) then Inr ((f, s) # rest, 0)
      else if index \<le> f then
        let pos = (if pos < index then index else pos)
        in if f < pos
           then bindR (push_unassembledString_loop data index pos rest) (\<lambda>(r, n). Inr ((f, s) # r, n))
           else bindR (substr data (sub64 pos index) (sub64 f pos)) (\<lambda>temp.
             bindR (push_unassembledString_loop data index (add64 f (length s)) rest) (\<lambda>(r, n).
               if length temp \<noteq> 0 then Inr ((pos, temp) # (f, s) # r, add64 (length temp) n)
               else Inr ((f, s) # r, n)))
      else bindR (push_unassembledString_loop data index (add64 f (length s)) rest)
        (\<lambda>(r, n). Inr ((f, s) # r, n)))"

definition push_unassembledString ::
  "fragments \<Rightarrow> byte list \<Rightarrow> size_t \<Rightarrow> (fragments \<times> size_t) res" where
  "push_unassembledString l data index = push_unassembledString_loop data index index l"

text \<open>The sentinel ends the loop, so that it never runs off the list.\<close>

fun pop_unassembledString :: "fragments \<Rightarrow> size_t \<Rightarrow> fragments \<times> byte list" where
  "pop_unassembledString [] firstUnassembled = ([], [])"
| "pop_unassembledString ((f, s) # rest) firstUnassembled =
     (if f < ULLONG_MAX then
        if f = firstUnassembled then
          let (l, temp) = pop_unassembledString rest (add64 firstUnassembled (length s))
          in (l, s @ temp)
        else ((f, s) # rest, [])
      else ((f, s) # rest, []))"

definition StreamReassembler_push_substring ::
  "StreamReassembler \<Rightarrow> byte list \<Rightarrow> size_t \<Rightarrow> bool \<Rightarrow> StreamReassembler res" where
  "StreamReassembler_push_substring r data index eof =
     (let r = (if eof then r\<lparr>sr_posEOF := add64 index (length data)\<rparr> else r);
          firstUnread = ByteStream_bytes_read (sr_output r);
          firstUnassembled = add64 firstUnread (ByteStream_buffer_size (sr_output r));
          firstUnacceptable = min (add64 firstUnread (sr_capacity r)) (sr_posEOF r);
          finish = (\<lambda>r. if ByteStream_bytes_written (sr_output r) = sr_posEOF r
                        then r\<lparr>sr_output := ByteStream_end_input (sr_output r)\<rparr> else r)
      in if length data \<noteq> 0 then
           if add64 index (length data) < firstUnassembled \<or> index \<ge> firstUnacceptable \<or> index > sr_posEOF r
           then Inr r
           else
             let startPos = max index firstUnassembled
             in bindR (substr data (sub64 startPos index) (sub64 firstUnacceptable startPos)) (\<lambda>newString.
                bindR (push_unassembledString (sr_unassembledBuffer r) newString startPos) (\<lambda>(l, n).
                  let r = r\<lparr>sr_unassembledBytes := add64 (sr_unassembledBytes r) n\<rparr>;
                      (l, temp) = pop_unassembledString l firstUnassembled;
                      r = r\<lparr>sr_unassembledBuffer := l,
                            sr_unassembledBytes := sub64 (sr_unassembledBytes r) (length temp),
                            sr_output := fst (ByteStream_write (sr_output r) temp)\<rparr>
                  in Inr (finish r)))
         else Inr (finish r))"

definition StreamReassembler_unassembled_bytes :: "StreamReassembler \<Rightarrow> size_t" where
  "StreamReassembler_unassembled_bytes r = sr_unassembledBytes r"

definition StreamReassembler_empty :: "StreamReassembler \<Rightarrow> bool" where
  "StreamReassembler_empty r =
     (if ByteStream_buffer_empty (sr_output r) \<and> StreamReassembler_unassembled_bytes r = 0
      then True else False)"

section \<open>The stored substrings as a partial map\<close>

text \<open>\<open>frag_at l p\<close>: the byte stored for the stream position \<open>p\<close>.\<close>

fun frag_at :: "fragments \<Rightarrow> nat \<Rightarrow> byte option" where
  "frag_at [] p = None"
| "frag_at ((f, s) # l) p = (if f \<le> p \<and> p < f + length s then Some (s ! (p - f)) else frag_at l p)"

text \<open>Between \<open>lo\<close> and \<open>hi\<close>, sorted, disjoint and non-empty.\<close>

fun frags_ok :: "nat \<Rightarrow> nat \<Rightarrow> fragments \<Rightarrow> bool" where
  "frags_ok lo hi [] = True"
| "frags_ok lo hi ((f, s) # l) = (lo \<le> f \<and> s \<noteq> [] \<and> f + length s \<le> hi \<and> frags_ok (f + length s) hi l)"

definition frags_total :: "fragments \<Rightarrow> nat" where
  "frags_total l = sum_list (map (length \<circ> snd) l)"

lemma frags_total_simps [simp]:
  "frags_total [] = 0" "frags_total ((f, s) # l) = length s + frags_total l"
  "frags_total (l @ l') = frags_total l + frags_total l'"
  by (simp_all add: frags_total_def)

lemma frags_ok_mono: "frags_ok lo hi l \<Longrightarrow> lo' \<le> lo \<Longrightarrow> hi \<le> hi' \<Longrightarrow> frags_ok lo' hi' l"
  by (induction lo hi l arbitrary: lo' rule: frags_ok.induct) auto

lemma frags_ok_total: "frags_ok lo hi l \<Longrightarrow> l \<noteq> [] \<Longrightarrow> lo + frags_total l \<le> hi"
proof (induction lo hi l rule: frags_ok.induct)
  case (2 lo hi f s l)
  then show ?case by (cases "l = []") auto
qed simp

lemma frags_ok_total': "frags_ok lo hi l \<Longrightarrow> frags_total l \<le> hi"
  using frags_ok_total [of lo hi l] by (cases "l = []") auto

lemma frag_at_range: "frags_ok lo hi l \<Longrightarrow> frag_at l p = Some b \<Longrightarrow> lo \<le> p \<and> p < hi"
  by (induction lo hi l rule: frags_ok.induct) (auto split: if_splits)

lemma frag_at_below: "frags_ok lo hi l \<Longrightarrow> p < lo \<Longrightarrow> frag_at l p = None"
  using frag_at_range [of lo hi l p] by (cases "frag_at l p") auto

lemma frag_at_append: "frag_at (l @ l') p = (case frag_at l p of None \<Rightarrow> frag_at l' p | Some b \<Rightarrow> Some b)"
  by (induction l p rule: frag_at.induct) auto

section \<open>The insertion loop\<close>

text \<open>What the loop is to do: bytes already stored win over the new ones.\<close>

definition overlay :: "(nat \<Rightarrow> byte option) \<Rightarrow> byte list \<Rightarrow> nat \<Rightarrow> nat \<Rightarrow> nat \<Rightarrow> byte option" where
  "overlay m data index pos p =
     (case m p of Some b \<Rightarrow> Some b
      | None \<Rightarrow> if index \<le> p \<and> pos \<le> p \<and> p < index + length data then Some (data ! (p - index)) else None)"

lemma push_loop_gap:
  assumes "index \<le> f" and "pos < index + length data" and "index + length data < ULLONG_MAX" and "f \<le> ULLONG_MAX"
    and "max pos index \<le> f" and "temp = take (f - max pos index) (drop (max pos index - index) data)"
  shows "push_unassembledString_loop data index pos ((f, s) # rest) =
       bindR (push_unassembledString_loop data index (add64 f (length s)) rest) (\<lambda>(r, n).
         if length temp \<noteq> 0 then Inr ((max pos index, temp) # (f, s) # r, add64 (length temp) n)
         else Inr ((f, s) # r, n))"
proof -
  define m where "m = max pos index"
  have m: "(if pos < index then index else pos) = m" "index \<le> m" "m - index \<le> length data" "m \<le> f"
    "temp = take (f - m) (drop (m - index) data)"
    using assms(2,5,6) by (auto simp: m_def)
  have "sub64 f m = f - m" "add64 index (length data) = index + length data" "sub64 m index = m - index"
    using assms m by (simp_all add: size_simps)
  then have "substr data (sub64 m index) (sub64 f m) = Inr temp" using m by simp
  then show ?thesis
    using assms(1-3) m(4) unfolding m_def [symmetric]
    by (simp add: m(1) Let_def size_simps del: length_0_conv)
qed

lemma push_loop_break:
  "index + length data < ULLONG_MAX \<Longrightarrow> index + length data \<le> pos \<Longrightarrow>
   push_unassembledString_loop data index pos ((f, s) # rest) = Inr ((f, s) # rest, 0)"
  by (simp add: size_simps)

lemma push_loop_skip:
  "index + length data < ULLONG_MAX \<Longrightarrow> pos < index + length data \<Longrightarrow> f < index \<Longrightarrow>
   push_unassembledString_loop data index pos ((f, s) # rest) =
     bindR (push_unassembledString_loop data index (add64 f (length s)) rest) (\<lambda>(r, n). Inr ((f, s) # r, n))"
  by (simp add: size_simps)

declare push_unassembledString_loop.simps(2) [simp del]

lemma frag_at_temp:
  assumes "max pos index \<le> f" and "temp = take (f - max pos index) (drop (max pos index - index) data)"
    and "pos < index + length data"
  shows "(if max pos index \<le> p \<and> p < max pos index + length temp then Some (temp ! (p - max pos index)) else None) =
    (if index \<le> p \<and> pos \<le> p \<and> p < f \<and> p < index + length data then Some (data ! (p - index)) else None)"
  using assms by (auto simp: max_def min_def split: if_splits)

text \<open>A new piece of the data, if any, goes in front of the rest.\<close>

lemma frags_ok_insert:
  assumes "lo \<le> pos" and "pos + length temp \<le> lo'" and "lo' \<le> hi" and "frags_ok lo' hi l"
    and "l' = (if length temp \<noteq> 0 then (pos, temp) # l else l)"
  shows "frags_ok lo hi l' \<and> frags_total l' = length temp + frags_total l \<and>
    frag_at l' p = (if pos \<le> p \<and> p < pos + length temp then Some (temp ! (p - pos)) else frag_at l p)"
  using assms frags_ok_mono [OF assms(4)] by auto

lemma overlay_cons:
  assumes "max pos index \<le> f" and "temp = take (f - max pos index) (drop (max pos index - index) data)"
    and "pos < index + length data" and "index \<le> f" and "\<And>q. q < f + length s \<Longrightarrow> frag_at l q = None"
    and "frag_at r = overlay (frag_at l) data index (f + length s)"
  shows "(if max pos index \<le> p \<and> p < max pos index + length temp then Some (temp ! (p - max pos index))
      else frag_at ((f, s) # r) p) = overlay (frag_at ((f, s) # l)) data index pos p"
proof (cases "p < f")
  case True
  then have "frag_at l p = None" "frag_at r p = None" using assms(5) [of p] by (simp_all add: assms(6) overlay_def)
  then show ?thesis using True frag_at_temp [OF assms(1-3), of p] by (auto simp: overlay_def split: if_splits)
next
  case False
  moreover have "\<not> p < max pos index + length temp" using False assms(1,2) by auto
  ultimately show ?thesis using assms(1,4) by (auto simp: assms(6) overlay_def split: option.splits)
qed

lemma push_loop_ok:
  assumes "frags_ok lo hi l" and "index + length data \<le> hi" and "hi < ULLONG_MAX"
    and "max pos index = max lo index"
  shows "\<exists>l' n. push_unassembledString_loop data index pos (l @ [(ULLONG_MAX, [])])
      = Inr (l' @ [(ULLONG_MAX, [])], n) \<and> frags_ok lo hi l' \<and> frags_total l' = frags_total l + n \<and>
    frag_at l' = overlay (frag_at l) data index pos"
  using assms
proof (induction l arbitrary: lo pos)
  case Nil
  let ?m = "max pos index"
  show ?case
  proof (cases "pos \<ge> index + length data")
    case True
    then show ?thesis using Nil
      by (auto simp: push_loop_break overlay_def fun_eq_iff intro!: exI [of _ "[]"])
  next
    case False
    define temp where "temp = take (ULLONG_MAX - ?m) (drop (?m - index) data)"
    let ?l = "if length temp \<noteq> 0 then [(?m, temp)] else []"
    have len: "?m + length temp \<le> hi" using False Nil.prems by (auto simp: temp_def max_def)
    have "push_unassembledString_loop data index pos [(ULLONG_MAX, [])]
        = Inr (?l @ [(ULLONG_MAX, [])], length temp)"
      by (subst push_loop_gap [OF _ _ _ _ _ temp_def]) (use False Nil.prems len in simp_all)
    moreover have ok: "frags_ok lo hi ?l" "frags_total ?l = length temp"
      "frag_at ?l p = (if ?m \<le> p \<and> p < ?m + length temp then Some (temp ! (p - ?m)) else None)" for p
      using frags_ok_insert [of lo ?m temp hi hi "[]" ?l] len Nil.prems(4) by simp_all
    moreover have "frag_at ?l = overlay (frag_at []) data index pos"
    proof
      show "frag_at ?l p = overlay (frag_at []) data index pos p" for p
        using frag_at_temp [OF _ temp_def, of p] ok(3) [of p] False Nil.prems(2,3) by (auto simp: overlay_def)
    qed
    ultimately show ?thesis by (intro exI [of _ ?l] exI [of _ "length temp"]) (simp del: frag_at.simps)
  qed
next
  case (Cons x l)
  obtain f s where x: "x = (f, s)" by fastforce
  let ?m = "max pos index"
  have f: "lo \<le> f" "s \<noteq> []" "f + length s \<le> hi" "frags_ok (f + length s) hi l"
    using Cons.prems(1) x by simp_all
  have a: "add64 f (length s) = f + length s" using f(3) Cons.prems(3) by (simp add: add64_eq)
  obtain r n where r: "push_unassembledString_loop data index (f + length s) (l @ [(ULLONG_MAX, [])])
      = Inr (r @ [(ULLONG_MAX, [])], n)" "frags_ok (f + length s) hi r" "frags_total r = frags_total l + n"
    "frag_at r = overlay (frag_at l) data index (f + length s)"
    using Cons.IH [OF f(4) Cons.prems(2,3), of "f + length s"] by auto
  have none: "frag_at l q = None" if "q < f + length s" for q using frag_at_below [OF f(4) that] .
  consider "pos \<ge> index + length data" | "pos < index + length data" "f < index"
    | "pos < index + length data" "index \<le> f" by linarith
  then show ?case
  proof cases
    case 1
    then show ?thesis using Cons.prems x
      by (intro exI [of _ "x # l"] exI [of _ 0]) (auto simp: push_loop_break overlay_def fun_eq_iff split: option.splits)
  next
    case 2
    then have "push_unassembledString_loop data index pos ((x # l) @ [(ULLONG_MAX, [])])
        = Inr ((x # r) @ [(ULLONG_MAX, [])], n)"
      using x r(1) a Cons.prems(2,3) by (simp add: push_loop_skip)
    moreover have "frag_at (x # r) = overlay (frag_at (x # l)) data index pos"
    proof
      show "frag_at (x # r) p = overlay (frag_at (x # l)) data index pos p" for p
        using 2 x r(4) Cons.prems(4) f(1) none [of p]
        by (auto simp: overlay_def max_def split: option.splits if_splits)
    qed
    ultimately show ?thesis
      using x f r by (intro exI [of _ "x # r"] exI [of _ n]) (simp del: frag_at.simps)
  next
    case 3
    define temp where "temp = take (f - ?m) (drop (?m - index) data)"
    have m: "?m \<le> f" using 3 f(1) Cons.prems(4) by simp
    let ?l = "if length temp \<noteq> 0 then (?m, temp) # x # r else x # r"
    have "frags_ok lo hi ?l \<and> frags_total ?l = length temp + frags_total (x # r) \<and>
        frag_at ?l p = (if ?m \<le> p \<and> p < ?m + length temp then Some (temp ! (p - ?m)) else frag_at (x # r) p)" for p
      using m f r x Cons.prems(4) by (intro frags_ok_insert [of lo ?m temp f hi]) (auto simp: temp_def)
    then have ok: "frags_ok lo hi ?l" "frags_total ?l = length temp + frags_total (x # r)"
      "frag_at ?l = overlay (frag_at (x # l)) data index pos"
      using overlay_cons [OF m temp_def 3 none r(4)] unfolding x by (blast, blast, intro ext, metis)
    have "length temp + n < SIZE_MOD" using frags_ok_total' [OF ok(1)] ok(2) r(3) x Cons.prems(3) by simp
    then have "push_unassembledString_loop data index pos ((x # l) @ [(ULLONG_MAX, [])])
        = Inr (?l @ [(ULLONG_MAX, [])], length temp + n)"
      using 3 m x r(1) a f(3) Cons.prems(2,3) push_loop_gap [OF _ _ _ _ m temp_def, of s "l @ [(ULLONG_MAX, [])]"]
      by (simp add: add64_eq)
    then show ?thesis using ok r(3) x
      by (intro exI [of _ ?l] exI [of _ "length temp + n"]) (simp del: frag_at.simps)
  qed
qed

section \<open>The removal loop\<close>

text \<open>\<open>is_run m n t\<close>: from position \<open>n\<close> on, exactly the bytes \<open>t\<close> are known without a gap.\<close>

definition is_run :: "(nat \<Rightarrow> byte option) \<Rightarrow> nat \<Rightarrow> byte list \<Rightarrow> bool" where
  "is_run m n t \<longleftrightarrow> (\<forall>k < length t. m (n + k) = Some (t ! k)) \<and> m (n + length t) = None"

primrec run_from :: "(nat \<Rightarrow> byte option) \<Rightarrow> nat \<Rightarrow> nat \<Rightarrow> byte list" where
  "run_from m n 0 = []"
| "run_from m n (Suc k) = (case m n of None \<Rightarrow> [] | Some b \<Rightarrow> b # run_from m (Suc n) k)"

lemma is_run_Cons: "is_run m n (b # t) \<longleftrightarrow> m n = Some b \<and> is_run m (Suc n) t"
  unfolding is_run_def by (auto simp: less_Suc_eq_0_disj)

lemma run_from_eq: "is_run m n t \<Longrightarrow> length t \<le> k \<Longrightarrow> run_from m n k = t"
proof (induction t arbitrary: n k)
  case Nil
  then show ?case by (cases k) (auto simp: is_run_def)
next
  case (Cons b t)
  then obtain k' where "k = Suc k'" by (cases k) auto
  then show ?case using Cons by (simp add: is_run_Cons)
qed

lemma is_run_append:
  assumes "\<And>k. k < length s \<Longrightarrow> m (n + k) = Some (s ! k)" and "is_run m (n + length s) t"
  shows "is_run m n (s @ t)"
proof -
  have "m (n + k) = Some ((s @ t) ! k)" if "k < length s + length t" for k
  proof (cases "k < length s")
    case False
    then obtain j where "k = length s + j" using le_Suc_ex not_less by blast
    then show ?thesis using assms(2) that by (simp add: is_run_def nth_append add.assoc)
  qed (simp add: assms(1) nth_append)
  then show ?thesis using assms(2) by (simp add: is_run_def add.assoc)
qed

lemma pop_ok:
  assumes "frags_ok n hi l" and "hi < ULLONG_MAX" and "n \<le> hi"
  shows "\<exists>l' t. pop_unassembledString (l @ [(ULLONG_MAX, [])]) n = (l' @ [(ULLONG_MAX, [])], t) \<and>
    frags_ok (Suc (n + length t)) hi l' \<and> n + length t \<le> hi \<and> is_run (frag_at l) n t \<and>
    frags_total l = length t + frags_total l' \<and>
    frag_at l' = (\<lambda>p. if p < n + length t then None else frag_at l p)"
  using assms
proof (induction l arbitrary: n)
  case Nil
  then show ?case by (intro exI [of _ "[]"]) (auto simp: is_run_def)
next
  case (Cons x l)
  obtain f s where x: "x = (f, s)" by fastforce
  have f: "n \<le> f" "s \<noteq> []" "f + length s \<le> hi" "frags_ok (f + length s) hi l" using Cons.prems(1) x by simp_all
  have none: "frag_at l q = None" if "q < f + length s" for q using frag_at_below [OF f(4) that] .
  show ?case
  proof (cases "f = n")
    case True
    obtain l' t where t: "pop_unassembledString (l @ [(ULLONG_MAX, [])]) (n + length s) = (l' @ [(ULLONG_MAX, [])], t)"
      "frags_ok (Suc (n + length s + length t)) hi l'" "n + length s + length t \<le> hi"
      "is_run (frag_at l) (n + length s) t" "frags_total l = length t + frags_total l'"
      "frag_at l' = (\<lambda>p. if p < n + length s + length t then None else frag_at l p)"
      using Cons.IH [of "n + length s"] f True Cons.prems(2) by auto
    have "is_run (frag_at (x # l)) n (s @ t)"
    proof (rule is_run_append)
      show "is_run (frag_at (x # l)) (n + length s) t" using t(4) x True by (simp add: is_run_def)
    qed (simp add: x True)
    moreover have "frag_at l' = (\<lambda>p. if p < n + length (s @ t) then None else frag_at (x # l) p)"
      using t(6) x True by (auto simp: fun_eq_iff)
    moreover have "pop_unassembledString ((x # l) @ [(ULLONG_MAX, [])]) n = (l' @ [(ULLONG_MAX, [])], s @ t)"
      using t(1,3) x True Cons.prems(2) by (simp add: add64_eq)
    ultimately show ?thesis using t x by (intro exI [of _ l'] exI [of _ "s @ t"]) (simp add: add.assoc del: frag_at.simps)
  next
    case False
    then have "frag_at (x # l) = (\<lambda>p. if p < n then None else frag_at (x # l) p)"
      using x f none by (auto simp: fun_eq_iff)
    moreover have "is_run (frag_at (x # l)) n []" using x f(1) False none [of n] f(2) by (simp add: is_run_def)
    ultimately show ?thesis using x f False Cons.prems(2,3)
      by (intro exI [of _ "x # l"] exI [of _ "[]"]) (simp del: frag_at.simps)
  qed
qed

section \<open>The contract of a store of substrings\<close>

text \<open>
  What the reassembler relies on: the bytes known lie between two bounds, inserting adds
  the bytes that were not known, and taking removes the run at the lower bound.
\<close>

locale fragment_store =
  fixes inv :: "nat \<Rightarrow> nat \<Rightarrow> 's \<Rightarrow> bool"
    and known :: "'s \<Rightarrow> nat \<Rightarrow> byte option"
    and total :: "'s \<Rightarrow> nat"
    and insert_at :: "'s \<Rightarrow> byte list \<Rightarrow> nat \<Rightarrow> ('s \<times> nat) res"
    and take_run :: "'s \<Rightarrow> nat \<Rightarrow> 's \<times> byte list"
  assumes known_range: "inv lo hi s \<Longrightarrow> known s p = Some b \<Longrightarrow> lo \<le> p \<and> p < hi"
    and total_bound: "inv lo hi s \<Longrightarrow> total s \<le> hi"
    and inv_mono: "inv lo hi s \<Longrightarrow> lo' \<le> lo \<Longrightarrow> hi \<le> hi' \<Longrightarrow> inv lo' hi' s"
    and inv_limit: "inv lo hi s \<Longrightarrow> (\<And>p b. known s p = Some b \<Longrightarrow> p < hi') \<Longrightarrow> inv lo hi' s"
    and insert_ok: "inv lo hi s \<Longrightarrow> lo \<le> index \<Longrightarrow> index + length data \<le> hi \<Longrightarrow> hi < ULLONG_MAX \<Longrightarrow>
      \<exists>s' n. insert_at s data index = Inr (s', n) \<and> inv lo hi s' \<and> total s' = total s + n \<and>
        known s' = overlay (known s) data index index"
    and take_ok: "inv lo hi s \<Longrightarrow> lo \<le> hi \<Longrightarrow> hi < ULLONG_MAX \<Longrightarrow>
      \<exists>s' t. take_run s lo = (s', t) \<and> inv (Suc (lo + length t)) hi s' \<and> lo + length t \<le> hi \<and>
        is_run (known s) lo t \<and> total s = length t + total s' \<and>
        known s' = (\<lambda>p. if p < lo + length t then None else known s p)"
begin

text \<open>Inserting above a gap and then taking the run: what one push does.\<close>

lemma insert_take:
  assumes "inv (Suc next) hi s" and "next \<le> index" and "index + length data \<le> hi" and "hi < ULLONG_MAX"
  obtains s1 n s2 t where "insert_at s data index = Inr (s1, n)" "take_run s1 next = (s2, t)"
    "inv (Suc (next + length t)) hi s2" "next + length t \<le> hi" "total s + n = length t + total s2"
    "total s + n \<le> hi" "is_run (overlay (known s) data index index) next t"
    "known s2 = (\<lambda>p. if p < next + length t then None else overlay (known s) data index index p)"
proof -
  have "inv next hi s" using inv_mono [OF assms(1)] by simp
  from insert_ok [OF this assms(2-4)] obtain s1 n where 1: "insert_at s data index = Inr (s1, n)"
    "inv next hi s1" "total s1 = total s + n" "known s1 = overlay (known s) data index index" by blast
  have "next \<le> hi" using assms(2,3) by simp
  from take_ok [OF 1(2) this assms(4)] obtain s2 t where 2: "take_run s1 next = (s2, t)"
    "inv (Suc (next + length t)) hi s2" "next + length t \<le> hi" "is_run (known s1) next t"
    "total s1 = length t + total s2" "known s2 = (\<lambda>p. if p < next + length t then None else known s1 p)"
    by blast
  show ?thesis
    using that [OF 1(1) 2(1-3) _ _ _ 2(6) [unfolded 1(4)]] 1(3,4) 2(4,5) total_bound [OF 1(2)] by simp
qed

end

lemma frags_ok_limit:
  "frags_ok lo hi l \<Longrightarrow> (\<And>p b. frag_at l p = Some b \<Longrightarrow> p < hi') \<Longrightarrow> frags_ok lo hi' l"
proof (induction lo hi l rule: frags_ok.induct)
  case (2 lo hi f s l)
  obtain k where k: "length s = Suc k" using "2.prems"(1) by (cases s) auto
  then have "frag_at ((f, s) # l) (f + k) = Some (s ! k)" by simp
  then have "f + length s \<le> hi'" using "2.prems"(2) k by fastforce
  moreover have "frags_ok (f + length s) hi' l"
  proof (rule "2.IH")
    show "frags_ok (f + length s) hi l" using "2.prems"(1) by simp
    fix p b assume b: "frag_at l p = Some b"
    then have "f + length s \<le> p" using frag_at_range [of "f + length s" hi l] "2.prems"(1) by simp
    then show "p < hi'" using "2.prems"(2) [of p b] b by simp
  qed
  ultimately show ?case using "2.prems"(1) by simp
qed simp

text \<open>The list of the class: proper substrings, then the sentinel.\<close>

definition store_inv :: "nat \<Rightarrow> nat \<Rightarrow> fragments \<Rightarrow> bool" where
  "store_inv lo hi l \<longleftrightarrow> l \<noteq> [] \<and> last l = (ULLONG_MAX, []) \<and> frags_ok lo hi (butlast l)"

lemma store_invE:
  assumes "store_inv lo hi L"
  obtains l where "L = l @ [(ULLONG_MAX, [])]" "frags_ok lo hi l"
  using assms append_butlast_last_id [of L] unfolding store_inv_def by metis

lemma store_inv_snoc [simp]: "store_inv lo hi (l @ [(ULLONG_MAX, [])]) = frags_ok lo hi l"
  by (simp add: store_inv_def)

lemma frag_at_sentinel [simp]:
  "frag_at (l @ [(ULLONG_MAX, [])]) p = frag_at l p" "frag_at (l @ [(ULLONG_MAX, [])]) = frag_at l"
  by (auto simp: fun_eq_iff frag_at_append split: option.splits)

interpretation store: fragment_store store_inv frag_at frags_total
  push_unassembledString pop_unassembledString
proof unfold_locales
  fix lo hi s p b assume "store_inv lo hi s" "frag_at s p = Some b"
  then show "lo \<le> p \<and> p < hi" by (auto elim!: store_invE dest: frag_at_range)
next
  fix lo hi s assume "store_inv lo hi s"
  then show "frags_total s \<le> hi" by (auto elim!: store_invE dest: frags_ok_total')
next
  fix lo hi s lo' hi' assume "store_inv lo hi s" "lo' \<le> lo" "hi \<le> hi'"
  then show "store_inv lo' hi' s" by (auto elim!: store_invE intro: frags_ok_mono)
next
  fix lo hi s hi' assume a: "store_inv lo hi s" "\<And>p b. frag_at s p = Some b \<Longrightarrow> p < hi'"
  from a(1) obtain l where l: "s = l @ [(ULLONG_MAX, [])]" "frags_ok lo hi l" by (rule store_invE)
  show "store_inv lo hi' s" using frags_ok_limit [OF l(2)] a(2) l(1) by simp
next
  fix lo hi s index and data :: "byte list"
  assume a: "store_inv lo hi s" "lo \<le> index" "index + length data \<le> hi" "hi < ULLONG_MAX"
  from a(1) obtain l where l: "s = l @ [(ULLONG_MAX, [])]" "frags_ok lo hi l" by (rule store_invE)
  show "\<exists>s' n. push_unassembledString s data index = Inr (s', n) \<and> store_inv lo hi s' \<and>
      frags_total s' = frags_total s + n \<and> frag_at s' = overlay (frag_at s) data index index"
    using push_loop_ok [OF l(2) a(3,4), of index] a(2) l(1) by (auto simp: push_unassembledString_def)
next
  fix lo hi s assume a: "store_inv lo hi s" "lo \<le> hi" "hi < ULLONG_MAX"
  from a(1) obtain l where l: "s = l @ [(ULLONG_MAX, [])]" "frags_ok lo hi l" by (rule store_invE)
  show "\<exists>s' t. pop_unassembledString s lo = (s', t) \<and> store_inv (Suc (lo + length t)) hi s' \<and>
      lo + length t \<le> hi \<and> is_run (frag_at s) lo t \<and> frags_total s = length t + frags_total s' \<and>
      frag_at s' = (\<lambda>p. if p < lo + length t then None else frag_at s p)"
    using pop_ok [OF l(2) a(3,2)] l(1) by (auto cong: if_cong)
qed

end
