(* ===== verification/Reassembly.thy ===== *)
theory Reassembly
  imports Stream_Reassembler
begin

text \<open>
  The abstract specification of the stream reassembler and the proof that
  \<open>StreamReassembler::push_substring\<close> implements it. The specification keeps the partial
  map of the bytes known beyond the assembled prefix and the length of that prefix; a push
  adds the bytes inside the window that were not known and moves the run at the front out.
  On top of it, the reassembler is related to one reference stream.
\<close>

section \<open>The specification\<close>

type_synonym reasm_state = "(nat \<Rightarrow> byte option) \<times> nat"

definition learn :: "nat \<Rightarrow> byte list \<Rightarrow> nat \<Rightarrow> reasm_state \<Rightarrow> nat \<Rightarrow> byte option" where
  "learn limit data index = (\<lambda>(m, nxt) p.
     case m p of Some b \<Rightarrow> Some b
     | None \<Rightarrow> if index \<le> p \<and> nxt \<le> p \<and> p < limit \<and> p < index + length data
              then Some (data ! (p - index)) else None)"

definition spec_push :: "nat \<Rightarrow> byte list \<Rightarrow> nat \<Rightarrow> reasm_state \<Rightarrow> reasm_state \<times> byte list" where
  "spec_push limit data index st =
     (let m = learn limit data index st; nxt = snd st; t = run_from m nxt (limit - nxt)
      in ((\<lambda>p. if p < nxt + length t then None else m p, nxt + length t), t))"

section \<open>The class invariant\<close>

definition sr_next :: "StreamReassembler \<Rightarrow> nat" where
  "sr_next r = bs_totout (sr_output r) + length (bs_buff (sr_output r))"

definition sr_limit :: "StreamReassembler \<Rightarrow> nat" where
  "sr_limit r = min (bs_totout (sr_output r) + sr_capacity r) (sr_posEOF r)"

definition sr_abs :: "StreamReassembler \<Rightarrow> reasm_state" where
  "sr_abs r = (frag_at (sr_unassembledBuffer r), sr_next r)"

definition SR_core :: "StreamReassembler \<Rightarrow> bool" where
  "SR_core r \<longleftrightarrow>
     ByteStream_inv (sr_output r) \<and> bs_capacity (sr_output r) = sr_capacity r \<and>
     bs_totout (sr_output r) + sr_capacity r < ULLONG_MAX \<and>
     sr_next r \<le> sr_limit r \<and> store_inv (Suc (sr_next r)) (sr_limit r) (sr_unassembledBuffer r) \<and>
     sr_unassembledBytes r = frags_total (sr_unassembledBuffer r)"

text \<open>The output is finished exactly when it has all bytes up to the announced end.\<close>

definition SR_inv :: "StreamReassembler \<Rightarrow> bool" where
  "SR_inv r \<longleftrightarrow> SR_core r \<and> bs_isInputEnd (sr_output r) = (sr_next r = sr_posEOF r)"

declare SR_core_def [inv_defs] SR_inv_def [inv_defs]

lemma SR_new_inv: "capacity < ULLONG_MAX \<Longrightarrow> SR_inv (StreamReassembler_new capacity)"
  using ByteStream_new_inv [of capacity]
  by (simp add: SR_inv_def SR_core_def StreamReassembler_new_def sr_next_def sr_limit_def
      ByteStream_new_def store_inv_def)

lemma SR_next_bounds:
  assumes "SR_core r"
  shows "sr_next r < ULLONG_MAX" "sr_limit r < ULLONG_MAX" "bs_totin (sr_output r) = sr_next r"
    "add64 (bs_totout (sr_output r)) (length (bs_buff (sr_output r))) = sr_next r"
    "add64 (bs_totout (sr_output r)) (sr_capacity r) = bs_totout (sr_output r) + sr_capacity r"
  using assms unfolding SR_core_def sr_limit_def sr_next_def
  by (auto simp: ByteStream_inv_def size_simps)

section \<open>One push\<close>

lemma learn_overlay:
  assumes "startPos = max index nxt" and "new = take (limit - startPos) (drop (startPos - index) data)"
    and "startPos \<le> limit" and "startPos - index \<le> length data"
  shows "overlay m new startPos startPos = learn limit data index (m, nxt)"
  using assms unfolding overlay_def learn_def
  by (auto simp: fun_eq_iff max_def split: option.splits)

lemma spec_push_run:
  assumes "is_run (learn limit data index st) (snd st) t" and "snd st + length t \<le> limit"
  shows "spec_push limit data index st =
    ((\<lambda>p. if p < snd st + length t then None else learn limit data index st p, snd st + length t), t)"
proof -
  have "run_from (learn limit data index st) (snd st) (limit - snd st) = t"
    using assms by (intro run_from_eq) auto
  then show ?thesis by (simp add: spec_push_def Let_def)
qed

lemma spec_push_idle:
  assumes "\<And>p b. m p = Some b \<Longrightarrow> nxt < p" and "nxt \<le> limit"
    and "data = [] \<or> index + length data \<le> nxt \<or> limit \<le> index"
  shows "spec_push limit data index (m, nxt) = ((m, nxt), [])"
proof -
  have m: "learn limit data index (m, nxt) = m"
    using assms(3) by (auto simp: learn_def fun_eq_iff split: option.splits)
  have "m nxt = None" using assms(1) by (cases "m nxt") auto
  then have "is_run m nxt []" by (simp add: is_run_def)
  moreover have "(\<lambda>p. if p < nxt then None else m p) = m"
    using assms(1) by (auto simp: fun_eq_iff) (metis not_None_eq order_less_asym)
  ultimately show ?thesis using spec_push_run [of limit data index "(m, nxt)" "[]"] m assms(2) by (simp cong: if_cong)
qed

lemma write_fits:
  assumes "ByteStream_inv s" and "length (bs_buff s) + length t \<le> bs_capacity s"
  shows "bs_buff (fst (ByteStream_write s t)) = bs_buff s @ t"
  using assms by (simp add: ByteStream_write_buff)

text \<open>The last step of a push: \<open>end_input\<close> when everything has been written.\<close>

definition SR_finish :: "StreamReassembler \<Rightarrow> StreamReassembler" where
  "SR_finish r =
     (if ByteStream_bytes_written (sr_output r) = sr_posEOF r
      then r\<lparr>sr_output := ByteStream_end_input (sr_output r)\<rparr> else r)"

lemma SR_finish_fields [simp]:
  "sr_next (SR_finish r) = sr_next r" "sr_limit (SR_finish r) = sr_limit r" "sr_abs (SR_finish r) = sr_abs r"
  "SR_core (SR_finish r) = SR_core r" "sr_posEOF (SR_finish r) = sr_posEOF r" "sr_capacity (SR_finish r) = sr_capacity r"
  "bs_buff (sr_output (SR_finish r)) = bs_buff (sr_output r)"
  "bs_totout (sr_output (SR_finish r)) = bs_totout (sr_output r)"
  "bs_error (sr_output (SR_finish r)) = bs_error (sr_output r)"
  "sr_unassembledBuffer (SR_finish r) = sr_unassembledBuffer r"
  by (simp_all add: SR_finish_def SR_core_def sr_next_def sr_limit_def sr_abs_def) 
     (simp_all add: ByteStream_end_input_def)

lemma SR_finish_inv:
  assumes "SR_core r" and "bs_isInputEnd (sr_output r) \<Longrightarrow> sr_next r = sr_posEOF r"
  shows "SR_inv (SR_finish r)"
proof -
  have "bs_isInputEnd (sr_output (SR_finish r)) = (sr_next r = sr_posEOF r)"
    using SR_next_bounds(3) [OF assms(1)] assms(2)
    by (auto simp: SR_finish_def ByteStream_accessors ByteStream_end_input_def)
  then show ?thesis using assms(1) by (simp add: SR_inv_def)
qed

lemma SR_push_empty:
  assumes "SR_inv r"
  shows "StreamReassembler_push_substring r [] index False = Inr r"
proof -
  have "SR_finish r = r"
    using assms SR_next_bounds(3) [of r]
    by (simp add: SR_finish_def SR_inv_def ByteStream_accessors ByteStream_end_input_def)
  then show ?thesis by (simp add: StreamReassembler_push_substring_def SR_finish_def Let_def)
qed

text \<open>The middle of a push, from the cut of the data to the write.\<close>

lemma SR_store:
  assumes "SR_core r" and "sr_next r \<le> index + length data" and "index < sr_limit r"
    and "startPos = max index (sr_next r)"
    and "new = take (sr_limit r - startPos) (drop (startPos - index) data)"
  obtains l n l' t r' where "push_unassembledString (sr_unassembledBuffer r) new startPos = Inr (l, n)"
    "pop_unassembledString l (sr_next r) = (l', t)"
    "r' = r\<lparr>sr_unassembledBuffer := l',
        sr_unassembledBytes := sub64 (add64 (sr_unassembledBytes r) n) (length t),
        sr_output := fst (ByteStream_write (sr_output r) t)\<rparr>"
    "SR_core r'" "spec_push (sr_limit r) data index (sr_abs r) = (sr_abs r', t)"
    "bs_buff (sr_output r') = bs_buff (sr_output r) @ t" "sr_next r' = sr_next r + length t"
proof -
  let ?N = "sr_next r" and ?L = "sr_limit r"
  have s: "startPos \<le> ?L" "startPos - index \<le> length data" "?N \<le> startPos" "startPos + length new \<le> ?L"
    using assms unfolding SR_core_def by (auto simp: max_def)
  have "store_inv (Suc ?N) ?L (sr_unassembledBuffer r)" using assms(1) by (simp add: SR_core_def)
  from store.insert_take [OF this s(3,4) SR_next_bounds(2) [OF assms(1)]]
  obtain l n l' t where t: "push_unassembledString (sr_unassembledBuffer r) new startPos = Inr (l, n)"
    "pop_unassembledString l ?N = (l', t)" "store_inv (Suc (?N + length t)) ?L l'" "?N + length t \<le> ?L"
    "frags_total (sr_unassembledBuffer r) + n = length t + frags_total l'"
    "frags_total (sr_unassembledBuffer r) + n \<le> ?L"
    "is_run (learn ?L data index (sr_abs r)) ?N t"
    "frag_at l' = (\<lambda>p. if p < ?N + length t then None else learn ?L data index (sr_abs r) p)"
    unfolding learn_overlay [OF assms(4,5) s(1,2)] sr_abs_def [symmetric] by blast
  define r' where "r' = r\<lparr>sr_unassembledBuffer := l',
        sr_unassembledBytes := sub64 (add64 (sr_unassembledBytes r) n) (length t), sr_output := fst (ByteStream_write (sr_output r) t)\<rparr>"
  have fit: "length (bs_buff (sr_output r)) + length t \<le> bs_capacity (sr_output r)"
    using t(4) assms(1) by (simp add: sr_limit_def sr_next_def SR_core_def)
  then have b: "bs_buff (sr_output r') = bs_buff (sr_output r) @ t"
    using assms(1) by (simp add: r'_def write_fits SR_core_def)
  have nx: "sr_next r' = ?N + length t" using b by (simp add: sr_next_def r'_def)
  have lim: "sr_limit r' = ?L" by (simp add: sr_limit_def r'_def)
  have "sub64 (add64 (sr_unassembledBytes r) n) (length t) = frags_total l'"
    using t(5,6) assms(1) SR_next_bounds(2) [OF assms(1)] by (simp add: SR_core_def size_simps)
  then have "SR_core r'" using assms(1) t(3,4) nx lim ByteStream_write_inv
    by (simp add: SR_core_def r'_def)
  moreover have "sr_abs r' = (\<lambda>p. if p < ?N + length t then None else learn ?L data index (sr_abs r) p, ?N + length t)"
    using nx t(8) by (simp add: sr_abs_def r'_def)
  ultimately show ?thesis
    using that [OF t(1,2) r'_def _ _ b nx] spec_push_run [of ?L data index "sr_abs r" t] t(4,7)
    by (simp add: sr_abs_def)
qed

text \<open>Announcing an end that is consistent with what has been received keeps the invariant.\<close>

definition SR_announce :: "StreamReassembler \<Rightarrow> byte list \<Rightarrow> size_t \<Rightarrow> bool \<Rightarrow> StreamReassembler" where
  "SR_announce r data index eof = (if eof then r\<lparr>sr_posEOF := add64 index (length data)\<rparr> else r)"

definition end_consistent :: "StreamReassembler \<Rightarrow> nat \<Rightarrow> bool" where
  "end_consistent r e \<longleftrightarrow> sr_next r \<le> e \<and>
     (\<forall>p b. frag_at (sr_unassembledBuffer r) p = Some b \<longrightarrow> p < e) \<and>
     (bs_isInputEnd (sr_output r) \<longrightarrow> e = sr_posEOF r)"

lemma SR_announce_fields [simp]:
  "sr_output (SR_announce r d i e) = sr_output r" "sr_capacity (SR_announce r d i e) = sr_capacity r"
  "sr_unassembledBuffer (SR_announce r d i e) = sr_unassembledBuffer r"
  "sr_unassembledBytes (SR_announce r d i e) = sr_unassembledBytes r"
  "sr_next (SR_announce r d i e) = sr_next r" "sr_abs (SR_announce r d i e) = sr_abs r"
  by (simp_all add: SR_announce_def sr_next_def sr_abs_def)

lemma SR_announce_core:
  assumes "SR_core r" and "index + length data < SIZE_MOD"
    and "eof \<Longrightarrow> end_consistent r (index + length data)"
  shows "SR_core (SR_announce r data index eof)"
proof (cases eof)
  case True
  let ?r = "SR_announce r data index eof" and ?e = "index + length data"
  have e: "sr_posEOF ?r = ?e" using True assms(2) by (simp add: SR_announce_def add64_eq)
  have c: "sr_next r \<le> ?e" "\<And>p b. frag_at (sr_unassembledBuffer r) p = Some b \<Longrightarrow> p < ?e"
    using assms(3) [OF True] by (auto simp: end_consistent_def)
  have old: "store_inv (Suc (sr_next r)) (sr_limit r) (sr_unassembledBuffer r)" "sr_next r \<le> sr_limit r"
    using assms(1) by (simp_all add: SR_core_def)
  have "p < sr_limit ?r" if "frag_at (sr_unassembledBuffer r) p = Some b" for p b
    using store.known_range [OF old(1) that] c(2) [OF that] e by (simp add: sr_limit_def)
  then have "store_inv (Suc (sr_next r)) (sr_limit ?r) (sr_unassembledBuffer r)"
    by (rule store.inv_limit [OF old(1)])
  moreover have "sr_next r \<le> sr_limit ?r" using c(1) old(2) e by (simp add: sr_limit_def)
  ultimately show ?thesis using assms(1) by (simp add: SR_core_def)
qed (use assms(1) in \<open>simp add: SR_announce_def\<close>)

lemma push_substring_unfold:
  fixes r data index eof
  defines "r0 \<equiv> SR_announce r data index eof"
  assumes "SR_core r0" and "index + length data < SIZE_MOD"
  shows "StreamReassembler_push_substring r data index eof =
    (if length data \<noteq> 0 then
       if index + length data < sr_next r \<or> sr_limit r0 \<le> index then Inr r0
       else
         let startPos = max index (sr_next r);
             new = take (sr_limit r0 - startPos) (drop (startPos - index) data)
         in bindR (push_unassembledString (sr_unassembledBuffer r) new startPos) (\<lambda>(l, n).
              case pop_unassembledString l (sr_next r) of (l', t) \<Rightarrow>
                Inr (SR_finish (r0\<lparr>sr_unassembledBuffer := l',
        sr_unassembledBytes := sub64 (add64 (sr_unassembledBytes r0) n) (length t), sr_output := fst (ByteStream_write (sr_output r0) t)\<rparr>)))
     else Inr (SR_finish r0))"
proof -
  note b = SR_next_bounds [OF assms(2)]
  have eqs: "sr_next r0 = sr_next r" "sr_output r0 = sr_output r" "sr_capacity r0 = sr_capacity r"
    "sr_unassembledBuffer r0 = sr_unassembledBuffer r" by (simp_all add: r0_def)
  have lim: "min (add64 (bs_totout (sr_output r0)) (sr_capacity r0)) (sr_posEOF r0) = sr_limit r0"
    by (simp add: sr_limit_def b(5))
  have gt: "sr_limit r0 \<le> index \<or> sr_posEOF r0 < index \<longleftrightarrow> sr_limit r0 \<le> index"
    by (auto simp: sr_limit_def)
  have sub: "substr data (sub64 (max index (sr_next r)) index) (sub64 (sr_limit r0) (max index (sr_next r)))
      = Inr (take (sr_limit r0 - max index (sr_next r)) (drop (max index (sr_next r) - index) data))"
    if "\<not> index + length data < sr_next r" "\<not> sr_limit r0 \<le> index"
  proof -
    have "max index (sr_next r) \<le> sr_limit r0" using that assms(2) eqs(1) by (simp add: SR_core_def)
    then have "sub64 (max index (sr_next r)) index = max index (sr_next r) - index"
      "sub64 (sr_limit r0) (max index (sr_next r)) = sr_limit r0 - max index (sr_next r)"
      using b(2) by (simp_all add: sub64_eq)
    moreover have "max index (sr_next r) - index \<le> length data" using that(1) by (auto simp: max_def)
    ultimately show ?thesis by simp
  qed
  show ?thesis
    unfolding StreamReassembler_push_substring_def SR_announce_def [symmetric] r0_def [symmetric]
    apply (simp only: Let_def ByteStream_bytes_read_def ByteStream_buffer_size_def b(4) eqs(1) lim gt
        SR_finish_def [symmetric] add64_eq [OF assms(3)])
    apply (intro if_cong refl)
    apply (simp add: sub eqs case_prod_beta)
    done
qed

lemma SR_core_known:
  "SR_core r \<Longrightarrow> frag_at (sr_unassembledBuffer r) p = Some b \<Longrightarrow> sr_next r < p \<and> p < sr_limit r"
  using store.known_range [of "Suc (sr_next r)" "sr_limit r" "sr_unassembledBuffer r" p b]
  by (simp add: SR_core_def Suc_le_eq)

text \<open>\<open>SR_step r r' r0 t\<close>: what a push from \<open>r\<close> via \<open>r0\<close>, the end announced, leads to.\<close>

definition SR_step :: "StreamReassembler \<Rightarrow> StreamReassembler \<Rightarrow> byte list \<Rightarrow> bool" where
  "SR_step r0 r' t \<longleftrightarrow> SR_inv r' \<and>
     bs_buff (sr_output r') = bs_buff (sr_output r0) @ t \<and> bs_totout (sr_output r') = bs_totout (sr_output r0) \<and>
     sr_next r' = sr_next r0 + length t \<and> sr_posEOF r' = sr_posEOF r0 \<and> sr_capacity r' = sr_capacity r0 \<and>
     bs_error (sr_output r') = bs_error (sr_output r0)"

lemma push_substring_step:
  fixes r data index eof
  defines "r0 \<equiv> SR_announce r data index eof"
  assumes "SR_inv r" and fits: "index + length data < SIZE_MOD"
    and cons: "eof \<Longrightarrow> end_consistent r (index + length data)"
  shows "\<exists>r' t. StreamReassembler_push_substring r data index eof = Inr r' \<and> SR_step r0 r' t \<and>
    spec_push (sr_limit r0) data index (sr_abs r) = (sr_abs r', t)"
proof -
  have core: "SR_core r" using assms(2) by (simp add: SR_inv_def)
  have core0: "SR_core r0" unfolding r0_def by (rule SR_announce_core [OF core fits cons])
  have ended: "sr_next r0 = sr_posEOF r0" if "bs_isInputEnd (sr_output r0)"
    using that assms(2) cons fits by (auto simp: r0_def SR_inv_def SR_announce_def add64_eq end_consistent_def)
  note unf = push_substring_unfold [OF core0 [unfolded r0_def] fits, folded r0_def]
  have abs: "sr_abs r = (frag_at (sr_unassembledBuffer r0), sr_next r0)" "sr_next r = sr_next r0"
    "sr_unassembledBuffer r = sr_unassembledBuffer r0" "sr_abs r = sr_abs r0"
    by (simp_all add: r0_def sr_abs_def)
  consider (idle) "data = [] \<or> index + length data < sr_next r0 \<or> sr_limit r0 \<le> index"
    | (go) "length data \<noteq> 0" "sr_next r0 \<le> index + length data" "index < sr_limit r0"
    by (meson length_0_conv not_le)
  then show ?thesis
  proof cases
    case idle
    have "spec_push (sr_limit r0) data index (frag_at (sr_unassembledBuffer r0), sr_next r0)
        = ((frag_at (sr_unassembledBuffer r0), sr_next r0), [])"
      using SR_core_known [OF core0] core0 idle by (intro spec_push_idle) (auto simp: SR_core_def)
    then have sp: "spec_push (sr_limit r0) data index (sr_abs r) = (sr_abs r0, [])"
      unfolding abs(1) by (simp only: sr_abs_def)
    show ?thesis
    proof (cases "data = []")
      case True
      have "SR_inv (SR_finish r0)" using SR_finish_inv [OF core0] ended by blast
      then show ?thesis using sp True unf
        by (intro exI [of _ "SR_finish r0"] exI [of _ "[]"]) (simp add: SR_step_def)
    next
      case False
      have "sr_next r0 \<noteq> sr_posEOF r0 \<or> bs_isInputEnd (sr_output r0)"
      proof (cases eof)
        case True
        then have "sr_posEOF r0 = index + length data" using fits by (simp add: r0_def SR_announce_def add64_eq)
        moreover have "sr_next r0 \<le> bs_totout (sr_output r0) + sr_capacity r0"
          using core0 by (simp add: SR_core_def sr_limit_def)
        ultimately show ?thesis using idle False by (auto simp: sr_limit_def)
      next
        case False
        then show ?thesis using assms(2) by (simp add: r0_def SR_announce_def SR_inv_def)
      qed
      then have "SR_inv r0" using core0 ended by (auto simp: SR_inv_def)
      then show ?thesis using sp False idle unf abs(2)
        by (intro exI [of _ r0] exI [of _ "[]"]) (auto simp: SR_step_def)
    qed
  next
    case go
    obtain l n l' t r' where s: "push_unassembledString (sr_unassembledBuffer r0)
        (take (sr_limit r0 - max index (sr_next r0)) (drop (max index (sr_next r0) - index) data))
        (max index (sr_next r0)) = Inr (l, n)"
      "pop_unassembledString l (sr_next r0) = (l', t)"
      "r' = r0\<lparr>sr_unassembledBuffer := l',
        sr_unassembledBytes := sub64 (add64 (sr_unassembledBytes r0) n) (length t),
          sr_output := fst (ByteStream_write (sr_output r0) t)\<rparr>"
      "SR_core r'" "spec_push (sr_limit r0) data index (sr_abs r0) = (sr_abs r', t)"
      "bs_buff (sr_output r') = bs_buff (sr_output r0) @ t" "sr_next r' = sr_next r0 + length t"
      by (rule SR_store [OF core0 go(2,3) refl refl])
    have "sr_next r' = sr_posEOF r'" if "bs_isInputEnd (sr_output r')"
    proof -
      have "sr_next r0 = sr_posEOF r0" "sr_posEOF r' = sr_posEOF r0" using that s(3) ended by simp_all
      moreover have "sr_next r' \<le> sr_posEOF r'" using s(4) by (simp add: SR_core_def sr_limit_def)
      ultimately show ?thesis using s(7) by simp
    qed
    then have "SR_inv (SR_finish r')" by (rule SR_finish_inv [OF s(4)])
    moreover have "StreamReassembler_push_substring r data index eof = Inr (SR_finish r')"
      unfolding unf abs(2,3) using go by (simp add: Let_def s(1,2) flip: s(3))
    ultimately show ?thesis using s(5-7) unfolding abs(4)
      by (intro exI [of _ "SR_finish r'"] exI [of _ t]) (simp add: SR_step_def, simp add: s(3))
  qed
qed

section \<open>Reassembling one stream\<close>

text \<open>
  \<open>SR_of S r\<close>: everything the reassembler holds comes from the stream \<open>S\<close>, and if it
  knows where the stream ends, it is where \<open>S\<close> ends.
\<close>

definition SR_of :: "byte list \<Rightarrow> StreamReassembler \<Rightarrow> bool" where
  "SR_of S r \<longleftrightarrow> SR_inv r \<and> sr_next r \<le> length S \<and>
     bs_buff (sr_output r) = chunk S (bs_totout (sr_output r)) (length (bs_buff (sr_output r))) \<and>
     (\<forall>p b. frag_at (sr_unassembledBuffer r) p = Some b \<longrightarrow> p < length S \<and> S ! p = b) \<and>
     (sr_posEOF r = ULLONG_MAX \<or> sr_posEOF r = length S)"

lemma SR_of_new: "capacity < ULLONG_MAX \<Longrightarrow> SR_of S (StreamReassembler_new capacity)"
  using SR_new_inv [of capacity]
  by (auto simp: SR_of_def StreamReassembler_new_def sr_next_def ByteStream_new_def)

lemma is_run_stream:
  assumes "is_run m n t" and "\<And>p b. m p = Some b \<Longrightarrow> p < length S \<and> S ! p = b" and "n \<le> length S"
  shows "n + length t \<le> length S \<and> t = chunk S n (length t)"
proof -
  have at: "n + k < length S \<and> S ! (n + k) = t ! k" if "k < length t" for k
    using that assms(1,2) by (simp add: is_run_def)
  have "n + length t \<le> length S"
  proof (cases t rule: rev_cases)
    case (snoc us u)
    then show ?thesis using at [of "length us"] by simp
  qed (use assms(3) in simp)
  then show ?thesis using at by (auto intro!: list_eq_chunk)
qed

lemma spec_push_known:
  "spec_push limit data index st = ((m', n'), t) \<Longrightarrow>
   m' = (\<lambda>p. if p < snd st + length t then None else learn limit data index st p)"
  by (auto simp: spec_push_def Let_def)

lemma is_run_Nil: "is_run m n [] \<longleftrightarrow> m n = None"
  by (simp add: is_run_def)

lemma spec_push_is_run:
  assumes "spec_push limit data index st = ((m', n'), t)" and "n' \<le> limit"
    and "\<And>p. limit \<le> p \<Longrightarrow> learn limit data index st p = None"
  shows "is_run (learn limit data index st) (snd st) t"
proof -
  have run: "is_run m n (run_from m n k) \<or> length (run_from m n k) = k" for m n k
    by (induction k arbitrary: n) (auto simp: is_run_Cons is_run_Nil split: option.splits)
  have pre: "\<forall>j < length (run_from m n k). m (n + j) = Some (run_from m n k ! j)" for m n k
  proof (induction k arbitrary: n)
    case (Suc k)
    show ?case using Suc [of "Suc n"] by (auto simp: less_Suc_eq_0_disj split: option.splits)
  qed simp
  have t: "t = run_from (learn limit data index st) (snd st) (limit - snd st)" "n' = snd st + length t"
    using assms(1) by (auto simp: spec_push_def Let_def)
  show ?thesis
  proof (cases "length t = limit - snd st")
    case True
    then have "learn limit data index st (snd st + length t) = None" using assms(3) by simp
    then show ?thesis using pre t(1) by (auto simp: is_run_def)
  qed (use run t(1) in metis)
qed

lemma SR_of_push:
  assumes "SR_of S r" and "index + length data \<le> length S" and "data = chunk S index (length data)"
    and "eof \<Longrightarrow> index + length data = length S" and "length S + sr_capacity r < ULLONG_MAX"
  obtains r' where "StreamReassembler_push_substring r data index eof = Inr r'" "SR_of S r'"
    "bs_totout (sr_output r') = bs_totout (sr_output r)" "sr_capacity r' = sr_capacity r"
    "sr_next r \<le> sr_next r'"
    "index \<le> sr_next r \<longrightarrow> min (index + length data) (bs_totout (sr_output r) + sr_capacity r) \<le> sr_next r'"
    "eof \<longrightarrow> sr_posEOF r' = length S" "sr_posEOF r = length S \<longrightarrow> sr_posEOF r' = length S"
    "bs_error (sr_output r') = bs_error (sr_output r)"
    "\<exists>t. bs_buff (sr_output r') = bs_buff (sr_output r) @ t"
proof -
  let ?r0 = "SR_announce r data index eof" and ?m = "learn (sr_limit (SR_announce r data index eof)) data index (sr_abs r)"
  have inv: "SR_inv r" "SR_core r" using assms(1) by (simp_all add: SR_of_def SR_inv_def)
  have fits: "index + length data < SIZE_MOD" using assms(2,5) by simp
  have cons: "end_consistent r (index + length data)" if eof
  proof -
    have "sr_next r \<noteq> ULLONG_MAX" using SR_next_bounds(1) [OF inv(2)] by simp
    then show ?thesis using assms(1,4) that by (auto simp: SR_of_def SR_inv_def end_consistent_def)
  qed
  obtain r' t where p: "StreamReassembler_push_substring r data index eof = Inr r'" "SR_step ?r0 r' t"
    "spec_push (sr_limit ?r0) data index (sr_abs r) = (sr_abs r', t)"
    using push_substring_step [where eof = eof, OF inv(1) fits cons] by blast
  have eofp: "sr_posEOF ?r0 = (if eof then length S else sr_posEOF r)"
    using assms(4) by (simp add: SR_announce_def add64_eq [OF fits])
  have inv': "SR_inv r'" "SR_core r'" "sr_next r' = sr_next r + length t" "sr_limit r' = sr_limit ?r0"
    using p(2) by (simp_all add: SR_step_def SR_inv_def sr_limit_def)
  have known: "p < length S \<and> S ! p = b" if "?m p = Some b" for p b
  proof (cases "frag_at (sr_unassembledBuffer r) p")
    case None
    then have "index \<le> p" "p < index + length data" "data ! (p - index) = b"
      using that by (auto simp: learn_def sr_abs_def split: if_splits)
    moreover have "data ! (p - index) = S ! (index + (p - index))"
      by (subst assms(3)) (use assms(2) calculation in simp)
    ultimately show ?thesis using assms(2) by simp
  next
    case (Some c)
    then show ?thesis using that assms(1) by (simp add: learn_def sr_abs_def SR_of_def)
  qed
  have core0: "SR_core ?r0" by (rule SR_announce_core [OF inv(2) fits cons])
  have none: "?m p = None" if "sr_limit ?r0 \<le> p" for p
  proof (cases "frag_at (sr_unassembledBuffer r) p")
    case (Some b)
    then show ?thesis using SR_core_known [OF core0, of p b] that by simp
  qed (use that in \<open>simp add: learn_def sr_abs_def\<close>)
  have sp: "spec_push (sr_limit ?r0) data index (sr_abs r) = ((frag_at (sr_unassembledBuffer r'), sr_next r'), t)"
    using p(3) by (simp add: sr_abs_def)
  from spec_push_is_run [OF this _ none] have run: "is_run ?m (sr_next r) t"
    using inv'(2,4) by (simp add: sr_abs_def SR_core_def)
  have nx: "sr_next r \<le> length S" using assms(1) by (simp add: SR_of_def)
  note t = is_run_stream [OF run known nx]
  have m': "frag_at (sr_unassembledBuffer r') p = (if p < sr_next r + length t then None else ?m p)" for p
    using spec_push_known [OF sp] by (simp add: sr_abs_def)
  have b: "bs_buff (sr_output r') = bs_buff (sr_output r) @ t" "bs_totout (sr_output r') = bs_totout (sr_output r)"
    "sr_posEOF r' = sr_posEOF ?r0" "sr_capacity r' = sr_capacity r" "bs_error (sr_output r') = bs_error (sr_output r)"
    using p(2) by (simp_all add: SR_step_def)
  have "bs_buff (sr_output r) @ t = chunk S (bs_totout (sr_output r)) (length (bs_buff (sr_output r)) + length t)"
    using assms(1) t chunk_append [of S "bs_totout (sr_output r)" "length (bs_buff (sr_output r))" "length t"]
    unfolding SR_of_def sr_next_def by metis
  then have bc: "bs_buff (sr_output r') = chunk S (bs_totout (sr_output r')) (length (bs_buff (sr_output r')))"
    unfolding b(1,2) length_append .
  have "p < length S \<and> S ! p = v" if "frag_at (sr_unassembledBuffer r') p = Some v" for p v
    using that known m' [of p] by (simp split: if_splits)
  then have of': "SR_of S r'"
    using inv'(1,3) bc t b(3) eofp assms(1) unfolding SR_of_def by (metis (full_types))
  have prog: "min (index + length data) (bs_totout (sr_output r) + sr_capacity r) \<le> sr_next r'" if i: "index \<le> sr_next r"
  proof (rule ccontr)
    let ?q = "sr_next r + length t"
    assume "\<not> ?thesis"
    then have q: "?q < index + length data" "?q < bs_totout (sr_output r) + sr_capacity r" using inv'(3) by simp_all
    have "?q < sr_posEOF ?r0" using q(1) assms(1,2,4,5) eofp by (auto simp: SR_of_def)
    then have "?m ?q \<noteq> None" using q i by (auto simp: learn_def sr_abs_def sr_limit_def split: option.splits)
    then show False using run by (simp add: is_run_def)
  qed
  have "sr_posEOF r' = (if eof then length S else sr_posEOF r)" using b(3) eofp by simp
  then show ?thesis
    using prog by (intro that [OF p(1) of' b(2,4) _ _ _ _ b(5)]) (simp_all add: inv'(3) b(1))
qed

lemma SR_of_read:
  assumes "SR_of S r" and "length S + sr_capacity r < ULLONG_MAX"
  shows "SR_of S (r\<lparr>sr_output := fst (ByteStream_read (sr_output r) n)\<rparr>)"
    "snd (ByteStream_read (sr_output r) n) = chunk S (bs_totout (sr_output r)) (min n (length (bs_buff (sr_output r))))"
    "bs_totout (fst (ByteStream_read (sr_output r) n)) = bs_totout (sr_output r) + min n (length (bs_buff (sr_output r)))"
proof -
  let ?o = "sr_output r" and ?k = "min n (length (bs_buff (sr_output r)))"
  let ?r = "r\<lparr>sr_output := fst (ByteStream_read ?o n)\<rparr>"
  have inv: "SR_inv r" "SR_core r" "sr_next r \<le> length S"
    "bs_buff ?o = chunk S (bs_totout ?o) (length (bs_buff ?o))"
    using assms(1) by (simp_all add: SR_of_def SR_inv_def)
  have "bs_totout ?o + ?k < SIZE_MOD" using inv(3) assms(2) by (simp add: sr_next_def)
  then show tot: "bs_totout (fst (ByteStream_read ?o n)) = bs_totout ?o + ?k" by (simp add: add64_eq)
  have nx: "sr_next ?r = sr_next r" using tot by (auto simp: sr_next_def min_def)
  have lim: "sr_limit r \<le> sr_limit ?r" using tot by (simp add: sr_limit_def)
  have "store_inv (Suc (sr_next r)) (sr_limit ?r) (sr_unassembledBuffer r)"
    using inv(2) lim by (auto simp: SR_core_def intro: store.inv_mono)
  moreover have "bs_totout ?o + ?k + sr_capacity r < ULLONG_MAX"
    using inv(3) assms(2) by (simp add: sr_next_def)
  ultimately have core: "SR_core ?r"
    using inv(2) lim nx tot ByteStream_read_inv [of ?o n] unfolding SR_core_def by simp
  show d: "snd (ByteStream_read ?o n) = chunk S (bs_totout ?o) ?k"
    using inv(4) take_drop_chunk [of n 0 S "bs_totout ?o" "length (bs_buff ?o)"] by (metis ByteStream_read_data add_0_right diff_zero drop0)
  have "drop n (bs_buff ?o) = chunk S (bs_totout ?o + ?k) (length (bs_buff ?o) - n)"
  proof (cases "n \<le> length (bs_buff ?o)")
    case True
    have "drop n (bs_buff ?o) = drop n (chunk S (bs_totout ?o) (length (bs_buff ?o)))" using inv(4) by (rule arg_cong)
    then show ?thesis using True by (simp add: chunk_def drop_take add.commute)
  qed simp
  then show "SR_of S ?r"
    using assms(1) core nx tot by (simp add: SR_of_def SR_inv_def)
qed

section \<open>Sequences of pushes and reads\<close>

datatype reasm_op = Push "byte list" size_t bool | Read size_t

fun reasm_run :: "StreamReassembler \<Rightarrow> reasm_op list \<Rightarrow> (StreamReassembler \<times> byte list) res" where
  "reasm_run r [] = Inr (r, [])"
| "reasm_run r (Push data index eof # ops) =
     bindR (StreamReassembler_push_substring r data index eof) (\<lambda>r. reasm_run r ops)"
| "reasm_run r (Read n # ops) =
     (let (s, d) = ByteStream_read (sr_output r) n
      in bindR (reasm_run (r\<lparr>sr_output := s\<rparr>) ops) (\<lambda>(r', ds). Inr (r', d @ ds)))"

text \<open>The operations a peer with the stream \<open>S\<close> may cause, in any order and any number.\<close>

fun op_of :: "byte list \<Rightarrow> reasm_op \<Rightarrow> bool" where
  "op_of S (Push data index eof) \<longleftrightarrow>
     index + length data \<le> length S \<and> data = chunk S index (length data) \<and>
     (eof \<longrightarrow> index + length data = length S)"
| "op_of S (Read n) \<longleftrightarrow> True"

lemma reasm_run_of:
  assumes "SR_of S r" and "\<And>x. x \<in> set ops \<Longrightarrow> op_of S x" and "length S + sr_capacity r < ULLONG_MAX"
  shows "\<exists>r' outs. reasm_run r ops = Inr (r', outs) \<and> SR_of S r' \<and> sr_capacity r' = sr_capacity r \<and>
    bs_totout (sr_output r') = bs_totout (sr_output r) + length outs \<and>
    outs = chunk S (bs_totout (sr_output r)) (length outs)"
  using assms
proof (induction ops arbitrary: r)
  case Nil
  then show ?case by simp
next
  case (Cons x ops)
  show ?case
  proof (cases x)
    case (Push data index eof)
    then have o: "index + length data \<le> length S" "data = chunk S index (length data)"
      "eof \<Longrightarrow> index + length data = length S" using Cons.prems(2) [of x] by auto
    obtain r1 where "StreamReassembler_push_substring r data index eof = Inr r1" "SR_of S r1"
      "bs_totout (sr_output r1) = bs_totout (sr_output r)" "sr_capacity r1 = sr_capacity r"
      by (rule SR_of_push [OF Cons.prems(1) o Cons.prems(3)])
    then show ?thesis using Cons.IH [of r1] Cons.prems(2,3) Push by auto
  next
    case (Read n)
    let ?o = "sr_output r" and ?k = "min n (length (bs_buff (sr_output r)))"
    let ?r = "r\<lparr>sr_output := fst (ByteStream_read ?o n)\<rparr>"
    note rd = SR_of_read [OF Cons.prems(1,3), of n]
    obtain r' outs where r': "reasm_run ?r ops = Inr (r', outs)" "SR_of S r'" "sr_capacity r' = sr_capacity r"
      "bs_totout (sr_output r') = bs_totout ?o + ?k + length outs" "outs = chunk S (bs_totout ?o + ?k) (length outs)"
      using Cons.IH [OF rd(1)] Cons.prems(2,3) rd(3) by auto
    define d where "d = snd (ByteStream_read ?o n)"
    have k: "length d = ?k" by (simp add: d_def min.commute)
    have "d @ outs = chunk S (bs_totout ?o) (length (d @ outs))"
      using r'(5) rd(2) chunk_append [of S "bs_totout ?o" ?k "length outs"] k unfolding d_def [symmetric] length_append
      by metis
    moreover have "reasm_run r (x # ops) = Inr (r', d @ outs)"
      using r'(1) Read by (simp add: Let_def case_prod_beta d_def)
    moreover have "bs_totout (sr_output r') = bs_totout ?o + length (d @ outs)" using r'(4) k by simp
    ultimately show ?thesis using r'(2,3) by blast
  qed
qed

lemma store_total:
  assumes "store_inv (Suc n) hi L" and "n \<le> hi"
  shows "n + frags_total L \<le> hi"
  using assms(1)
proof (rule store_invE)
  fix l assume "L = l @ [(ULLONG_MAX, [])]" "frags_ok (Suc n) hi l"
  then show ?thesis using frags_ok_total [of "Suc n" hi l] assms(2) by (cases "l = []") auto
qed

section \<open>Properties\<close>

text \<open>
  C5. \<open>push_substring\<close> implements the abstract specification: it never throws (its two
  calls of \<open>substr\<close> stay inside their strings), keeps the class invariant, turns the stored
  bytes and the length of the assembled prefix into what \<open>spec_push\<close> says, and appends to
  the output exactly the bytes that became contiguous. The end of the stream, if
  announced, has to agree with what was received before.
\<close>

theorem push_substring_refines:
  assumes "SR_inv r" and "index + length data < SIZE_MOD"
    and "eof \<longrightarrow> end_consistent r (index + length data)"
  shows "\<exists>r' t. StreamReassembler_push_substring r data index eof = Inr r' \<and> SR_inv r' \<and>
    spec_push (sr_limit (SR_announce r data index eof)) data index (sr_abs r) = (sr_abs r', t) \<and>
    bs_buff (sr_output r') = bs_buff (sr_output r) @ t \<and>
    StreamReassembler_unassembled_bytes r' = frags_total (sr_unassembledBuffer r')"
  using push_substring_step [of r index data eof] assms by (fastforce simp: SR_step_def SR_inv_def SR_core_def
      StreamReassembler_unassembled_bytes_def)

theorem push_substring_refines_witness:
  "\<exists>r' t. StreamReassembler_push_substring (StreamReassembler_new 8) [1, 2] 3 True = Inr r' \<and> SR_inv r' \<and>
    spec_push 5 [1, 2] 3 (sr_abs (StreamReassembler_new 8)) = (sr_abs r', t) \<and> bs_buff (sr_output r') = t"
proof -
  let ?r = "StreamReassembler_new 8"
  have "frag_at (sr_unassembledBuffer ?r) p = None" for p
    by (auto simp: StreamReassembler_new_def)
  then have "end_consistent ?r (3 + length [1 :: byte, 2])"
    by (simp add: end_consistent_def) (simp add: StreamReassembler_new_def ByteStream_new_def sr_next_def)
  moreover have "sr_limit (SR_announce ?r [1, 2] 3 True) = 5"
    by (simp add: SR_announce_def sr_limit_def StreamReassembler_new_def ByteStream_new_def add64_eq)
  moreover have "bs_buff (sr_output ?r) = []" by (simp add: StreamReassembler_new_def ByteStream_new_def)
  ultimately show ?thesis
    using push_substring_refines [OF SR_new_inv, of 8 3 "[1, 2]" True] by auto
qed

text \<open>
  C4. Whatever a network does to the substrings of a stream \<open>S\<close>, losing, reordering,
  duplicating, splitting or overlapping them, and however the application interleaves its
  reads: no call throws, what the application has read followed by what is buffered is a
  prefix of \<open>S\<close>, the stream is reported as ended only when all of \<open>S\<close> was written and its
  end announced, and buffered and stored bytes together stay within the capacity.
\<close>

theorem reassembly_prefix:
  assumes "length S + capacity < ULLONG_MAX" and "\<forall>x \<in> set ops. op_of S x"
  shows "\<exists>r outs. reasm_run (StreamReassembler_new capacity) ops = Inr (r, outs) \<and>
    outs @ bs_buff (sr_output r) = take (ByteStream_bytes_written (sr_output r)) S \<and>
    ByteStream_bytes_written (sr_output r) \<le> length S \<and>
    (ByteStream_input_ended (sr_output r) \<longleftrightarrow>
       ByteStream_bytes_written (sr_output r) = length S \<and> sr_posEOF r = length S) \<and>
    ByteStream_buffer_size (sr_output r) + StreamReassembler_unassembled_bytes r \<le> capacity"
proof -
  have new: "SR_of S (StreamReassembler_new capacity)" using SR_of_new assms(1) by simp
  have c: "sr_capacity (StreamReassembler_new capacity) = capacity"
    "bs_totout (sr_output (StreamReassembler_new capacity)) = 0"
    by (simp_all add: StreamReassembler_new_def ByteStream_new_def)
  obtain r outs where r: "reasm_run (StreamReassembler_new capacity) ops = Inr (r, outs)" "SR_of S r"
    "sr_capacity r = capacity" "bs_totout (sr_output r) = length outs" "outs = chunk S 0 (length outs)"
    using reasm_run_of [OF new, of ops] assms c by auto
  have inv: "SR_inv r" "SR_core r" "sr_next r \<le> length S"
    "bs_buff (sr_output r) = chunk S (length outs) (length (bs_buff (sr_output r)))"
    "sr_posEOF r = ULLONG_MAX \<or> sr_posEOF r = length S"
    using r(2,4) by (simp_all add: SR_of_def SR_inv_def)
  have w: "bs_totin (sr_output r) = length outs + length (bs_buff (sr_output r))"
    using SR_next_bounds(3) [OF inv(2)] r(4) by (simp add: sr_next_def)
  have "outs @ bs_buff (sr_output r) = chunk S 0 (length outs + length (bs_buff (sr_output r)))"
    using r(5) inv(4) chunk_append [of S 0 "length outs" "length (bs_buff (sr_output r))"] by (metis add_0)
  moreover have "sr_next r + frags_total (sr_unassembledBuffer r) \<le> sr_limit r"
    using store_total inv(2) by (simp add: SR_core_def)
  then have "length (bs_buff (sr_output r)) + sr_unassembledBytes r \<le> capacity"
    using inv(2) r(3) by (simp add: sr_next_def sr_limit_def SR_core_def)
  moreover have "sr_next r \<noteq> ULLONG_MAX" using SR_next_bounds(1) [OF inv(2)] by simp
  ultimately show ?thesis
    using r(1) inv w r(4)
    by (auto simp: ByteStream_accessors StreamReassembler_unassembled_bytes_def chunk_def SR_inv_def sr_next_def)
qed

theorem reassembly_prefix_witness:
  "\<exists>r outs. reasm_run (StreamReassembler_new 8)
      [Push [3] 2 True, Push [1, 2] 0 False, Push [2, 3] 1 True, Read 2] = Inr (r, outs) \<and>
    outs @ bs_buff (sr_output r) = take (ByteStream_bytes_written (sr_output r)) [1, 2, 3]"
  using reassembly_prefix [of "[1, 2, 3]" 8
      "[Push [3] 2 True, Push [1, 2] 0 False, Push [2, 3] 1 True, Read 2]"]
  by (auto simp: chunk_def)

text \<open>
  C28. A push makes progress: when the substring reaches back to the assembled prefix, the
  prefix afterwards covers the whole substring, as far as the capacity allows, and the
  prefix never shrinks. A substring that completes the stream ends it.
\<close>

theorem push_substring_progress:
  assumes "SR_of S r" and "length S + sr_capacity r < ULLONG_MAX" and "op_of S (Push data index eof)"
    and "index \<le> ByteStream_bytes_written (sr_output r)"
  shows "\<exists>r'. StreamReassembler_push_substring r data index eof = Inr r' \<and> SR_of S r' \<and>
    ByteStream_bytes_written (sr_output r) \<le> ByteStream_bytes_written (sr_output r') \<and>
    min (index + length data) (ByteStream_bytes_read (sr_output r) + sr_capacity r)
      \<le> ByteStream_bytes_written (sr_output r') \<and>
    (eof \<and> ByteStream_bytes_written (sr_output r') = length S \<longrightarrow> ByteStream_input_ended (sr_output r'))"
proof -
  have o: "index + length data \<le> length S" "data = chunk S index (length data)"
    "eof \<Longrightarrow> index + length data = length S" using assms(3) by auto
  obtain r' where r': "StreamReassembler_push_substring r data index eof = Inr r'" "SR_of S r'"
    "sr_next r \<le> sr_next r'"
    "index \<le> sr_next r \<longrightarrow> min (index + length data) (bs_totout (sr_output r) + sr_capacity r) \<le> sr_next r'"
    "eof \<longrightarrow> sr_posEOF r' = length S"
    by (rule SR_of_push [OF assms(1) o assms(2)])
  have "SR_core r" "SR_core r'" "SR_inv r'" using assms(1) r'(2) by (simp_all add: SR_of_def SR_inv_def)
  then have w: "bs_totin (sr_output r) = sr_next r" "bs_totin (sr_output r') = sr_next r'"
    "bs_isInputEnd (sr_output r') = (sr_next r' = sr_posEOF r')"
    using SR_next_bounds(3) by (simp_all add: SR_inv_def)
  show ?thesis
    using assms(4) r' by (intro exI [of _ r']) (auto simp: ByteStream_accessors w)
qed

theorem push_substring_progress_witness:
  "\<exists>r'. StreamReassembler_push_substring (StreamReassembler_new 8) [1, 2] 0 True = Inr r' \<and>
     2 \<le> ByteStream_bytes_written (sr_output r')"
proof -
  have "ByteStream_bytes_written (sr_output (StreamReassembler_new 8)) = 0"
    "ByteStream_bytes_read (sr_output (StreamReassembler_new 8)) = 0"
    "sr_capacity (StreamReassembler_new 8) = 8"
    by (simp_all add: StreamReassembler_new_def ByteStream_new_def ByteStream_accessors)
  then show ?thesis
    using push_substring_progress [OF SR_of_new, of 8 "[1, 2]" "[1, 2]" 0 True] by (auto simp: chunk_def)
qed

end
