(* ===== verification/Tcp_Receiver.thy ===== *)
theory Tcp_Receiver
  imports Reassembly Tcp_Segment
begin

text \<open>
  \<open>TCPReceiver\<close> (\<open>libsponge/tcp_receiver.hh\<close>, \<open>tcp_receiver.cc\<close>): turns segments into
  pushes into the reassembler, and the state of the reassembler into the acknowledgment
  number and the window to advertise. The lemmas follow one stream \<open>S\<close> with one initial
  sequence number through the 32-bit fields of its segments.
\<close>

section \<open>The class\<close>

record TCPReceiver =
  rc_reassembler :: StreamReassembler
  rc_capacity :: size_t
  rc_isn :: size_t
  rc_checkpoint :: size_t
  rc_syn :: bool
  rc_fin :: bool

definition TCPReceiver_new :: "size_t \<Rightarrow> TCPReceiver" where
  "TCPReceiver_new capacity =
     \<lparr>rc_reassembler = StreamReassembler_new capacity, rc_capacity = capacity, rc_isn = 0,
      rc_checkpoint = 0, rc_syn = False, rc_fin = False\<rparr>"

definition TCPReceiver_stream_out :: "TCPReceiver \<Rightarrow> ByteStream" where
  "TCPReceiver_stream_out rc = sr_output (rc_reassembler rc)"

definition TCPReceiver_unassembled_bytes :: "TCPReceiver \<Rightarrow> size_t" where
  "TCPReceiver_unassembled_bytes rc = StreamReassembler_unassembled_bytes (rc_reassembler rc)"

definition TCPReceiver_segment_received :: "TCPReceiver \<Rightarrow> TCPSegment \<Rightarrow> TCPReceiver res" where
  "TCPReceiver_segment_received rc seg =
     (let header = seg_header seg
      in if \<not> th_syn header \<and> \<not> rc_syn rc then Inr rc
         else if th_syn header \<and> rc_syn rc then Inr rc
         else
           let rc = (if th_syn header
                     then rc\<lparr>rc_syn := True, rc_isn := unat (raw_value (th_seqno header))\<rparr> else rc);
               rc = (if th_fin header then rc\<lparr>rc_fin := True\<rparr> else rc);
               index = unwrap (th_seqno header) (WrappingInt32 (of_nat (rc_isn rc)))
                         (StreamReassembler_unassembled_bytes (rc_reassembler rc))
           in bindR (StreamReassembler_push_substring (rc_reassembler rc) (Buffer_copy (seg_payload seg))
                       (if th_syn header then 0 else sub64 index 1) (th_fin header))
                (\<lambda>r. Inr (rc\<lparr>rc_reassembler := r\<rparr>)))"

definition TCPReceiver_ackno :: "TCPReceiver \<Rightarrow> WrappingInt32 option" where
  "TCPReceiver_ackno rc =
     (if \<not> rc_syn rc then None
      else
        let absolute_seqno = add64 (ByteStream_bytes_written (TCPReceiver_stream_out rc)) 1
        in if ByteStream_input_ended (TCPReceiver_stream_out rc)
           then Some (wrap (add64 absolute_seqno 1) (WrappingInt32 (of_nat (rc_isn rc))))
           else Some (wrap absolute_seqno (WrappingInt32 (of_nat (rc_isn rc)))))"

definition TCPReceiver_window_size :: "TCPReceiver \<Rightarrow> size_t" where
  "TCPReceiver_window_size rc =
     sub64 (rc_capacity rc) (ByteStream_buffer_size (TCPReceiver_stream_out rc))"

section \<open>Segments of one stream\<close>

text \<open>
  \<open>seg_of S isn seg\<close>: the segment carries a piece of the stream \<open>S\<close>, numbered from \<open>isn\<close>:
  absolute sequence number 0 is the SYN, \<open>k + 1\<close> is the byte \<open>k\<close>, and a FIN follows the
  last byte. A bare acknowledgment occupies no sequence number and may carry any.
\<close>

definition seg_of :: "byte list \<Rightarrow> WrappingInt32 \<Rightarrow> TCPSegment \<Rightarrow> bool" where
  "seg_of S isn seg \<longleftrightarrow>
     (\<not> th_syn (seg_header seg) \<and> \<not> th_fin (seg_header seg) \<and> Buffer_str (seg_payload seg) = []) \<or>
     (\<exists>index. th_seqno (seg_header seg) = wrap (if th_syn (seg_header seg) then 0 else index + 1) isn \<and>
        (th_syn (seg_header seg) \<longrightarrow> index = 0) \<and>
        op_of S (Push (Buffer_str (seg_payload seg)) index (th_fin (seg_header seg))))"

text \<open>The receiver of the stream \<open>S\<close>: before the SYN it holds nothing.\<close>

definition RC_of :: "byte list \<Rightarrow> WrappingInt32 \<Rightarrow> TCPReceiver \<Rightarrow> bool" where
  "RC_of S isn rc \<longleftrightarrow> SR_of S (rc_reassembler rc) \<and> sr_capacity (rc_reassembler rc) = rc_capacity rc \<and>
     rc_capacity rc < 2147483648 \<and>
     (if rc_syn rc then rc_isn rc = unat (raw_value isn)
      else sr_next (rc_reassembler rc) = 0 \<and> sr_posEOF (rc_reassembler rc) = ULLONG_MAX)"

lemma RC_of_new: "capacity < 2147483648 \<Longrightarrow> RC_of S isn (TCPReceiver_new capacity)"
  using SR_of_new [of capacity S]
  by (simp add: RC_of_def TCPReceiver_new_def StreamReassembler_new_def sr_next_def ByteStream_new_def)

lemma RC_unassembled_bound:
  assumes "RC_of S isn rc"
  shows "StreamReassembler_unassembled_bytes (rc_reassembler rc) < 2147483648"
proof -
  have "SR_core (rc_reassembler rc)" using assms by (simp add: RC_of_def SR_of_def SR_inv_def)
  then have "sr_next (rc_reassembler rc) + sr_unassembledBytes (rc_reassembler rc) \<le> sr_limit (rc_reassembler rc)"
    using store_total by (simp add: SR_core_def)
  then show ?thesis
    using assms by (simp add: RC_of_def StreamReassembler_unassembled_bytes_def sr_limit_def sr_next_def)
qed

lemma RC_index:
  assumes "RC_of S isn rc" and "rc_syn rc" and "index + 1 < UINT_MOD"
  shows "sub64 (unwrap (wrap (index + 1) isn) (WrappingInt32 (of_nat (rc_isn rc)))
    (StreamReassembler_unassembled_bytes (rc_reassembler rc))) 1 = index"
proof -
  have "WrappingInt32 (of_nat (rc_isn rc)) = isn" using assms(1,2) by (simp add: RC_of_def)
  moreover have "unwrap (wrap (index + 1) isn) isn (StreamReassembler_unassembled_bytes (rc_reassembler rc)) = index + 1"
    by (rule unwrap_wrap_below [OF RC_unassembled_bound [OF assms(1)] assms(3)])
  ultimately show ?thesis using assms(3) by (simp add: sub64_eq)
qed

text \<open>A bare acknowledgment changes nothing.\<close>

lemma RC_of_bare:
  assumes "RC_of S isn rc" and "\<not> th_syn (seg_header seg)" and "\<not> th_fin (seg_header seg)"
    and "Buffer_str (seg_payload seg) = []"
  shows "TCPReceiver_segment_received rc seg = Inr rc"
proof -
  have "SR_inv (rc_reassembler rc)" using assms(1) by (simp add: RC_of_def SR_of_def)
  then have "StreamReassembler_push_substring (rc_reassembler rc) [] i False = Inr (rc_reassembler rc)" for i
    by (rule SR_push_empty)
  then show ?thesis using assms(2-4)
    by (simp add: TCPReceiver_segment_received_def Buffer_copy_def Let_def)
qed

text \<open>A segment that is not ignored: it is pushed at its place, and the assembled prefix may grow.\<close>

lemma RC_push:
  fixes seg isn
  defines "h \<equiv> seg_header seg" and "d \<equiv> Buffer_str (seg_payload seg)"
  assumes "RC_of S isn rc" and "rc_syn rc \<noteq> th_syn h" and "length S < 4294967295"
    and ix: "th_seqno h = wrap (if th_syn h then 0 else index + 1) isn" "th_syn h \<longrightarrow> index = 0"
      "op_of S (Push d index (th_fin h))"
  obtains rc' where "TCPReceiver_segment_received rc seg = Inr rc'" "RC_of S isn rc'"
    "rc_capacity rc' = rc_capacity rc"
    "bs_totout (sr_output (rc_reassembler rc')) = bs_totout (sr_output (rc_reassembler rc))"
    "sr_next (rc_reassembler rc) \<le> sr_next (rc_reassembler rc')"
    "\<exists>t. bs_buff (sr_output (rc_reassembler rc')) = bs_buff (sr_output (rc_reassembler rc)) @ t"
    "rc_syn rc'" "bs_error (sr_output (rc_reassembler rc')) = bs_error (sr_output (rc_reassembler rc))"
    "index \<le> sr_next (rc_reassembler rc) \<longrightarrow>
       min (index + length d) (bs_totout (sr_output (rc_reassembler rc)) + rc_capacity rc) \<le> sr_next (rc_reassembler rc')"
    "th_fin h \<longrightarrow> sr_posEOF (rc_reassembler rc') = length S"
proof -
  let ?r = "rc_reassembler rc"
  have op: "index + length d \<le> length S" "d = chunk S index (length d)" "th_fin h \<Longrightarrow> index + length d = length S"
    using ix(3) by simp_all
  have room: "length S + sr_capacity ?r < ULLONG_MAX" and cap: "sr_capacity ?r = rc_capacity rc"
    using assms(3,5) by (simp_all add: RC_of_def)
  have "SR_of S ?r" using assms(3) by (simp add: RC_of_def)
  then obtain r' where r': "StreamReassembler_push_substring ?r d index (th_fin h) = Inr r'" "SR_of S r'"
    "bs_totout (sr_output r') = bs_totout (sr_output ?r)" "sr_capacity r' = sr_capacity ?r"
    "sr_next ?r \<le> sr_next r'"
    "index \<le> sr_next ?r \<longrightarrow> min (index + length d) (bs_totout (sr_output ?r) + sr_capacity ?r) \<le> sr_next r'"
    "th_fin h \<longrightarrow> sr_posEOF r' = length S" "bs_error (sr_output r') = bs_error (sr_output ?r)"
    "\<exists>t. bs_buff (sr_output r') = bs_buff (sr_output ?r) @ t"
    by (rule SR_of_push [OF _ op room])
  define rc' where "rc' = rc\<lparr>rc_reassembler := r', rc_syn := True,
      rc_isn := (if th_syn h then unat (raw_value isn) else rc_isn rc), rc_fin := (th_fin h \<or> rc_fin rc)\<rparr>"
  have idx: "(if th_syn h then 0 else sub64 (unwrap (th_seqno h) (WrappingInt32 (of_nat (rc_isn rc)))
      (StreamReassembler_unassembled_bytes ?r)) 1) = index"
    using RC_index [OF assms(3), of index] assms(4,5) ix(1,2) op(1) by auto
  have "th_syn h \<Longrightarrow> raw_value (th_seqno h) = raw_value isn" using ix(1) by (simp add: raw_wrap)
  then have "TCPReceiver_segment_received rc seg = Inr rc'"
    using assms(4) r'(1) idx unfolding h_def d_def
    by (cases "th_syn (seg_header seg)"; cases "th_fin (seg_header seg)")
      (simp_all add: TCPReceiver_segment_received_def Let_def Buffer_copy_def rc'_def h_def)
  moreover have "RC_of S isn rc'" using assms(3,4) r'(2,4) by (simp add: RC_of_def rc'_def split: if_splits)
  ultimately show ?thesis using that [of rc'] r' cap by (simp add: rc'_def)
qed

text \<open>A segment of the stream is taken, and the receiver goes on receiving that stream.\<close>

lemma RC_of_segment:
  assumes "RC_of S isn rc" and "seg_of S isn seg" and "length S < 4294967295"
  obtains rc' where "TCPReceiver_segment_received rc seg = Inr rc'" "RC_of S isn rc'"
    "rc_capacity rc' = rc_capacity rc"
    "bs_totout (sr_output (rc_reassembler rc')) = bs_totout (sr_output (rc_reassembler rc))"
    "sr_next (rc_reassembler rc) \<le> sr_next (rc_reassembler rc')"
    "\<exists>t. bs_buff (sr_output (rc_reassembler rc')) = bs_buff (sr_output (rc_reassembler rc)) @ t"
    "rc_syn rc \<or> th_syn (seg_header seg) \<longrightarrow> rc_syn rc'"
    "bs_error (sr_output (rc_reassembler rc')) = bs_error (sr_output (rc_reassembler rc))"
proof (cases "rc_syn rc = th_syn (seg_header seg) \<or> (\<not> th_syn (seg_header seg) \<and>
    \<not> th_fin (seg_header seg) \<and> Buffer_str (seg_payload seg) = [])")
  case True
  then have "TCPReceiver_segment_received rc seg = Inr rc"
    using RC_of_bare [OF assms(1)] by (auto simp: TCPReceiver_segment_received_def Let_def)
  then show ?thesis using that [of rc] assms(1) True by auto
next
  case False
  then have new: "rc_syn rc \<noteq> th_syn (seg_header seg)" by simp
  obtain index where ix: "th_seqno (seg_header seg) = wrap (if th_syn (seg_header seg) then 0 else index + 1) isn"
    "th_syn (seg_header seg) \<longrightarrow> index = 0"
    "op_of S (Push (Buffer_str (seg_payload seg)) index (th_fin (seg_header seg)))"
    using assms(2) False by (auto simp: seg_of_def)
  show ?thesis by (rule RC_push [OF assms(1) new assms(3) ix]) (rule that; blast)
qed

text \<open>What the receiver advertises, in terms of the assembled prefix.\<close>

lemma RC_advertise:
  assumes "RC_of S isn rc" and "length S < 4294967295"
  shows "TCPReceiver_ackno rc =
      (if rc_syn rc then Some (wrap (sr_next (rc_reassembler rc) + 1 +
         (if bs_isInputEnd (sr_output (rc_reassembler rc)) then 1 else 0)) isn) else None)"
    "TCPReceiver_window_size rc = rc_capacity rc - length (bs_buff (sr_output (rc_reassembler rc)))"
    "length (bs_buff (sr_output (rc_reassembler rc))) \<le> rc_capacity rc"
proof -
  have r: "SR_core (rc_reassembler rc)" "sr_next (rc_reassembler rc) \<le> length S"
    "sr_capacity (rc_reassembler rc) = rc_capacity rc" "rc_capacity rc < 2147483648"
    using assms(1) by (simp_all add: RC_of_def SR_of_def SR_inv_def)
  have "bs_totin (sr_output (rc_reassembler rc)) = sr_next (rc_reassembler rc)" using SR_next_bounds(3) [OF r(1)] .
  moreover have "rc_syn rc \<Longrightarrow> rc_isn rc = unat (raw_value isn)" using assms(1) by (simp add: RC_of_def)
  ultimately show "TCPReceiver_ackno rc =
      (if rc_syn rc then Some (wrap (sr_next (rc_reassembler rc) + 1 +
         (if bs_isInputEnd (sr_output (rc_reassembler rc)) then 1 else 0)) isn) else None)"
    using r(2) assms(2)
    by (simp add: TCPReceiver_ackno_def TCPReceiver_stream_out_def ByteStream_accessors Let_def add64_eq)
  show len: "length (bs_buff (sr_output (rc_reassembler rc))) \<le> rc_capacity rc"
    using r(1,3) ByteStream_len by (metis SR_core_def)
  then show "TCPReceiver_window_size rc = rc_capacity rc - length (bs_buff (sr_output (rc_reassembler rc)))"
    using r(4) by (simp add: TCPReceiver_window_size_def TCPReceiver_stream_out_def ByteStream_accessors sub64_eq)
qed

text \<open>The index of a segment the wrong checkpoint makes look old.\<close>

lemma stale_index:
  assumes "m < 4294967296" and "m + 4294967296 \<le> n + 1" and "k < 4294967296" and "0 < k"
  shows "add64 (sub64 m 1) k < n"
proof (cases "m = 0")
  case True
  have e: "ULLONG_MAX + k = (k - 1) + SIZE_MOD" using assms(4) by simp
  have "sub64 m 1 = ULLONG_MAX" using True by (simp add: sub64_def)
  then have "add64 (sub64 m 1) k = (k - 1) mod SIZE_MOD" unfolding add64_def by (simp only: e mod_add_self2)
  then show ?thesis using assms True by simp
next
  case False
  then have "add64 (sub64 m 1) k = m - 1 + k" using assms by (simp add: size_simps)
  then show ?thesis using assms False by linarith
qed

section \<open>Properties\<close>

text \<open>
  C7. A receiver of the stream \<open>S\<close> takes every segment of \<open>S\<close> without throwing, goes on
  holding nothing but bytes of \<open>S\<close> at their places, never moves its acknowledgment number
  back, acknowledges SYN, assembled bytes and FIN exactly, and advertises as its window
  what is left of its capacity beyond the buffered bytes. The stream is shorter than
  \<open>2 ^ 32 - 1\<close> bytes.
\<close>

theorem segment_received_stream:
  assumes "RC_of S isn rc" and "seg_of S isn seg" and "length S < 4294967295"
  shows "\<exists>rc'. TCPReceiver_segment_received rc seg = Inr rc' \<and> RC_of S isn rc' \<and>
    ByteStream_bytes_written (TCPReceiver_stream_out rc) \<le> ByteStream_bytes_written (TCPReceiver_stream_out rc') \<and>
    (th_syn (seg_header seg) \<longrightarrow> TCPReceiver_ackno rc' \<noteq> None) \<and>
    (\<forall>a. TCPReceiver_ackno rc' = Some a \<longrightarrow>
       a = wrap (ByteStream_bytes_written (TCPReceiver_stream_out rc') + 1 +
         (if ByteStream_input_ended (TCPReceiver_stream_out rc') then 1 else 0)) isn) \<and>
    TCPReceiver_window_size rc' + ByteStream_buffer_size (TCPReceiver_stream_out rc') = rc_capacity rc'"
proof -
  obtain rc' where rc': "TCPReceiver_segment_received rc seg = Inr rc'" "RC_of S isn rc'"
    "sr_next (rc_reassembler rc) \<le> sr_next (rc_reassembler rc')"
    "rc_syn rc \<or> th_syn (seg_header seg) \<longrightarrow> rc_syn rc'"
    by (rule RC_of_segment [OF assms])
  have "bs_totin (sr_output (rc_reassembler x)) = sr_next (rc_reassembler x)" if "RC_of S isn x" for x
    using that SR_next_bounds(3) by (simp add: RC_of_def SR_of_def SR_inv_def)
  from this [OF assms(1)] this [OF rc'(2)] show ?thesis
    using rc' RC_advertise [OF rc'(2) assms(3)]
    by (intro exI [of _ rc']) (simp add: TCPReceiver_stream_out_def ByteStream_accessors)
qed

theorem segment_received_stream_witness:
  "\<exists>rc'. TCPReceiver_segment_received (TCPReceiver_new 10)
      \<lparr>seg_header = TCPHeader_default\<lparr>th_syn := True, th_seqno := WrappingInt32 4294967295\<rparr>,
       seg_payload = Buffer_of [1, 2]\<rparr> = Inr rc' \<and>
    RC_of [1, 2, 3] (WrappingInt32 4294967295) rc' \<and> TCPReceiver_ackno rc' \<noteq> None"
proof -
  let ?seg = "\<lparr>seg_header = TCPHeader_default\<lparr>th_syn := True, th_seqno := WrappingInt32 4294967295\<rparr>,
      seg_payload = Buffer_of [1, 2]\<rparr>"
  have "seg_of [1, 2, 3] (WrappingInt32 4294967295) ?seg"
    by (simp add: seg_of_def TCPHeader_default_def chunk_def wrap_def add64_eq)
  moreover have "RC_of [1, 2, 3] (WrappingInt32 4294967295) (TCPReceiver_new 10)" by (rule RC_of_new) simp
  ultimately show ?thesis
    using segment_received_stream [of "[1, 2, 3]" "WrappingInt32 4294967295" "TCPReceiver_new 10" ?seg] by auto
qed

text \<open>
  C32. Past the first 4 GiB the receiver is deaf. \<open>segment_received\<close> passes the number of
  unassembled bytes as the checkpoint to \<open>unwrap\<close>, not the position in the stream, so that
  once \<open>2 ^ 32\<close> bytes have been written the very segment the receiver asks for, the one whose
  sequence number is its own acknowledgment number, is taken for an old one and ignored.
\<close>

theorem receiver_deaf_past_4GiB:
  assumes "SR_inv (rc_reassembler rc)" and "rc_syn rc" and "TCPReceiver_unassembled_bytes rc < 2147483648"
    and "4294967296 \<le> ByteStream_bytes_written (TCPReceiver_stream_out rc)"
    and "\<not> ByteStream_input_ended (TCPReceiver_stream_out rc)"
    and "TCPReceiver_ackno rc = Some (th_seqno (seg_header seg))"
    and "\<not> th_syn (seg_header seg)" and "\<not> th_fin (seg_header seg)"
    and "0 < Buffer_size (seg_payload seg)" and "Buffer_size (seg_payload seg) < 4294967296"
  shows "TCPReceiver_segment_received rc seg = Inr rc"
proof -
  let ?r = "rc_reassembler rc" and ?d = "Buffer_str (seg_payload seg)" and ?isn = "WrappingInt32 (of_nat (rc_isn rc))"
  have core: "SR_core ?r" using assms(1) by (simp add: SR_inv_def)
  define n where "n = sr_next ?r"
  note b = SR_next_bounds [OF core, folded n_def]
  have n: "4294967296 \<le> n" "n < ULLONG_MAX"
    using assms(4) b by (simp_all add: TCPReceiver_stream_out_def ByteStream_accessors)
  have seq: "th_seqno (seg_header seg) = wrap (n + 1) ?isn"
    using assms(2,5,6) n(2) b(3)
    by (simp add: TCPReceiver_ackno_def TCPReceiver_stream_out_def ByteStream_accessors Let_def add64_eq)
  define m where "m = (n + 1) mod 4294967296"
  have "unwrap (wrap (n + 1) ?isn) ?isn (StreamReassembler_unassembled_bytes ?r) = m"
    using unwrap_below [of "StreamReassembler_unassembled_bytes ?r" "wrap (n + 1) ?isn" ?isn] assms(3)
    by (simp only: TCPReceiver_unassembled_bytes_def raw_wrap add_diff_cancel_right' unat_of_nat m_def) simp
  moreover have m: "m < 4294967296" "m + 4294967296 \<le> n + 1"
  proof -
    show "m < 4294967296" by (simp add: m_def)
    have "1 \<le> (n + 1) div 4294967296" using n(1) by (simp add: div_greater_zero_iff Suc_le_eq)
    then show "m + 4294967296 \<le> n + 1"
      using mod_mult_div_eq [of "n + 1" 4294967296] unfolding m_def [symmetric] by linarith
  qed
  moreover have d: "0 < length ?d" "length ?d < 4294967296" using assms(9,10) by (simp_all add: Buffer_size_def)
  have old: "add64 (sub64 m 1) (length ?d) < n" by (rule stale_index [OF m(1,2) d(2,1)])
  ultimately have idx: "StreamReassembler_push_substring ?r ?d (sub64 m 1) False = Inr ?r"
    using b(4) d(1) unfolding n_def
    by (simp add: StreamReassembler_push_substring_def ByteStream_accessors Let_def)
  then show ?thesis
    using assms(2,7,8) seq \<open>unwrap (wrap (n + 1) ?isn) ?isn (StreamReassembler_unassembled_bytes ?r) = m\<close>
    by (simp add: TCPReceiver_segment_received_def Buffer_copy_def Let_def)
qed

theorem receiver_deaf_past_4GiB_witness:
  "\<exists>rc seg. TCPReceiver_ackno rc = Some (th_seqno (seg_header seg)) \<and>
     Buffer_str (seg_payload seg) = [42] \<and> TCPReceiver_segment_received rc seg = Inr rc"
proof -
  define rc where "rc = (TCPReceiver_new 100)\<lparr>rc_syn := True,
      rc_reassembler := (StreamReassembler_new 100)\<lparr>sr_output :=
        (ByteStream_new 100)\<lparr>bs_totin := 4294967296, bs_totout := 4294967296\<rparr>\<rparr>\<rparr>"
  define seg where "seg = \<lparr>seg_header = TCPHeader_default\<lparr>th_seqno := WrappingInt32 1\<rparr>, seg_payload = Buffer_of [42]\<rparr>"
  have "SR_inv (rc_reassembler rc)" "rc_syn rc" "TCPReceiver_unassembled_bytes rc < 2147483648"
    "4294967296 \<le> ByteStream_bytes_written (TCPReceiver_stream_out rc)"
    "\<not> ByteStream_input_ended (TCPReceiver_stream_out rc)"
    by (simp_all add: rc_def SR_inv_def SR_core_def sr_next_def sr_limit_def StreamReassembler_new_def
        ByteStream_new_def ByteStream_inv_def store_inv_def TCPReceiver_stream_out_def ByteStream_accessors
        TCPReceiver_unassembled_bytes_def StreamReassembler_unassembled_bytes_def)
  moreover have a: "TCPReceiver_ackno rc = Some (th_seqno (seg_header seg))"
    by (simp add: rc_def seg_def TCPReceiver_ackno_def TCPReceiver_stream_out_def ByteStream_accessors
        ByteStream_new_def TCPReceiver_new_def add64_eq wrap_def)
  moreover have "\<not> th_syn (seg_header seg)" "\<not> th_fin (seg_header seg)"
    "0 < Buffer_size (seg_payload seg)" "Buffer_size (seg_payload seg) < 4294967296"
    by (simp_all add: seg_def TCPHeader_default_def Buffer_size_def)
  ultimately have "TCPReceiver_segment_received rc seg = Inr rc" by (rule receiver_deaf_past_4GiB)
  moreover have "Buffer_str (seg_payload seg) = [42]" by (simp add: seg_def)
  ultimately show ?thesis using a by blast
qed

end
