(* ===== verification/Tcp_State.thy ===== *)
theory Tcp_State
  imports Tcp_Sender Tcp_Receiver
begin

text \<open>
  \<open>TCPState\<close> (\<open>libsponge/tcp_helpers/tcp_state.hh\<close>, \<open>tcp_state.cc\<close>): the summary of a
  connection as two strings and two flags, computed from the sender and the receiver or from
  one of the official state names. The lemmas show that the summary tells the official states
  apart, so comparing summaries compares states.
\<close>

section \<open>The class\<close>

record TCPState =
  ts_sender :: string
  ts_receiver :: string
  ts_active :: bool
  ts_linger_after_streams_finish :: bool

datatype State = LISTEN | SYN_RCVD | SYN_SENT | ESTABLISHED | CLOSE_WAIT | LAST_ACK
  | FIN_WAIT_1 | FIN_WAIT_2 | CLOSING | TIME_WAIT | CLOSED | RESET

definition ReceiverSummary_ERROR :: string where
  "ReceiverSummary_ERROR = ''error (connection was reset)''"

definition ReceiverSummary_LISTEN :: string where
  "ReceiverSummary_LISTEN = ''waiting for SYN: ackno is empty''"

definition ReceiverSummary_SYN_RECV :: string where
  "ReceiverSummary_SYN_RECV = ''SYN received (ackno exists), and input to stream hasn't ended''"

definition ReceiverSummary_FIN_RECV :: string where
  "ReceiverSummary_FIN_RECV = ''input to stream has ended''"

definition SenderSummary_ERROR :: string where
  "SenderSummary_ERROR = ''error (connection was reset)''"

definition SenderSummary_CLOSED :: string where
  "SenderSummary_CLOSED = ''waiting for stream to begin (no SYN sent)''"

definition SenderSummary_SYN_SENT :: string where
  "SenderSummary_SYN_SENT = ''stream started but nothing acknowledged''"

definition SenderSummary_SYN_ACKED :: string where
  "SenderSummary_SYN_ACKED = ''stream ongoing''"

definition SenderSummary_FIN_SENT :: string where
  "SenderSummary_FIN_SENT = ''stream finished (FIN sent) but not fully acknowledged''"

definition SenderSummary_FIN_ACKED :: string where
  "SenderSummary_FIN_ACKED = ''stream finished and fully acknowledged''"

lemmas summary_defs = ReceiverSummary_ERROR_def ReceiverSummary_LISTEN_def ReceiverSummary_SYN_RECV_def
  ReceiverSummary_FIN_RECV_def SenderSummary_ERROR_def SenderSummary_CLOSED_def SenderSummary_SYN_SENT_def
  SenderSummary_SYN_ACKED_def SenderSummary_FIN_SENT_def SenderSummary_FIN_ACKED_def

definition TCPState_eq :: "TCPState \<Rightarrow> TCPState \<Rightarrow> bool" where
  "TCPState_eq a b \<longleftrightarrow> ts_active a = ts_active b \<and>
     ts_linger_after_streams_finish a = ts_linger_after_streams_finish b \<and>
     ts_sender a = ts_sender b \<and> ts_receiver a = ts_receiver b"

definition TCPState_neq :: "TCPState \<Rightarrow> TCPState \<Rightarrow> bool" where
  "TCPState_neq a b \<longleftrightarrow> \<not> TCPState_eq a b"

text \<open>\<open>to_string\<close> of a \<open>bool\<close> prints its integer value.\<close>

definition TCPState_name :: "TCPState \<Rightarrow> string" where
  "TCPState_name s =
     ''sender=`'' @ ts_sender s @ ''`, receiver=`'' @ ts_receiver s @ ''`, active='' @
     (if ts_active s then ''1'' else ''0'') @ '', linger_after_streams_finish='' @
     (if ts_linger_after_streams_finish s then ''1'' else ''0'')"

fun TCPState_of_State :: "State \<Rightarrow> TCPState" where
  "TCPState_of_State LISTEN =
     \<lparr>ts_sender = SenderSummary_CLOSED, ts_receiver = ReceiverSummary_LISTEN,
      ts_active = True, ts_linger_after_streams_finish = True\<rparr>"
| "TCPState_of_State SYN_RCVD =
     \<lparr>ts_sender = SenderSummary_SYN_SENT, ts_receiver = ReceiverSummary_SYN_RECV,
      ts_active = True, ts_linger_after_streams_finish = True\<rparr>"
| "TCPState_of_State SYN_SENT =
     \<lparr>ts_sender = SenderSummary_SYN_SENT, ts_receiver = ReceiverSummary_LISTEN,
      ts_active = True, ts_linger_after_streams_finish = True\<rparr>"
| "TCPState_of_State ESTABLISHED =
     \<lparr>ts_sender = SenderSummary_SYN_ACKED, ts_receiver = ReceiverSummary_SYN_RECV,
      ts_active = True, ts_linger_after_streams_finish = True\<rparr>"
| "TCPState_of_State CLOSE_WAIT =
     \<lparr>ts_sender = SenderSummary_SYN_ACKED, ts_receiver = ReceiverSummary_FIN_RECV,
      ts_active = True, ts_linger_after_streams_finish = False\<rparr>"
| "TCPState_of_State LAST_ACK =
     \<lparr>ts_sender = SenderSummary_FIN_SENT, ts_receiver = ReceiverSummary_FIN_RECV,
      ts_active = True, ts_linger_after_streams_finish = False\<rparr>"
| "TCPState_of_State CLOSING =
     \<lparr>ts_sender = SenderSummary_FIN_SENT, ts_receiver = ReceiverSummary_FIN_RECV,
      ts_active = True, ts_linger_after_streams_finish = True\<rparr>"
| "TCPState_of_State FIN_WAIT_1 =
     \<lparr>ts_sender = SenderSummary_FIN_SENT, ts_receiver = ReceiverSummary_SYN_RECV,
      ts_active = True, ts_linger_after_streams_finish = True\<rparr>"
| "TCPState_of_State FIN_WAIT_2 =
     \<lparr>ts_sender = SenderSummary_FIN_ACKED, ts_receiver = ReceiverSummary_SYN_RECV,
      ts_active = True, ts_linger_after_streams_finish = True\<rparr>"
| "TCPState_of_State TIME_WAIT =
     \<lparr>ts_sender = SenderSummary_FIN_ACKED, ts_receiver = ReceiverSummary_FIN_RECV,
      ts_active = True, ts_linger_after_streams_finish = True\<rparr>"
| "TCPState_of_State RESET =
     \<lparr>ts_sender = SenderSummary_ERROR, ts_receiver = ReceiverSummary_ERROR,
      ts_active = False, ts_linger_after_streams_finish = False\<rparr>"
| "TCPState_of_State CLOSED =
     \<lparr>ts_sender = SenderSummary_FIN_ACKED, ts_receiver = ReceiverSummary_FIN_RECV,
      ts_active = False, ts_linger_after_streams_finish = False\<rparr>"

definition state_summary_receiver :: "TCPReceiver \<Rightarrow> string" where
  "state_summary_receiver receiver =
     (if bs_error (TCPReceiver_stream_out receiver) then ReceiverSummary_ERROR
      else if TCPReceiver_ackno receiver = None then ReceiverSummary_LISTEN
      else if ByteStream_input_ended (TCPReceiver_stream_out receiver) then ReceiverSummary_FIN_RECV
      else ReceiverSummary_SYN_RECV)"

definition state_summary_sender :: "TCPSender \<Rightarrow> string" where
  "state_summary_sender sender =
     (if bs_error (sn_stream sender) then SenderSummary_ERROR
      else if TCPSender_next_seqno_absolute sender = 0 then SenderSummary_CLOSED
      else if TCPSender_next_seqno_absolute sender = TCPSender_bytes_in_flight sender then SenderSummary_SYN_SENT
      else if \<not> ByteStream_eof (sn_stream sender) then SenderSummary_SYN_ACKED
      else if TCPSender_next_seqno_absolute sender < add64 (ByteStream_bytes_written (sn_stream sender)) 2
        then SenderSummary_SYN_ACKED
      else if TCPSender_bytes_in_flight sender \<noteq> 0 then SenderSummary_FIN_SENT
      else SenderSummary_FIN_ACKED)"

definition TCPState_new :: "TCPSender \<Rightarrow> TCPReceiver \<Rightarrow> bool \<Rightarrow> bool \<Rightarrow> TCPState" where
  "TCPState_new sender receiver active linger =
     \<lparr>ts_sender = state_summary_sender sender, ts_receiver = state_summary_receiver receiver,
      ts_active = active, ts_linger_after_streams_finish = (if active then linger else False)\<rparr>"

section \<open>Telling states apart\<close>

lemma TCPState_eq_iff [simp]: "TCPState_eq a b \<longleftrightarrow> a = b"
  by (auto simp: TCPState_eq_def)

text \<open>
  The comparison of the tests tells the official states apart: two state names have equal
  summaries, or equal printed names, only if they are the same.
\<close>

lemma TCPState_distinguishes:
  "TCPState_eq (TCPState_of_State a) (TCPState_of_State b) = (a = b) \<and>
   (TCPState_name (TCPState_of_State a) = TCPState_name (TCPState_of_State b)) = (a = b)"
proof -
  have "TCPState_eq (TCPState_of_State a) (TCPState_of_State b) = (a = b)"
    by (cases a; cases b) (simp_all add: summary_defs)
  moreover have "(TCPState_name (TCPState_of_State a) = TCPState_name (TCPState_of_State b)) = (a = b)"
    by (cases a; cases b) (simp_all add: summary_defs TCPState_name_def)
  ultimately show ?thesis ..
qed

end
