(* ===== verification/Transmission.thy ===== *)
theory Transmission
  imports Tcp_Sender Tcp_Receiver
begin

text \<open>
  The sender at work on one stream \<open>S\<close>: the invariant that ties the counters of
  \<open>TCPSender\<close>, its outgoing byte stream and its map of outstanding segments together, and
  its preservation by every operation. The outstanding segments tile the sequence space
  from the oldest unacknowledged number to the next one to be sent.
\<close>

section \<open>The invariant\<close>

definition seg_len :: "TCPSegment \<Rightarrow> nat" where
  "seg_len seg = length (Buffer_str (seg_payload seg)) + (if th_syn (seg_header seg) then 1 else 0) +
     (if th_fin (seg_header seg) then 1 else 0)"

lemma length_in_sequence_space_eq:
  "length (Buffer_str (seg_payload seg)) \<le> TCPConfig_MAX_PAYLOAD_SIZE \<Longrightarrow>
   TCPSegment_length_in_sequence_space seg = seg_len seg"
  by (simp add: TCPSegment_length_in_sequence_space_def seg_len_def TCPConfig_MAX_PAYLOAD_SIZE_def add64_eq)

text \<open>The segment that starts at the absolute sequence number \<open>k\<close>.\<close>

definition seg_at :: "byte list \<Rightarrow> WrappingInt32 \<Rightarrow> nat \<Rightarrow> TCPSegment \<Rightarrow> bool" where
  "seg_at S isn k seg \<longleftrightarrow>
     th_seqno (seg_header seg) = wrap k isn \<and> th_syn (seg_header seg) = (k = 0) \<and>
     length (Buffer_str (seg_payload seg)) \<le> TCPConfig_MAX_PAYLOAD_SIZE \<and>
     op_of S (Push (Buffer_str (seg_payload seg)) (k - 1) (th_fin (seg_header seg)))"

lemma seg_at_of: "seg_at S isn k seg \<Longrightarrow> seg_of S isn seg"
  unfolding seg_at_def seg_of_def by (intro disjI2 exI [of _ "k - 1"]) auto

fun contig :: "byte list \<Rightarrow> WrappingInt32 \<Rightarrow> nat \<Rightarrow> segment_map \<Rightarrow> nat \<Rightarrow> bool" where
  "contig S isn lo [] hi = (lo = hi)"
| "contig S isn lo ((k, seg) # l) hi =
     (k = lo \<and> seg_at S isn k seg \<and> 0 < seg_len seg \<and> contig S isn (lo + seg_len seg) l hi)"

definition SN_of :: "byte list \<Rightarrow> TCPSender \<Rightarrow> bool" where
  "SN_of S sn \<longleftrightarrow>
     ByteStream_inv (sn_stream sn) \<and>
     bs_buff (sn_stream sn) = chunk S (bs_totout (sn_stream sn)) (length (bs_buff (sn_stream sn))) \<and>
     bs_totout (sn_stream sn) + length (bs_buff (sn_stream sn)) \<le> length S \<and>
     (bs_isInputEnd (sn_stream sn) \<longrightarrow> bs_totout (sn_stream sn) + length (bs_buff (sn_stream sn)) = length S) \<and>
     sn_next_seqno sn = (if sn_syn sn then 1 else 0) + bs_totout (sn_stream sn) + (if sn_fin sn then 1 else 0) \<and>
     (\<not> sn_syn sn \<longrightarrow> bs_totout (sn_stream sn) = 0 \<and> \<not> sn_fin sn) \<and>
     (sn_fin sn \<longrightarrow> bs_isInputEnd (sn_stream sn) \<and> bs_buff (sn_stream sn) = []) \<and>
     sn_outgoing_bytes sn \<le> sn_next_seqno sn \<and>
     contig S (sn_isn sn) (sn_next_seqno sn - sn_outgoing_bytes sn) (sn_segments_outgoing sn) (sn_next_seqno sn) \<and>
     (\<forall>seg \<in> set (sn_segments_out sn). seg_of S (sn_isn sn) seg)"

declare SN_of_def [inv_defs]

text \<open>The timers do not matter, and the queue and the stream may change consistently.\<close>

lemma SN_of_stream:
  assumes "SN_of S sn" and "sn_isn sn' = sn_isn sn" and "sn_next_seqno sn' = sn_next_seqno sn"
    and "sn_outgoing_bytes sn' = sn_outgoing_bytes sn" and "sn_segments_outgoing sn' = sn_segments_outgoing sn"
    and "sn_syn sn' = sn_syn sn" and "sn_fin sn' = sn_fin sn"
    and "bs_totout (sn_stream sn') = bs_totout (sn_stream sn)"
    and "ByteStream_inv (sn_stream sn')"
    and "bs_buff (sn_stream sn') = chunk S (bs_totout (sn_stream sn)) (length (bs_buff (sn_stream sn')))"
    and "bs_totout (sn_stream sn) + length (bs_buff (sn_stream sn')) \<le> length S"
    and "bs_isInputEnd (sn_stream sn') \<longrightarrow> bs_totout (sn_stream sn) + length (bs_buff (sn_stream sn')) = length S"
    and "sn_fin sn \<longrightarrow> bs_isInputEnd (sn_stream sn') \<and> bs_buff (sn_stream sn') = []"
    and "\<forall>seg \<in> set (sn_segments_out sn'). seg_of S (sn_isn sn) seg"
  shows "SN_of S sn'"
  using assms(1,9-14) unfolding SN_of_def assms(2-8) by blast

lemma SN_of_queue:
  assumes "SN_of S sn" and "sn_isn sn' = sn_isn sn" and "sn_next_seqno sn' = sn_next_seqno sn"
    and "sn_outgoing_bytes sn' = sn_outgoing_bytes sn" and "sn_segments_outgoing sn' = sn_segments_outgoing sn"
    and "sn_syn sn' = sn_syn sn" and "sn_fin sn' = sn_fin sn" and "sn_stream sn' = sn_stream sn"
    and "\<forall>seg \<in> set (sn_segments_out sn'). seg_of S (sn_isn sn) seg"
  shows "SN_of S sn'"
  using assms(1,9) unfolding SN_of_def assms(2-8) by blast

lemma SN_of_new: "capacity < SIZE_MOD \<Longrightarrow> SN_of S (TCPSender_new capacity rto fixed rnd)"
  using ByteStream_new_inv [of capacity]
  by (simp add: SN_of_def TCPSender_new_def ByteStream_new_def)

lemma SN_next_bound: "SN_of S sn \<Longrightarrow> sn_next_seqno sn \<le> length S + 2"
  by (auto simp: SN_of_def split: if_splits)

lemma contig_le: "contig S isn lo l hi \<Longrightarrow> lo \<le> hi"
  by (induction S isn lo l hi rule: contig.induct) auto

lemma contig_snoc:
  "contig S isn lo l hi \<Longrightarrow> seg_at S isn hi seg \<Longrightarrow> 0 < seg_len seg \<Longrightarrow>
   contig S isn lo (l @ [(hi, seg)]) (hi + seg_len seg)"
  by (induction S isn lo l hi rule: contig.induct) auto

lemma contig_insert: "contig S isn lo l hi \<Longrightarrow> segment_map_insert hi seg l = l @ [(hi, seg)]"
proof (induction S isn lo l hi rule: contig.induct)
  case (2 S isn lo k s l hi)
  then have "k < hi" using contig_le by fastforce
  then show ?case using 2 by simp
qed simp

lemma contig_seg_of: "contig S isn lo l hi \<Longrightarrow> (k, seg) \<in> set l \<Longrightarrow> seg_of S isn seg"
  by (induction S isn lo l hi rule: contig.induct) (auto intro: seg_at_of)

section \<open>One round of fill_window\<close>

lemma read_empty: "ByteStream_inv s \<Longrightarrow> bs_buff s = [] \<Longrightarrow> fst (ByteStream_read s n) = s"
  by (simp add: ByteStream_read_def ByteStream_pop_output_def ByteStream_peek_output_def ByteStream_inv_def Let_def)

lemma SN_read_count:
  "SN_of S sn \<Longrightarrow> length S + 2 < UINT_MOD \<Longrightarrow>
   bs_totout (fst (ByteStream_read (sn_stream sn) n)) =
     bs_totout (sn_stream sn) + length (take n (bs_buff (sn_stream sn)))"
  unfolding ByteStream_read_fields(6) length_take min.commute [of n] SN_of_def by (subst add64_eq) auto

lemma make_segment_fst:
  "fst (TCPSender_make_segment w sn) =
     sn\<lparr>sn_syn := True, sn_stream := fst (ByteStream_read (sn_stream sn) (payload_room w sn)),
        sn_fin := sn_fin (fst (TCPSender_make_segment w sn))\<rparr>"
  by (simp add: TCPSender_make_segment_def Let_def case_prod_beta payload_room_def
      del: ByteStream_read_fields ByteStream_read_data)

lemma payload_room_eq:
  "sn_outgoing_bytes sn < w \<Longrightarrow> w < SIZE_MOD \<Longrightarrow>
   payload_room w sn = min TCPConfig_MAX_PAYLOAD_SIZE (w - sn_outgoing_bytes sn - (if sn_syn sn then 0 else 1))"
  by (auto simp: payload_room_def sub64_eq)

lemma made_fin:
  assumes "TCPSender_make_segment w sn = (sn1, seg)" and "sn_outgoing_bytes sn < w" and "w < SIZE_MOD"
  shows "th_fin (seg_header seg) = (\<not> sn_fin sn \<and> bs_isInputEnd (sn_stream sn) \<and>
      drop (payload_room w sn) (bs_buff (sn_stream sn)) = [] \<and>
      length (take (payload_room w sn) (bs_buff (sn_stream sn))) + sn_outgoing_bytes sn < w)"
proof -
  have "length (take (payload_room w sn) (bs_buff (sn_stream sn))) + sn_outgoing_bytes sn < SIZE_MOD"
    using payload_room_eq [OF assms(2,3)] assms(2,3) by auto
  then show ?thesis
    using make_segment_parts(6) [of w sn] unfolding assms(1) snd_conv by (simp only: add64_eq)
qed

lemma SN_made_at:
  assumes "SN_of S sn" and "sn_outgoing_bytes sn < w" and "w < SIZE_MOD"
    and "TCPSender_make_segment w sn = (sn1, seg)" and "seg_len seg \<noteq> 0"
  shows "seg_at S (sn_isn sn) (sn_next_seqno sn) seg"
proof -
  let ?st = "sn_stream sn" and ?P = "take (payload_room w sn) (bs_buff (sn_stream sn))"
  note p = make_segment_parts [of w sn, unfolded assms(4) fst_conv snd_conv]
  note fin = made_fin [OF assms(4,2,3)]
  have sn: "bs_buff ?st = chunk S (bs_totout ?st) (length (bs_buff ?st))"
    "bs_totout ?st + length (bs_buff ?st) \<le> length S"
    "bs_isInputEnd ?st \<longrightarrow> bs_totout ?st + length (bs_buff ?st) = length S"
    using assms(1) by (simp_all add: SN_of_def)
  have nf: "\<not> sn_fin sn" using assms(1,5) p(1,3) fin by (auto simp: SN_of_def seg_len_def)
  have k: "sn_next_seqno sn - 1 = bs_totout ?st" "(sn_next_seqno sn = 0) = (\<not> sn_syn sn)"
    using assms(1) nf by (auto simp: SN_of_def)
  have "?P = chunk S (bs_totout ?st) (length ?P)"
    using sn(1) take_drop_chunk [of "payload_room w sn" 0 S "bs_totout ?st" "length (bs_buff ?st)"]
    by (metis chunk_def drop0 length_take min.commute take_take)
  moreover have "bs_totout ?st + length ?P \<le> length S" using sn(2) by simp
  moreover have "th_fin (seg_header seg) \<Longrightarrow> bs_totout ?st + length ?P = length S" using fin sn(3) by simp
  moreover have "length ?P \<le> TCPConfig_MAX_PAYLOAD_SIZE" by (simp add: payload_room_def)
  ultimately show ?thesis
    using p(1-3) k by (simp add: seg_at_def TCPSender_next_seqno_def)
qed

lemma SN_made_idle:
  assumes "SN_of S sn" and "sn_outgoing_bytes sn < w" and "w < SIZE_MOD"
    and "TCPSender_make_segment w sn = (sn1, seg)" and "seg_len seg = 0"
  shows "sn1 = sn \<and> sn_syn sn \<and> bs_buff (sn_stream sn) = [] \<and> (bs_isInputEnd (sn_stream sn) \<longrightarrow> sn_fin sn)"
proof -
  note p = make_segment_parts [of w sn, unfolded assms(4) fst_conv snd_conv]
  note fin = made_fin [OF assms(4,2,3)]
  have z: "Buffer_str (seg_payload seg) = []" "\<not> th_syn (seg_header seg)" and nf: "\<not> th_fin (seg_header seg)"
    using assms(5) unfolding seg_len_def by (auto split: if_splits)
  have syn: "sn_syn sn" using z(2) p(1) by simp
  have e: "take (payload_room w sn) (bs_buff (sn_stream sn)) = []" using z(1) unfolding p(3) Buffer_of_str .
  have "0 < payload_room w sn"
    using payload_room_eq [OF assms(2,3)] assms(2) syn by (simp add: TCPConfig_MAX_PAYLOAD_SIZE_def)
  then have b: "bs_buff (sn_stream sn) = []" using e by simp
  have st: "fst (ByteStream_read (sn_stream sn) (payload_room w sn)) = sn_stream sn"
    using assms(1) b by (intro read_empty) (simp_all add: SN_of_def)
  have "sn1 = sn\<lparr>sn_syn := True, sn_stream := sn_stream sn, sn_fin := sn_fin sn1\<rparr>"
    using make_segment_fst [of w sn] unfolding assms(4) fst_conv st .
  moreover have "sn_fin sn1 = sn_fin sn" using p(5) nf by simp
  ultimately have "sn1 = sn" using syn by simp
  then show ?thesis using syn b nf fin assms(2) by auto
qed

lemma SN_made_bound:
  assumes "SN_of S sn" and "sn_outgoing_bytes sn < w" and "w < SIZE_MOD"
    and "TCPSender_make_segment w sn = (sn1, seg)"
  shows "length (Buffer_str (seg_payload seg)) \<le> TCPConfig_MAX_PAYLOAD_SIZE"
    "sn_outgoing_bytes sn + seg_len seg \<le> w + (if \<not> sn_syn sn \<and> th_fin (seg_header seg) then 1 else 0)"
proof -
  define L where "L = length (Buffer_str (seg_payload seg))"
  note p = make_segment_parts [of w sn, unfolded assms(4) fst_conv snd_conv]
  have l: "L = length (take (payload_room w sn) (bs_buff (sn_stream sn)))" unfolding L_def p(3) by simp
  then have "L \<le> payload_room w sn" by simp
  then have room: "L \<le> TCPConfig_MAX_PAYLOAD_SIZE" "L + (if sn_syn sn then 0 else 1) + sn_outgoing_bytes sn \<le> w"
    using assms(2) unfolding payload_room_eq [OF assms(2,3)] by (auto split: if_splits)
  have fin: "L + sn_outgoing_bytes sn < w" if "th_fin (seg_header seg)"
    using that made_fin [OF assms(4,2,3)] unfolding l by blast
  show "length (Buffer_str (seg_payload seg)) \<le> TCPConfig_MAX_PAYLOAD_SIZE" using room(1) by (simp only: L_def)
  show "sn_outgoing_bytes sn + seg_len seg \<le> w + (if \<not> sn_syn sn \<and> th_fin (seg_header seg) then 1 else 0)"
    using room(2) fin unfolding seg_len_def L_def [symmetric] p(1)
    by (cases "sn_syn sn"; cases "th_fin (seg_header seg)") simp_all
qed

text \<open>Sending what was made keeps the invariant.\<close>

lemma SN_sent:
  assumes "SN_of S sn" and "length S + 2 < UINT_MOD" and "sn_outgoing_bytes sn < w" and "w < SIZE_MOD"
    and "TCPSender_make_segment w sn = (sn1, seg)" and "seg_len seg \<noteq> 0"
  shows "SN_of S (TCPSender_send_segment sn1 seg)"
    "sn_outgoing_bytes (TCPSender_send_segment sn1 seg) = sn_outgoing_bytes sn + seg_len seg"
    "sn_next_seqno (TCPSender_send_segment sn1 seg) = sn_next_seqno sn + seg_len seg"
proof -
  let ?st = "sn_stream sn" and ?n = "payload_room w sn" and ?sn = "TCPSender_send_segment sn1 seg"
  note p = make_segment_parts [of w sn, unfolded assms(5) fst_conv snd_conv]
  note f = make_segment_fields [of w sn, unfolded assms(5) fst_conv snd_conv]
  note fin = made_fin [OF assms(5,3,4)]
  have at: "seg_at S (sn_isn sn) (sn_next_seqno sn) seg" by (rule SN_made_at [OF assms(1,3-6)])
  have lis: "TCPSegment_length_in_sequence_space seg = seg_len seg"
    using SN_made_bound(1) [OF assms(1,3-5)] by (rule length_in_sequence_space_eq)
  have small: "seg_len seg \<le> 1002" using SN_made_bound(1) [OF assms(1,3-5)]
    by (simp add: seg_len_def TCPConfig_MAX_PAYLOAD_SIZE_def)
  have nx: "sn_next_seqno sn \<le> length S + 2" "sn_outgoing_bytes sn \<le> sn_next_seqno sn"
    using SN_next_bound [OF assms(1)] assms(1) by (simp_all add: SN_of_def)
  show out: "sn_outgoing_bytes ?sn = sn_outgoing_bytes sn + seg_len seg"
    using nx small assms(2) by (simp add: lis f add64_eq)
  show next': "sn_next_seqno ?sn = sn_next_seqno sn + seg_len seg"
    using nx(1) small assms(2) by (simp add: lis f add64_eq)
  have tot: "bs_totout (sn_stream sn1) = bs_totout ?st + length (take ?n (bs_buff ?st))"
    unfolding p(4) by (rule SN_read_count [OF assms(1,2)])
  have buf: "bs_buff (sn_stream sn1) = drop ?n (bs_buff ?st)" "bs_isInputEnd (sn_stream sn1) = bs_isInputEnd ?st"
    by (simp_all add: p(4))
  have nf: "\<not> sn_fin sn" using assms(1,6) p(1,3) fin by (auto simp: SN_of_def seg_len_def)
  have len: "seg_len seg = length (take ?n (bs_buff ?st)) + (if sn_syn sn then 0 else 1) + (if sn_fin sn1 then 1 else 0)"
    unfolding seg_len_def p(1,3,5) using nf by simp
  have old: "bs_buff ?st = chunk S (bs_totout ?st) (length (bs_buff ?st))"
    "bs_totout ?st + length (bs_buff ?st) \<le> length S"
    "bs_isInputEnd ?st \<longrightarrow> bs_totout ?st + length (bs_buff ?st) = length S" "ByteStream_inv ?st"
    "sn_next_seqno sn = (if sn_syn sn then 1 else 0) + bs_totout ?st"
    "contig S (sn_isn sn) (sn_next_seqno sn - sn_outgoing_bytes sn) (sn_segments_outgoing sn) (sn_next_seqno sn)"
    "\<forall>seg \<in> set (sn_segments_out sn). seg_of S (sn_isn sn) seg"
    using assms(1) nf by (auto simp: SN_of_def)
  have "drop ?n (bs_buff ?st) = chunk S (bs_totout ?st + length (take ?n (bs_buff ?st))) (length (drop ?n (bs_buff ?st)))"
    by (rule drop_chunk [OF old(1)])
  moreover have "bs_isInputEnd ?st \<longrightarrow>
      bs_totout ?st + min (length (bs_buff ?st)) ?n + (length (bs_buff ?st) - ?n) = length S"
    "bs_totout ?st + min (length (bs_buff ?st)) ?n + (length (bs_buff ?st) - ?n) \<le> length S"
    using old(2,3) by (auto simp: min_def)
  moreover have "ByteStream_inv (sn_stream sn1)" unfolding p(4) by (rule ByteStream_read_inv [OF old(4)])
  moreover have "contig S (sn_isn sn) (sn_next_seqno sn - sn_outgoing_bytes sn)
      (sn_segments_outgoing sn @ [(sn_next_seqno sn, seg)]) (sn_next_seqno sn + seg_len seg)"
    using contig_snoc [OF old(6) at] assms(6) by simp
  moreover have "sn_fin sn1 \<longrightarrow> bs_isInputEnd ?st \<and> drop ?n (bs_buff ?st) = []" using p(5) nf fin by blast
  ultimately show "SN_of S ?sn"
    using old nx(2) len seg_at_of [OF at] contig_insert [OF old(6)]
    unfolding SN_of_def out next' by (simp add: f buf tot)
qed

section \<open>fill_window\<close>

text \<open>
  \<open>filled w sn sn'\<close>: what the loop gets done with window \<open>w\<close>. Only new segments are sent,
  the window is respected (by one less strictly when a SYN still had to go out), and at the
  end the window is full or there is nothing left to send.
\<close>

definition filled :: "size_t \<Rightarrow> TCPSender \<Rightarrow> TCPSender \<Rightarrow> bool" where
  "filled w sn sn' \<longleftrightarrow>
     (\<exists>segs. sn_segments_out sn' = sn_segments_out sn @ segs \<and>
        sn_outgoing_bytes sn' = sn_outgoing_bytes sn + sum_list (map seg_len segs) \<and>
        sn_next_seqno sn' = sn_next_seqno sn + sum_list (map seg_len segs) \<and>
        (\<forall>seg \<in> set segs. 0 < seg_len seg \<and>
           length (Buffer_str (seg_payload seg)) \<le> TCPConfig_MAX_PAYLOAD_SIZE)) \<and>
     sn_outgoing_bytes sn' \<le> max (sn_outgoing_bytes sn) (w + (if sn_syn sn then 0 else 1)) \<and>
     (w \<le> sn_outgoing_bytes sn' \<or> sn_syn sn' \<and> bs_buff (sn_stream sn') = [] \<and>
        (bs_isInputEnd (sn_stream sn') \<longrightarrow> sn_fin sn')) \<and>
     sn_isn sn' = sn_isn sn \<and> sn_win_size sn' = sn_win_size sn \<and>
     bs_isInputEnd (sn_stream sn') = bs_isInputEnd (sn_stream sn) \<and> (sn_syn sn \<longrightarrow> sn_syn sn')"

lemma filled_refl:
  "w \<le> sn_outgoing_bytes sn \<or> sn_syn sn \<and> bs_buff (sn_stream sn) = [] \<and> (bs_isInputEnd (sn_stream sn) \<longrightarrow> sn_fin sn)
   \<Longrightarrow> filled w sn sn"
  by (simp add: filled_def)

lemma SN_fill_loop:
  assumes "SN_of S sn" and "length S + 2 < UINT_MOD" and "w < SIZE_MOD"
  shows "SN_of S (TCPSender_fill_loop w sn) \<and> filled w sn (TCPSender_fill_loop w sn)"
  using assms
proof (induction w sn rule: TCPSender_fill_loop.induct)
  case (1 w sn)
  show ?case
  proof (cases "sn_outgoing_bytes sn < w")
    case False
    then show ?thesis using "1.prems"(1) filled_refl by (simp add: TCPSender_fill_loop.simps)
  next
    case True
    obtain sn1 seg where m: "TCPSender_make_segment w sn = (sn1, seg)" by fastforce
    note p = make_segment_parts [of w sn, unfolded m fst_conv snd_conv]
    note f = make_segment_fields [of w sn, unfolded m fst_conv snd_conv]
    note bd = SN_made_bound [OF "1.prems"(1) True "1.prems"(3) m]
    note lis = length_in_sequence_space_eq [OF bd(1)]
    show ?thesis
    proof (cases "seg_len seg = 0")
      case idle: True
      have i: "sn1 = sn \<and> sn_syn sn \<and> bs_buff (sn_stream sn) = [] \<and> (bs_isInputEnd (sn_stream sn) \<longrightarrow> sn_fin sn)"
        by (rule SN_made_idle [OF "1.prems"(1) True "1.prems"(3) m idle])
      then have "TCPSender_fill_loop w sn = sn"
        using True m lis idle by (subst TCPSender_fill_loop.simps) simp
      then show ?thesis using i "1.prems"(1) filled_refl by auto
    next
      case sent: False
      let ?s = "TCPSender_send_segment sn1 seg"
      note s = SN_sent [OF "1.prems"(1,2) True "1.prems"(3) m sent]
      have loop: "TCPSender_fill_loop w sn = (if th_fin (seg_header seg) then ?s else TCPSender_fill_loop w ?s)"
        using True m lis sent by (subst TCPSender_fill_loop.simps) simp
      show ?thesis
      proof (cases "th_fin (seg_header seg)")
        case fin: True
        have "bs_buff (sn_stream sn1) = []" using fin p(4) made_fin [OF m True "1.prems"(3)] by simp
        then have "filled w sn ?s"
          using fin p(4,5) s bd sent unfolding filled_def by (auto simp: f intro!: exI [of _ "[seg]"])
        then show ?thesis using s(1) loop fin by simp
      next
        case go: False
        have r: "SN_of S (TCPSender_fill_loop w ?s) \<and> filled w ?s (TCPSender_fill_loop w ?s)"
          using "1.IH" [OF True m [symmetric] refl _ refl go s(1) "1.prems"(2,3)] lis sent by simp
        then obtain segs where g: "sn_segments_out (TCPSender_fill_loop w ?s) = sn_segments_out ?s @ segs"
          "sn_outgoing_bytes (TCPSender_fill_loop w ?s) = sn_outgoing_bytes ?s + sum_list (map seg_len segs)"
          "sn_next_seqno (TCPSender_fill_loop w ?s) = sn_next_seqno ?s + sum_list (map seg_len segs)"
          "\<forall>seg \<in> set segs. 0 < seg_len seg \<and> length (Buffer_str (seg_payload seg)) \<le> TCPConfig_MAX_PAYLOAD_SIZE"
          by (auto simp: filled_def)
        have "sn_outgoing_bytes (TCPSender_fill_loop w ?s) \<le> max (sn_outgoing_bytes sn) (w + (if sn_syn sn then 0 else 1))"
          using r bd(2) go s(2) by (auto simp: filled_def f)
        then have "filled w sn (TCPSender_fill_loop w ?s)"
          using r g s(2,3) bd(1) sent p(4) unfolding filled_def by (auto simp: f intro!: exI [of _ "seg # segs"])
        then show ?thesis using r loop go by simp
      qed
    qed
  qed
qed

abbreviation effective_window :: "TCPSender \<Rightarrow> size_t" where
  "effective_window sn \<equiv> if sn_win_size sn \<noteq> 0 then sn_win_size sn else 1"

lemma SN_fill_window:
  assumes "SN_of S sn" and "length S + 2 < UINT_MOD" and "sn_win_size sn < SIZE_MOD"
  shows "SN_of S (TCPSender_fill_window sn)" "filled (effective_window sn) sn (TCPSender_fill_window sn)"
  using SN_fill_loop [OF assms(1,2), of "effective_window sn"] assms(3)
  unfolding TCPSender_fill_window_def by simp_all

section \<open>Acknowledgments\<close>

text \<open>The acknowledged part of the map, in one step.\<close>

definition acked_off :: "size_t \<Rightarrow> segment_map \<Rightarrow> segment_map" where
  "acked_off a l = dropWhile (\<lambda>(k, seg). k + seg_len seg \<le> a) l"

lemma ack_loop_fields [simp]:
  "sn_isn (TCPSender_ack_loop l a sn) = sn_isn sn" "sn_stream (TCPSender_ack_loop l a sn) = sn_stream sn"
  "sn_next_seqno (TCPSender_ack_loop l a sn) = sn_next_seqno sn" "sn_syn (TCPSender_ack_loop l a sn) = sn_syn sn"
  "sn_fin (TCPSender_ack_loop l a sn) = sn_fin sn" "sn_segments_out (TCPSender_ack_loop l a sn) = sn_segments_out sn"
  "sn_win_size (TCPSender_ack_loop l a sn) = sn_win_size sn"
  "sn_initial_retransmission_timeout (TCPSender_ack_loop l a sn) = sn_initial_retransmission_timeout sn"
  by (induction l a sn rule: TCPSender_ack_loop.induct) auto

lemma ack_loop_ok:
  assumes "contig S isn (next - sn_outgoing_bytes sn) l next" and "sn_outgoing_bytes sn \<le> next" and "next < UINT_MOD"
  shows "sn_segments_outgoing (TCPSender_ack_loop l a sn) = acked_off a l \<and>
    sn_outgoing_bytes (TCPSender_ack_loop l a sn) \<le> sn_outgoing_bytes sn \<and>
    contig S isn (next - sn_outgoing_bytes (TCPSender_ack_loop l a sn)) (acked_off a l) next"
  using assms
proof (induction l a sn rule: TCPSender_ack_loop.induct)
  case (1 a sn)
  then show ?case by (simp add: acked_off_def)
next
  case (2 k seg l a sn)
  let ?o = "sn_outgoing_bytes sn"
  have h: "k = next - ?o" "seg_at S isn k seg" "0 < seg_len seg" "contig S isn (k + seg_len seg) l next"
    using "2.prems"(1) by auto
  have le: "k + seg_len seg \<le> next" using contig_le [OF h(4)] .
  have lis: "TCPSegment_length_in_sequence_space seg = seg_len seg"
    using h(2) by (intro length_in_sequence_space_eq) (simp add: seg_at_def)
  have k: "add64 k (seg_len seg) = k + seg_len seg" using le "2.prems"(3) by (simp add: add64_eq)
  show ?case
  proof (cases "k + seg_len seg \<le> a")
    case True
    let ?sn = "sn\<lparr>sn_outgoing_bytes := sub64 ?o (seg_len seg),
      sn_retransmission_timeout := sn_initial_retransmission_timeout sn, sn_retransmission_timecount := 0\<rparr>"
    have o: "sub64 ?o (seg_len seg) = ?o - seg_len seg" "next - (?o - seg_len seg) = k + seg_len seg"
      "?o - seg_len seg \<le> next"
      using h(1,3) le "2.prems"(2,3) by (auto simp: sub64_eq)
    have "sn_segments_outgoing (TCPSender_ack_loop l a ?sn) = acked_off a l \<and>
      sn_outgoing_bytes (TCPSender_ack_loop l a ?sn) \<le> sn_outgoing_bytes ?sn \<and>
      contig S isn (next - sn_outgoing_bytes (TCPSender_ack_loop l a ?sn)) (acked_off a l) next"
      using "2.IH" True lis k o h(4) "2.prems"(3) by simp
    then show ?thesis using True lis k o by (auto simp: acked_off_def intro: le_trans [OF _ diff_le_self])
  next
    case False
    then show ?thesis using "2.prems"(1) lis k by (simp add: acked_off_def del: contig.simps)
  qed
qed

lemma SN_acked:
  fixes a w
  assumes "SN_of S sn" and "length S + 2 < UINT_MOD"
  defines "sn1 \<equiv> (TCPSender_ack_loop (sn_segments_outgoing sn) a sn)\<lparr>sn_win_size := w, sn_consecutive_retransmissions := 0\<rparr>"
  shows "SN_of S sn1" "sn_segments_outgoing sn1 = acked_off a (sn_segments_outgoing sn)"
    "sn_outgoing_bytes sn1 \<le> sn_outgoing_bytes sn"
proof -
  have n: "sn_next_seqno sn < UINT_MOD" using SN_next_bound [OF assms(1)] assms(2) by simp
  have c: "contig S (sn_isn sn) (sn_next_seqno sn - sn_outgoing_bytes sn) (sn_segments_outgoing sn) (sn_next_seqno sn)"
    "sn_outgoing_bytes sn \<le> sn_next_seqno sn" using assms(1) unfolding SN_of_def by blast+
  then have a: "sn_segments_outgoing sn1 = acked_off a (sn_segments_outgoing sn)"
    "sn_outgoing_bytes sn1 \<le> sn_outgoing_bytes sn"
    "contig S (sn_isn sn) (sn_next_seqno sn - sn_outgoing_bytes sn1) (acked_off a (sn_segments_outgoing sn)) (sn_next_seqno sn)"
    using ack_loop_ok [OF c n, of a] by (simp_all add: sn1_def)
  then show "sn_segments_outgoing sn1 = acked_off a (sn_segments_outgoing sn)"
    "sn_outgoing_bytes sn1 \<le> sn_outgoing_bytes sn" by simp_all
  have o: "sn_outgoing_bytes sn1 \<le> sn_next_seqno sn" using a(2) c(2) by simp
  have eqs: "sn_next_seqno sn1 = sn_next_seqno sn" "sn_isn sn1 = sn_isn sn" "sn_stream sn1 = sn_stream sn"
    "sn_syn sn1 = sn_syn sn" "sn_fin sn1 = sn_fin sn" "sn_segments_out sn1 = sn_segments_out sn"
    by (simp_all add: sn1_def)
  show "SN_of S sn1" using a(3) assms(1) o unfolding SN_of_def eqs a(1) by blast
qed

lemma SN_ack_received:
  assumes "SN_of S sn" and "length S + 2 < UINT_MOD"
  shows "SN_of S (TCPSender_ack_received sn ackno window_size)"
proof (cases "unwrap ackno (sn_isn sn) (sn_next_seqno sn) > sn_next_seqno sn")
  case False
  then show ?thesis
    using SN_fill_window(1) [OF SN_acked(1) [OF assms] assms(2)] unsigned_less [of window_size, where 'a = nat]
    by (simp add: TCPSender_ack_received_def Let_def)
qed (use assms(1) in \<open>simp add: TCPSender_ack_received_def\<close>)

section \<open>The other operations\<close>

lemma SN_tick:
  assumes "SN_of S sn"
  shows "SN_of S (TCPSender_tick sn ms)"
proof (cases "sn_segments_outgoing sn")
  case Nil
  show ?thesis
    by (rule SN_of_queue [OF assms]) (use Nil assms in \<open>simp_all add: TCPSender_tick_def SN_of_def Let_def\<close>)
next
  case (Cons x l)
  obtain k seg where x: "x = (k, seg)" by fastforce
  have "contig S (sn_isn sn) (sn_next_seqno sn - sn_outgoing_bytes sn) (sn_segments_outgoing sn) (sn_next_seqno sn)"
    "\<forall>seg \<in> set (sn_segments_out sn). seg_of S (sn_isn sn) seg"
    using assms unfolding SN_of_def by blast+
  moreover have "(k, seg) \<in> set (sn_segments_outgoing sn)" using Cons x by simp
  ultimately have "\<forall>s \<in> set (sn_segments_out sn @ [seg]). seg_of S (sn_isn sn) s"
    using contig_seg_of by simp
  then show ?thesis
    by (intro SN_of_queue [OF assms]) (use Cons x in \<open>simp_all add: TCPSender_tick_def Let_def\<close>)
qed

lemma SN_send_empty_segment:
  assumes "SN_of S sn"
  shows "SN_of S (TCPSender_send_empty_segment sn)"
proof (rule SN_of_queue [OF assms])
  have "\<forall>seg \<in> set (sn_segments_out sn). seg_of S (sn_isn sn) seg" using assms by (simp add: SN_of_def)
  then show "\<forall>seg \<in> set (sn_segments_out (TCPSender_send_empty_segment sn)). seg_of S (sn_isn sn) seg"
    by (auto simp: TCPSender_send_empty_segment_def seg_of_def TCPHeader_default_def)
qed (simp_all add: TCPSender_send_empty_segment_def)

lemma SN_end_input:
  assumes "SN_of S sn" and "bs_totout (sn_stream sn) + length (bs_buff (sn_stream sn)) = length S"
  shows "SN_of S (sn\<lparr>sn_stream := ByteStream_end_input (sn_stream sn)\<rparr>)"
proof (rule SN_of_stream [OF assms(1)])
  let ?sn = "sn\<lparr>sn_stream := ByteStream_end_input (sn_stream sn)\<rparr>"
  have b: "bs_buff (sn_stream ?sn) = bs_buff (sn_stream sn)" "bs_isInputEnd (sn_stream ?sn)"
    by (simp_all add: ByteStream_end_input_def)
  show "bs_buff (sn_stream ?sn) = chunk S (bs_totout (sn_stream sn)) (length (bs_buff (sn_stream ?sn)))"
    "ByteStream_inv (sn_stream ?sn)" "sn_fin sn \<longrightarrow> bs_isInputEnd (sn_stream ?sn) \<and> bs_buff (sn_stream ?sn) = []"
    "bs_totout (sn_stream sn) + length (bs_buff (sn_stream ?sn)) \<le> length S"
    "\<forall>seg \<in> set (sn_segments_out ?sn). seg_of S (sn_isn sn) seg"
    using assms(1) b unfolding SN_of_def by simp_all
qed (use assms(2) in \<open>simp_all add: ByteStream_end_input_def\<close>)

text \<open>The application writes its stream in order.\<close>

lemma SN_write:
  assumes "SN_of S sn"
    and "d = chunk S (bs_totout (sn_stream sn) + length (bs_buff (sn_stream sn))) (length d)"
  shows "SN_of S (sn\<lparr>sn_stream := fst (ByteStream_write (sn_stream sn) d)\<rparr>)"
proof -
  let ?st = "sn_stream sn" and ?d = "take (bs_capacity (sn_stream sn) - length (bs_buff (sn_stream sn))) d"
  let ?sn = "sn\<lparr>sn_stream := fst (ByteStream_write (sn_stream sn) d)\<rparr>"
  have inv: "ByteStream_inv ?st" "bs_buff ?st = chunk S (bs_totout ?st) (length (bs_buff ?st))"
    "bs_totout ?st + length (bs_buff ?st) \<le> length S"
    "bs_isInputEnd ?st \<longrightarrow> bs_totout ?st + length (bs_buff ?st) = length S"
    "sn_fin sn \<longrightarrow> bs_isInputEnd ?st \<and> bs_buff ?st = []"
    "\<forall>seg \<in> set (sn_segments_out sn). seg_of S (sn_isn sn) seg"
    using assms(1) unfolding SN_of_def by blast+
  have b: "bs_buff (sn_stream ?sn) = bs_buff ?st @ ?d" using ByteStream_write_buff [OF inv(1)] by simp
  have dd: "?d = chunk S (bs_totout ?st + length (bs_buff ?st)) (length ?d)"
    using assms(2) by (metis chunk_def length_take min.commute take_take)
  then have len: "length ?d \<le> length S - (bs_totout ?st + length (bs_buff ?st))" by (metis length_chunk min.cobounded2)
  have c: "bs_buff ?st @ ?d = chunk S (bs_totout ?st) (length (bs_buff ?st @ ?d))"
    using inv(2) dd chunk_append [of S "bs_totout ?st" "length (bs_buff ?st)" "length ?d"]
    unfolding length_append by metis
  have e: "bs_isInputEnd ?st \<longrightarrow> length ?d = 0" using len inv(4) by (metis diff_self_eq_0 le_zero_eq)
  have bound: "bs_totout ?st + length (bs_buff ?st @ ?d) \<le> length S" using len inv(3) by simp
  show ?thesis
    by (rule SN_of_stream [OF assms(1)], unfold b)
      (use inv c e bound ByteStream_write_inv [OF inv(1), of d] in \<open>(simp; fail | auto)+\<close>)
qed

end
