(* ===== verification/Sending.thy ===== *)
theory Sending
  imports Transmission
begin

text \<open>
  What the sender promises. Every sequence of operations of an application that writes the
  stream \<open>S\<close> in order, of acknowledgments (any number, any order, any content) and of
  clock ticks keeps the invariant \<open>SN_of\<close> of the theory \<open>Transmission\<close>; each operation
  then has its contract: \<open>fill_window\<close> fills the window, \<open>ack_received\<close> erases exactly
  the acknowledged segments, \<open>tick\<close> retransmits the oldest segment with exponential
  back-off.
\<close>

section \<open>Operation sequences\<close>

text \<open>
  \<open>Snd_write n\<close> offers the next \<open>n\<close> bytes of \<open>S\<close> to the outgoing stream,
  \<open>Snd_end\<close> closes it once \<open>S\<close> has been accepted in full, and \<open>Snd_take\<close> takes the
  queued segments off the sender, as its owner does.
\<close>

datatype snd_op = Snd_write nat | Snd_end | Snd_fill | Snd_ack WrappingInt32 "16 word" | Snd_tick size_t
  | Snd_empty | Snd_take

definition snd_written :: "TCPSender \<Rightarrow> nat" where
  "snd_written sn = bs_totout (sn_stream sn) + length (bs_buff (sn_stream sn))"

fun snd_step :: "byte list \<Rightarrow> snd_op \<Rightarrow> TCPSender \<Rightarrow> TCPSender" where
  "snd_step S (Snd_write n) sn =
     sn\<lparr>sn_stream := fst (ByteStream_write (sn_stream sn) (chunk S (snd_written sn) n))\<rparr>"
| "snd_step S Snd_end sn =
     (if snd_written sn = length S then sn\<lparr>sn_stream := ByteStream_end_input (sn_stream sn)\<rparr> else sn)"
| "snd_step S Snd_fill sn = TCPSender_fill_window sn"
| "snd_step S (Snd_ack ackno window_size) sn = TCPSender_ack_received sn ackno window_size"
| "snd_step S (Snd_tick ms) sn = TCPSender_tick sn ms"
| "snd_step S Snd_empty sn = TCPSender_send_empty_segment sn"
| "snd_step S Snd_take sn = sn\<lparr>sn_segments_out := []\<rparr>"

text \<open>The window a peer can advertise has 16 bits.\<close>

definition SN_run :: "byte list \<Rightarrow> TCPSender \<Rightarrow> bool" where
  "SN_run S sn \<longleftrightarrow> SN_of S sn \<and> sn_win_size sn < 65536"

lemma win_size_kept [simp]:
  "sn_win_size (TCPSender_tick sn ms) = sn_win_size sn"
  "sn_win_size (TCPSender_send_empty_segment sn) = sn_win_size sn"
  by (auto simp: TCPSender_tick_def TCPSender_send_empty_segment_def Let_def split: list.splits)

lemma win_size_ack:
  assumes "SN_of S sn" and "length S + 2 < UINT_MOD" and "sn_win_size sn < 65536"
  shows "sn_win_size (TCPSender_ack_received sn ackno w) < 65536"
proof (cases "unwrap ackno (sn_isn sn) (sn_next_seqno sn) > sn_next_seqno sn")
  case False
  have w: "unat w < 65536" using unsigned_less [of w, where 'a = nat] by simp
  show ?thesis
    using SN_fill_window(2) [OF SN_acked(1) [OF assms(1,2)] assms(2)] False w
    by (simp add: TCPSender_ack_received_def Let_def filled_def)
qed (use assms(3) in \<open>simp add: TCPSender_ack_received_def\<close>)

lemma SN_run_new: "capacity < SIZE_MOD \<Longrightarrow> SN_run S (TCPSender_new capacity rto fixed rnd)"
  by (simp add: SN_run_def SN_of_new) (simp add: TCPSender_new_def)

lemma SN_run_step:
  assumes "SN_run S sn" and "length S + 2 < UINT_MOD"
  shows "SN_run S (snd_step S x sn)"
proof -
  have sn: "SN_of S sn" "sn_win_size sn < 65536" using assms(1) by (simp_all add: SN_run_def)
  show ?thesis
  proof (cases x)
    case (Snd_write n)
    then show ?thesis using SN_write [OF sn(1)] sn(2) by (simp add: SN_run_def snd_written_def)
  next
    case Snd_end
    then show ?thesis using SN_end_input [OF sn(1)] sn by (simp add: SN_run_def snd_written_def)
  next
    case Snd_fill
    then show ?thesis using SN_fill_window [OF sn(1) assms(2)] sn by (simp add: SN_run_def filled_def)
  next
    case (Snd_ack a w)
    then show ?thesis using SN_ack_received [OF sn(1) assms(2)] win_size_ack [OF sn(1) assms(2) sn(2)]
      by (simp add: SN_run_def)
  next
    case Snd_take
    then show ?thesis using SN_of_queue [OF sn(1), of "sn\<lparr>sn_segments_out := []\<rparr>"] sn(2)
      by (simp add: SN_run_def)
  qed (use sn SN_tick [OF sn(1)] SN_send_empty_segment [OF sn(1)] in \<open>simp_all add: SN_run_def\<close>)
qed

lemma SN_run_fold:
  "SN_run S sn \<Longrightarrow> length S + 2 < UINT_MOD \<Longrightarrow> SN_run S (fold (snd_step S) ops sn)"
  by (induction ops arbitrary: sn) (simp_all only: fold.simps id_apply comp_apply SN_run_step)

lemma contig_sum:
  "contig S isn lo l hi \<Longrightarrow> hi = lo + sum_list (map (seg_len \<circ> snd) l)"
  by (induction l arbitrary: lo) fastforce+

lemma snd_step_isn [simp]: "sn_isn (snd_step S x sn) = sn_isn sn"
proof (cases x)
  have loop: "sn_isn (TCPSender_fill_loop w sn) = sn_isn sn" for w sn
  proof (induction w sn rule: TCPSender_fill_loop.induct)
    case (1 w sn)
    obtain sn1 seg where m: "TCPSender_make_segment w sn = (sn1, seg)" by fastforce
    have "sn_isn sn1 = sn_isn sn" using make_segment_fields(4) [of w sn] m by simp
    then show ?case using 1 m by (subst TCPSender_fill_loop.simps) (simp add: Let_def)
  qed
  { case Snd_fill
    then show ?thesis using loop by (simp add: TCPSender_fill_window_def) }
  { case (Snd_ack a w)
    then show ?thesis using loop by (simp add: TCPSender_ack_received_def TCPSender_fill_window_def Let_def) }
qed (auto simp: TCPSender_tick_def TCPSender_send_empty_segment_def Let_def split: list.splits)

lemma snd_fold_isn [simp]: "sn_isn (fold (snd_step S) ops sn) = sn_isn sn"
  by (induction ops arbitrary: sn) auto

text \<open>
  C6. Invariant of the sender. Whatever sequence of writes, acknowledgments, ticks and window
  fillings it goes through, the outstanding segments tile the sequence space from
  the oldest unacknowledged number up to \<open>next_seqno\<close>, each with the bytes of the
  application's stream at its place; \<open>bytes_in_flight\<close> is the sum of their lengths; and
  every segment in the queue (new or retransmitted) is a true piece of that stream.
\<close>

theorem sender_invariant:
  assumes "length S + 2 < UINT_MOD" and "capacity < SIZE_MOD"
    and "sn = fold (snd_step S) ops (TCPSender_new capacity rto (Some isn) rnd)"
  shows "contig S isn (TCPSender_next_seqno_absolute sn - TCPSender_bytes_in_flight sn)
      (sn_segments_outgoing sn) (TCPSender_next_seqno_absolute sn) \<and>
    TCPSender_bytes_in_flight sn = sum_list (map (seg_len \<circ> snd) (sn_segments_outgoing sn)) \<and>
    (\<forall>seg \<in> set (sn_segments_out sn). seg_of S isn seg)"
proof -
  have "SN_of S sn" using SN_run_fold [OF SN_run_new [OF assms(2)] assms(1)] assms(3) by (simp add: SN_run_def)
  moreover have "sn_isn sn = isn" using assms(3) by (simp add: TCPSender_new_def)
  ultimately have c: "contig S isn (sn_next_seqno sn - sn_outgoing_bytes sn) (sn_segments_outgoing sn) (sn_next_seqno sn)"
    "sn_outgoing_bytes sn \<le> sn_next_seqno sn" "\<forall>seg \<in> set (sn_segments_out sn). seg_of S isn seg"
    unfolding SN_of_def by blast+
  then show ?thesis
    using contig_sum [OF c(1)] unfolding TCPSender_next_seqno_absolute_def TCPSender_bytes_in_flight_def by simp
qed

theorem sender_invariant_witness:
  "\<exists>sn. sn = fold (snd_step [1, 2, 3]) [Snd_write 2, Snd_fill, Snd_ack (WrappingInt32 8) 1, Snd_tick 1000, Snd_take, Snd_end]
       (TCPSender_new 10 500 (Some (WrappingInt32 7)) 0) \<and>
     TCPSender_bytes_in_flight sn = sum_list (map (seg_len \<circ> snd) (sn_segments_outgoing sn))"
  by (intro exI conjI, rule refl)
    (use sender_invariant [of "[1, 2, 3]" 10 _ "[Snd_write 2, Snd_fill, Snd_ack (WrappingInt32 8) 1, Snd_tick 1000, Snd_take, Snd_end]"
       500 "WrappingInt32 7" 0] in simp)

section \<open>Contracts of the operations\<close>

text \<open>
  C21. \<open>fill_window\<close> in a state of the invariant: it sends only new, non-empty segments of at
  most \<open>MAX_PAYLOAD_SIZE\<close> bytes, keeps the bytes in flight within the window (a zero window
  counts as one) plus at most one when the SYN is sent, and stops only when the window is full or
  when everything the application wrote, the FIN included, is on its way.
\<close>

theorem fill_window_fills:
  assumes "SN_of S sn" and "length S + 2 < UINT_MOD" and "sn_win_size sn < 65536"
    and "w = (if sn_win_size sn \<noteq> 0 then sn_win_size sn else 1)" and "sn' = TCPSender_fill_window sn"
  shows "(\<exists>segs. sn_segments_out sn' = sn_segments_out sn @ segs \<and>
        TCPSender_bytes_in_flight sn' = TCPSender_bytes_in_flight sn + sum_list (map seg_len segs) \<and>
        (\<forall>seg \<in> set segs. 0 < seg_len seg \<and> length (Buffer_str (seg_payload seg)) \<le> TCPConfig_MAX_PAYLOAD_SIZE)) \<and>
     TCPSender_bytes_in_flight sn' \<le> max (TCPSender_bytes_in_flight sn) (w + (if sn_syn sn then 0 else 1)) \<and>
     (w \<le> TCPSender_bytes_in_flight sn' \<or> sn_syn sn' \<and> bs_buff (sn_stream sn') = [] \<and>
        (bs_isInputEnd (sn_stream sn') \<longrightarrow> sn_fin sn'))"
proof -
  have "filled w sn sn'" using SN_fill_window(2) [OF assms(1,2)] assms(3-5) by simp
  then show ?thesis unfolding filled_def TCPSender_bytes_in_flight_def by blast
qed

lemma SN_sample: "SN_of [1, 2, 3] (snd_step [1, 2, 3] (Snd_write 2) (TCPSender_new 10 500 (Some (WrappingInt32 7)) 0))"
  using SN_run_step [OF SN_run_new, of 10 "[1, 2, 3]" "Snd_write 2"] by (simp add: SN_run_def)

theorem fill_window_fills_witness:
  "1 \<le> TCPSender_bytes_in_flight (TCPSender_fill_window
      (snd_step [1, 2, 3] (Snd_write 2) (TCPSender_new 10 500 (Some (WrappingInt32 7)) 0))) \<or>
   sn_syn (TCPSender_fill_window (snd_step [1, 2, 3] (Snd_write 2) (TCPSender_new 10 500 (Some (WrappingInt32 7)) 0)))"
  using fill_window_fills [OF SN_sample _ _ refl refl] by (auto simp: TCPSender_new_def)

text \<open>What the loop adds to the map goes behind what is there.\<close>

lemma fill_loop_appends:
  assumes "SN_of S sn" and "length S + 2 < UINT_MOD" and "w < SIZE_MOD"
  shows "\<exists>l. sn_segments_outgoing (TCPSender_fill_loop w sn) = sn_segments_outgoing sn @ l \<and>
      (\<forall>(k, seg) \<in> set l. sn_next_seqno sn \<le> k) \<and>
      sn_consecutive_retransmissions (TCPSender_fill_loop w sn) = sn_consecutive_retransmissions sn"
    (is "?P sn (TCPSender_fill_loop w sn)")
  using assms
proof (induction w sn rule: TCPSender_fill_loop.induct)
  case (1 w sn)
  obtain sn1 seg where m: "TCPSender_make_segment w sn = (sn1, seg)" by fastforce
  let ?s = "TCPSender_send_segment sn1 seg"
  have "sn_consecutive_retransmissions (fst (TCPSender_make_segment w sn)) = sn_consecutive_retransmissions sn"
    by (simp add: TCPSender_make_segment_def Let_def case_prod_beta)
  then have c: "sn_consecutive_retransmissions sn1 = sn_consecutive_retransmissions sn"
    "sn_consecutive_retransmissions ?s = sn_consecutive_retransmissions sn"
    using m by (simp_all add: TCPSender_send_segment_def Let_def)
  note f = make_segment_fields [of w sn, unfolded m fst_conv]
  have old: "contig S (sn_isn sn) (sn_next_seqno sn - sn_outgoing_bytes sn) (sn_segments_outgoing sn) (sn_next_seqno sn)"
    using "1.prems"(1) unfolding SN_of_def by blast
  have one: "sn_segments_outgoing ?s = sn_segments_outgoing sn @ [(sn_next_seqno sn, seg)]"
    using contig_insert [OF old] by (simp add: f)
  show ?case
  proof (cases "w > sn_outgoing_bytes sn \<and> TCPSegment_length_in_sequence_space seg \<noteq> 0")
    case False
    then show ?thesis using m c f by (subst (1 2) TCPSender_fill_loop.simps) auto
  next
    case go: True
    note bd = SN_made_bound [OF "1.prems"(1) _ "1.prems"(3) m]
    have sent: "seg_len seg \<noteq> 0" using go bd(1) length_in_sequence_space_eq by simp
    note s = SN_sent [OF "1.prems"(1,2) _ "1.prems"(3) m sent]
    have loop: "TCPSender_fill_loop w sn = (if th_fin (seg_header seg) then ?s else TCPSender_fill_loop w ?s)"
      using go m by (subst TCPSender_fill_loop.simps) simp
    show ?thesis
    proof (cases "th_fin (seg_header seg)")
      case False
      then have "?P ?s (TCPSender_fill_loop w ?s)"
        using "1.IH" [OF _ m [symmetric] refl _ refl False s(1) "1.prems"(2,3)] go by simp
      then obtain l where "sn_segments_outgoing (TCPSender_fill_loop w ?s) = sn_segments_outgoing ?s @ l"
        "\<forall>(k, seg) \<in> set l. sn_next_seqno ?s \<le> k"
        "sn_consecutive_retransmissions (TCPSender_fill_loop w ?s) = sn_consecutive_retransmissions ?s" by blast
      moreover have "sn_next_seqno sn \<le> sn_next_seqno ?s" using s(3) go by simp
      ultimately show ?thesis using loop False one c
        by (intro exI [of _ "(sn_next_seqno sn, seg) # l"]) (auto intro: order_trans)
    qed (use loop one c in simp)
  qed
qed

text \<open>The entries are in key order, so the front that is erased is all that is acknowledged.\<close>

lemma contig_keys: "contig S isn lo l hi \<Longrightarrow> x \<in> set l \<Longrightarrow> lo \<le> fst x"
  by (induction l arbitrary: lo) fastforce+

lemma acked_off_filter:
  "contig S isn lo l hi \<Longrightarrow> acked_off a l = filter (\<lambda>(k, seg). a < k + seg_len seg) l"
proof (induction S isn lo l hi rule: contig.induct)
  case (2 S isn lo k seg l hi)
  have "lo + seg_len seg \<le> fst x" if "x \<in> set l" for x
    using contig_keys [OF _ that] "2.prems" by auto
  then have "a < k + seg_len seg \<Longrightarrow> filter (\<lambda>(k, seg). a < k + seg_len seg) l = l"
    using "2.prems" by (intro filter_True) fastforce
  then show ?case using 2 by (auto simp: acked_off_def)
qed (simp add: acked_off_def)

text \<open>What an acceptable acknowledgment leaves outstanding.\<close>

lemma ack_outgoing:
  assumes "SN_of S sn" and "length S + 2 < UINT_MOD"
    and "\<bar>int a - int (sn_next_seqno sn)\<bar> < 2147483648" and "a \<le> sn_next_seqno sn"
    and "sn' = TCPSender_ack_received sn (wrap a (sn_isn sn)) w"
  obtains l where
    "sn_segments_outgoing sn' = filter (\<lambda>(k, seg). a < k + seg_len seg) (sn_segments_outgoing sn) @ l"
    "\<forall>(k, seg) \<in> set l. sn_next_seqno sn \<le> k" "sn_win_size sn' = unat w" "sn_consecutive_retransmissions sn' = 0"
proof -
  let ?n = "sn_next_seqno sn"
  let ?sn = "(TCPSender_ack_loop (sn_segments_outgoing sn) a sn)\<lparr>sn_win_size := unat w, sn_consecutive_retransmissions := 0\<rparr>"
  have n: "?n < UINT_MOD" using SN_next_bound [OF assms(1)] assms(2) by simp
  have u: "unwrap (wrap a (sn_isn sn)) (sn_isn sn) ?n = a" using unwrap_unique [of ?n a "sn_isn sn"] n assms(3) by simp
  have w: "unat w < SIZE_MOD" using unsigned_less [of w, where 'a = nat] by simp
  have c: "contig S (sn_isn sn) (?n - sn_outgoing_bytes sn) (sn_segments_outgoing sn) ?n"
    using assms(1) unfolding SN_of_def by blast
  note a = SN_acked [OF assms(1,2), where a = a and w = "unat w"]
  have sn': "sn' = TCPSender_fill_window ?sn"
    using assms(4,5) u by (simp add: TCPSender_ack_received_def Let_def)
  have "sn_win_size sn' = unat w"
    unfolding sn' using SN_fill_window(2) [OF a(1) assms(2)] w by (simp add: filled_def)
  moreover have "\<exists>l. sn_segments_outgoing sn' = sn_segments_outgoing ?sn @ l \<and>
      (\<forall>(k, seg) \<in> set l. ?n \<le> k) \<and> sn_consecutive_retransmissions sn' = 0"
    unfolding sn' using fill_loop_appends [OF a(1) assms(2), of "effective_window ?sn"] w
    by (simp add: TCPSender_fill_window_def)
  ultimately show ?thesis using that a(2) acked_off_filter [OF c, of a] by auto
qed



text \<open>
  C23. Exponential back-off. With a segment outstanding and a non-zero window, \<open>n\<close> timer
  expirations in a row put the oldest outstanding segment into the queue \<open>n\<close> times,
  double the timeout each time and count \<open>n\<close> consecutive retransmissions, as long as the
  32-bit counters do not overflow; a tick that stays below the timeout sends nothing.
\<close>

theorem tick_backoff:
  assumes "sn_segments_outgoing sn = (k, seg) # l" and "sn_win_size sn > 0" and "sn_retransmission_timecount sn = 0"
    and "sn_retransmission_timeout sn * 2 ^ n < UINT_MOD" and "sn_consecutive_retransmissions sn + n < UINT_MOD"
    and "sn' = ((\<lambda>sn. TCPSender_tick sn (sn_retransmission_timeout sn)) ^^ n) sn"
    and "ms < sn_retransmission_timeout sn * 2 ^ n"
  shows "sn_segments_out sn' = sn_segments_out sn @ replicate n seg \<and>
    sn_retransmission_timeout sn' = sn_retransmission_timeout sn * 2 ^ n \<and>
    TCPSender_consecutive_retransmissions sn' = TCPSender_consecutive_retransmissions sn + n \<and>
    sn_segments_out (TCPSender_tick sn' ms) = sn_segments_out sn'"
proof -
  let ?f = "\<lambda>sn. TCPSender_tick sn (sn_retransmission_timeout sn)"
  have step: "(?f ^^ m) sn = sn\<lparr>sn_segments_out := sn_segments_out sn @ replicate m seg,
      sn_retransmission_timeout := sn_retransmission_timeout sn * 2 ^ m, sn_retransmission_timecount := 0,
      sn_consecutive_retransmissions := sn_consecutive_retransmissions sn + m\<rparr>" if "m \<le> n" for m
    using that
  proof (induction m)
    case (Suc m)
    have "sn_retransmission_timeout sn * 2 ^ Suc m \<le> sn_retransmission_timeout sn * 2 ^ n"
      using Suc.prems by (intro mult_le_mono2 power_increasing) auto
    then have "sn_retransmission_timeout sn * 2 ^ Suc m < UINT_MOD" using assms(4) by (rule le_less_trans)
    then have "sn_retransmission_timeout sn * 2 ^ m * 2 < UINT_MOD" "sn_retransmission_timeout sn * 2 ^ m < UINT_MOD"
      by simp_all
    then show ?case
      using Suc assms(1-3,5) by (simp add: TCPSender_tick_def trunc32_def Let_def replicate_append_same ac_simps)
  qed (use assms(3) in simp)
  have t: "sn_retransmission_timeout sn' = sn_retransmission_timeout sn * 2 ^ n" "sn_retransmission_timecount sn' = 0"
    using step [of n] assms(6) by simp_all
  have "sn_segments_out (TCPSender_tick sn' ms) = sn_segments_out sn'"
    using t assms(4,7) by (simp add: TCPSender_tick_def trunc32_def Let_def)
  then show ?thesis using step [of n] assms(6) t(1) by (simp add: TCPSender_consecutive_retransmissions_def)
qed

theorem tick_backoff_witness:
  "\<exists>sn. sn_segments_out sn = [] \<and> sn_retransmission_timeout sn = 500 \<and>
     length (sn_segments_out (((\<lambda>sn. TCPSender_tick sn (sn_retransmission_timeout sn)) ^^ 3) sn)) = 3 \<and>
     sn_retransmission_timeout (((\<lambda>sn. TCPSender_tick sn (sn_retransmission_timeout sn)) ^^ 3) sn) = 4000"
proof -
  let ?seg = "\<lparr>seg_header = TCPHeader_default\<lparr>th_syn := True\<rparr>, seg_payload = Buffer_of []\<rparr>"
  let ?sn = "(TCPSender_new 10 500 (Some (WrappingInt32 7)) 0)\<lparr>sn_retransmission_timeout := 500,
      sn_segments_outgoing := [(0, ?seg)]\<rparr>"
  have h: "sn_segments_outgoing ?sn = (0, ?seg) # []" "sn_win_size ?sn > 0" "sn_retransmission_timecount ?sn = 0"
    "sn_retransmission_timeout ?sn * 2 ^ 3 < UINT_MOD" "sn_consecutive_retransmissions ?sn + 3 < UINT_MOD"
    "0 < sn_retransmission_timeout ?sn * 2 ^ 3" "sn_segments_out ?sn = []" "sn_retransmission_timeout ?sn = 500"
    by (simp_all add: TCPSender_new_def)
  show ?thesis using tick_backoff [OF h(1-5) refl h(6)] h(7,8) by (intro exI [of _ ?sn]) auto
qed

text \<open>
  C33. The FIN does not count the SYN. When the SYN has not been sent yet, and the closed stream
  has exactly \<open>w - 1\<close> bytes left, one segment carries SYN, data and FIN, and the
  receiver's window of \<open>w\<close> is exceeded by one.
\<close>

theorem syn_fin_exceeds_window:
  assumes "\<not> sn_syn sn" and "\<not> sn_fin sn" and "sn_outgoing_bytes sn = 0"
    and "ByteStream_input_ended (sn_stream sn)" and "length (bs_buff (sn_stream sn)) + 1 = sn_win_size sn"
    and "sn_win_size sn \<le> TCPConfig_MAX_PAYLOAD_SIZE"
  shows "TCPSender_bytes_in_flight (TCPSender_fill_window sn) = sn_win_size sn + 1"
proof -
  obtain sn1 seg where m: "TCPSender_make_segment (sn_win_size sn) sn = (sn1, seg)" by fastforce
  note p = make_segment_parts [of "sn_win_size sn" sn, unfolded m fst_conv snd_conv]
  have w: "0 < sn_win_size sn" "sn_win_size sn \<le> 1000" "length (bs_buff (sn_stream sn)) = sn_win_size sn - 1"
    using assms(5,6) by (auto simp: TCPConfig_MAX_PAYLOAD_SIZE_def)
  have room: "payload_room (sn_win_size sn) sn = length (bs_buff (sn_stream sn))"
    using w assms(1,3) by (simp add: payload_room_def TCPConfig_MAX_PAYLOAD_SIZE_def sub64_eq)
  have fin: "th_fin (seg_header seg)" "th_syn (seg_header seg)" "Buffer_str (seg_payload seg) = bs_buff (sn_stream sn)"
    using p room w assms(1-4) by (simp_all add: add64_eq ByteStream_accessors)
  then have "TCPSegment_length_in_sequence_space seg = sn_win_size sn + 1"
    using w length_in_sequence_space_eq [of seg] by (simp add: seg_len_def TCPConfig_MAX_PAYLOAD_SIZE_def)
  moreover have "sn_outgoing_bytes sn1 = 0"
    using make_segment_fields(2) [of "sn_win_size sn" sn] m assms(3) by simp
  ultimately show ?thesis using w m fin assms(3)
    by (simp add: TCPSender_fill_window_def TCPSender_bytes_in_flight_def add64_eq)
      (subst TCPSender_fill_loop.simps, simp add: add64_eq)
qed

theorem syn_fin_exceeds_window_witness:
  "TCPSender_bytes_in_flight (TCPSender_fill_window ((TCPSender_new 10 500 (Some (WrappingInt32 7)) 0)
     \<lparr>sn_stream := ByteStream_end_input (ByteStream_new 10)\<rparr>)) = 2"
  using syn_fin_exceeds_window [of "(TCPSender_new 10 500 (Some (WrappingInt32 7)) 0)
     \<lparr>sn_stream := ByteStream_end_input (ByteStream_new 10)\<rparr>"]
  by (simp add: TCPSender_new_def ByteStream_new_def ByteStream_end_input_def ByteStream_accessors TCPConfig_MAX_PAYLOAD_SIZE_def)

end
