(* ===== verification/Tcp_Connection.thy ===== *)
theory Tcp_Connection
  imports Tcp_State Sending
begin

text \<open>
  \<open>TCPConnection\<close> (\<open>libsponge/tcp_connection.hh\<close>, \<open>tcp_connection.cc\<close>): one endpoint, the
  composition of a sender and a receiver. Each method is one definition; \<open>segment_received\<close>
  is the whole chain of its branches in the order of the code. A method that may throw
  returns a \<open>res\<close> value. The lemmas at the end are the invariant of an endpoint that sends
  the stream \<open>S\<close> and receives the stream \<open>R\<close>, kept by every method.
\<close>

section \<open>The class\<close>

record TCPConnection =
  cn_time_since_last_segment_received :: size_t
  cn_active :: bool
  cn_cfg :: TCPConfig
  cn_receiver :: TCPReceiver
  cn_sender :: TCPSender
  cn_segments_out :: "TCPSegment list"
  cn_linger_after_streams_finish :: bool

definition TCPConnection_new :: "TCPConfig \<Rightarrow> 32 word \<Rightarrow> TCPConnection" where
  "TCPConnection_new cfg random_device =
     \<lparr>cn_time_since_last_segment_received = 0, cn_active = True, cn_cfg = cfg,
      cn_receiver = TCPReceiver_new (cfg_recv_capacity cfg),
      cn_sender = TCPSender_new (cfg_send_capacity cfg) (cfg_rt_timeout cfg) (cfg_fixed_isn cfg) random_device,
      cn_segments_out = [], cn_linger_after_streams_finish = True\<rparr>"

definition TCPConnection_remaining_outbound_capacity :: "TCPConnection \<Rightarrow> size_t" where
  "TCPConnection_remaining_outbound_capacity c = ByteStream_remaining_capacity (sn_stream (cn_sender c))"

definition TCPConnection_bytes_in_flight :: "TCPConnection \<Rightarrow> size_t" where
  "TCPConnection_bytes_in_flight c = TCPSender_bytes_in_flight (cn_sender c)"

definition TCPConnection_unassembled_bytes :: "TCPConnection \<Rightarrow> size_t" where
  "TCPConnection_unassembled_bytes c = TCPReceiver_unassembled_bytes (cn_receiver c)"

definition TCPConnection_time_since_last_segment_received :: "TCPConnection \<Rightarrow> size_t" where
  "TCPConnection_time_since_last_segment_received c = cn_time_since_last_segment_received c"

definition TCPConnection_active :: "TCPConnection \<Rightarrow> bool" where
  "TCPConnection_active c = cn_active c"

definition TCPConnection_inbound_stream :: "TCPConnection \<Rightarrow> ByteStream" where
  "TCPConnection_inbound_stream c = TCPReceiver_stream_out (cn_receiver c)"

definition TCPConnection_state :: "TCPConnection \<Rightarrow> TCPState" where
  "TCPConnection_state c =
     TCPState_new (cn_sender c) (cn_receiver c) (TCPConnection_active c) (cn_linger_after_streams_finish c)"

text \<open>The members that \<open>_sender.stream_in()\<close> and \<open>_receiver.stream_out()\<close> give access to.\<close>

definition sender_set_error :: "TCPSender \<Rightarrow> TCPSender" where
  "sender_set_error sn = sn\<lparr>sn_stream := ByteStream_set_error (sn_stream sn)\<rparr>"

definition receiver_set_error :: "TCPReceiver \<Rightarrow> TCPReceiver" where
  "receiver_set_error rc =
     rc\<lparr>rc_reassembler := (rc_reassembler rc)\<lparr>sr_output := ByteStream_set_error (sr_output (rc_reassembler rc))\<rparr>\<rparr>"

section \<open>Sending\<close>

text \<open>
  \<open>send_segments\<close>: every queued segment gets the acknowledgment and the window (a \<open>size_t\<close>
  stored into 16 bits), then the end of the connection is decided.
\<close>

definition stamp_segment :: "TCPReceiver \<Rightarrow> TCPSegment \<Rightarrow> TCPSegment" where
  "stamp_segment rc seg =
     (case TCPReceiver_ackno rc of
        Some a \<Rightarrow> seg\<lparr>seg_header := (seg_header seg)
          \<lparr>th_ack := True, th_ackno := a, th_win := of_nat (TCPReceiver_window_size rc)\<rparr>\<rparr>
      | None \<Rightarrow> seg)"

fun TCPConnection_drain :: "TCPSegment list \<Rightarrow> TCPConnection \<Rightarrow> TCPConnection" where
  "TCPConnection_drain [] c = c\<lparr>cn_sender := (cn_sender c)\<lparr>sn_segments_out := []\<rparr>\<rparr>"
| "TCPConnection_drain (seg # q) c =
     TCPConnection_drain q (c\<lparr>cn_segments_out := cn_segments_out c @ [stamp_segment (cn_receiver c) seg]\<rparr>)"

definition TCPConnection_send_segments :: "TCPConnection \<Rightarrow> TCPConnection" where
  "TCPConnection_send_segments c =
     (let c = TCPConnection_drain (sn_segments_out (cn_sender c)) c
      in if ByteStream_input_ended (TCPReceiver_stream_out (cn_receiver c)) then
           if \<not> ByteStream_eof (sn_stream (cn_sender c)) then c\<lparr>cn_linger_after_streams_finish := False\<rparr>
           else if TCPSender_bytes_in_flight (cn_sender c) = 0 then
             if \<not> cn_linger_after_streams_finish c \<or>
                cn_time_since_last_segment_received c \<ge> 10 * cfg_rt_timeout (cn_cfg c)
             then c\<lparr>cn_active := False\<rparr> else c
           else c
         else c)"

definition TCPConnection_reset_connection :: "TCPConnection \<Rightarrow> TCPConnection" where
  "TCPConnection_reset_connection c =
     (let seg = TCPSegment_default\<lparr>seg_header := (seg_header TCPSegment_default)\<lparr>th_rst := True\<rparr>\<rparr>
      in c\<lparr>cn_receiver := receiver_set_error (cn_receiver c), cn_sender := sender_set_error (cn_sender c),
           cn_active := False, cn_segments_out := cn_segments_out c @ [seg]\<rparr>)"

definition TCPConnection_connect :: "TCPConnection \<Rightarrow> TCPConnection" where
  "TCPConnection_connect c =
     TCPConnection_send_segments (c\<lparr>cn_sender := TCPSender_fill_window (cn_sender c)\<rparr>)"

definition TCPConnection_write :: "TCPConnection \<Rightarrow> byte list \<Rightarrow> TCPConnection \<times> size_t" where
  "TCPConnection_write c data =
     (if data = [] then (c, 0)
      else
        let (stream, writeByte) = ByteStream_write (sn_stream (cn_sender c)) data;
            c = c\<lparr>cn_sender := TCPSender_fill_window ((cn_sender c)\<lparr>sn_stream := stream\<rparr>)\<rparr>
        in (TCPConnection_send_segments c, writeByte))"

definition TCPConnection_end_input_stream :: "TCPConnection \<Rightarrow> TCPConnection" where
  "TCPConnection_end_input_stream c =
     (let sn = (cn_sender c)\<lparr>sn_stream := ByteStream_end_input (sn_stream (cn_sender c))\<rparr>
      in TCPConnection_send_segments (c\<lparr>cn_sender := TCPSender_fill_window sn\<rparr>))"

definition TCPConnection_tick :: "TCPConnection \<Rightarrow> size_t \<Rightarrow> TCPConnection" where
  "TCPConnection_tick c ms_since_last_tick =
     (if \<not> cn_active c then c
      else
        let c = c\<lparr>cn_time_since_last_segment_received :=
                    add64 (cn_time_since_last_segment_received c) ms_since_last_tick,
                  cn_sender := TCPSender_tick (cn_sender c) ms_since_last_tick\<rparr>
        in if TCPSender_consecutive_retransmissions (cn_sender c) > TCPConfig_MAX_RETX_ATTEMPTS
           then TCPConnection_reset_connection c
           else TCPConnection_send_segments c)"

text \<open>The destructor only warns: no segment is queued.\<close>

definition TCPConnection_destroy :: "TCPConnection \<Rightarrow> TCPConnection \<times> string" where
  "TCPConnection_destroy c =
     (c, if TCPConnection_active c then ''Warning: Unclean shutdown of TCPConnection'' @ [CHR 0x0A] else [])"

section \<open>Receiving\<close>

text \<open>The calls \<open>_sender.ack_received(...); _receiver.segment_received(seg)\<close>, in that order.\<close>

definition cn_take_ack :: "TCPSegment \<Rightarrow> TCPConnection \<Rightarrow> TCPConnection" where
  "cn_take_ack seg c =
     c\<lparr>cn_sender := TCPSender_ack_received (cn_sender c) (th_ackno (seg_header seg)) (th_win (seg_header seg))\<rparr>"

definition cn_take_segment :: "TCPSegment \<Rightarrow> TCPConnection \<Rightarrow> TCPConnection res" where
  "cn_take_segment seg c =
     bindR (TCPReceiver_segment_received (cn_receiver c) seg) (\<lambda>rc. Inr (c\<lparr>cn_receiver := rc\<rparr>))"

definition cn_empty_segment :: "TCPConnection \<Rightarrow> TCPConnection" where
  "cn_empty_segment c = c\<lparr>cn_sender := TCPSender_send_empty_segment (cn_sender c)\<rparr>"

definition cn_fill_window :: "TCPConnection \<Rightarrow> TCPConnection" where
  "cn_fill_window c = c\<lparr>cn_sender := TCPSender_fill_window (cn_sender c)\<rparr>"

definition TCPConnection_segment_received :: "TCPConnection \<Rightarrow> TCPSegment \<Rightarrow> TCPConnection res" where
  "TCPConnection_segment_received c seg =
     (if \<not> cn_active c then Inr c
      else
        let c = c\<lparr>cn_time_since_last_segment_received := 0\<rparr>;
            header = seg_header seg;
            next_seqno = TCPSender_next_seqno_absolute (cn_sender c);
            in_flight = TCPSender_bytes_in_flight (cn_sender c);
            stream_in = sn_stream (cn_sender c);
            has_ackno = (TCPReceiver_ackno (cn_receiver c) \<noteq> None);
            input_ended = ByteStream_input_ended (TCPReceiver_stream_out (cn_receiver c));
            all_sent = (ByteStream_eof stream_in \<and>
              next_seqno = add64 (ByteStream_bytes_written stream_in) 2)
        in if th_rst header then
             Inr (c\<lparr>cn_sender := sender_set_error (cn_sender c),
                    cn_receiver := receiver_set_error (cn_receiver c), cn_active := False\<rparr>)
           else if next_seqno = 0 then
             if th_syn header then bindR (cn_take_segment seg c) (\<lambda>c. Inr (TCPConnection_connect c))
             else Inr c
           else if next_seqno = in_flight \<and> \<not> has_ackno then
             if th_syn header \<and> th_ack header then
               bindR (cn_take_segment seg (cn_take_ack seg c))
                 (\<lambda>c. Inr (TCPConnection_send_segments (cn_empty_segment c)))
             else if th_syn header \<and> \<not> th_ack header then
               bindR (cn_take_segment seg c) (\<lambda>c. Inr (TCPConnection_send_segments (cn_empty_segment c)))
             else Inr c
           else if next_seqno = in_flight \<and> has_ackno \<and> \<not> input_ended then
             cn_take_segment seg (cn_take_ack seg c)
           else if next_seqno > in_flight \<and> \<not> ByteStream_eof stream_in then
             bindR (cn_take_segment seg (cn_take_ack seg c))
               (\<lambda>c. let c = (if TCPSegment_length_in_sequence_space seg > 0 then cn_empty_segment c else c)
                    in Inr (TCPConnection_send_segments (cn_fill_window c)))
           else if all_sent \<and> in_flight > 0 \<and> \<not> input_ended then
             if th_fin header then
               bindR (cn_take_segment seg (cn_take_ack seg c))
                 (\<lambda>c. Inr (TCPConnection_send_segments (cn_empty_segment c)))
             else if th_ack header then
               bindR (cn_take_segment seg (cn_take_ack seg c)) (\<lambda>c. Inr (TCPConnection_send_segments c))
             else Inr c
           else if all_sent \<and> in_flight = 0 \<and> \<not> input_ended then
             bindR (cn_take_segment seg (cn_take_ack seg c))
               (\<lambda>c. Inr (TCPConnection_send_segments (cn_empty_segment c)))
           else if all_sent \<and> in_flight = 0 \<and> input_ended then
             if th_fin header then
               bindR (cn_take_segment seg (cn_take_ack seg c))
                 (\<lambda>c. Inr (TCPConnection_send_segments (cn_empty_segment c)))
             else Inr c
           else
             bindR (cn_take_segment seg (cn_take_ack seg c))
               (\<lambda>c. Inr (TCPConnection_send_segments (cn_fill_window c))))"

section \<open>The invariant of an endpoint\<close>

text \<open>
  \<open>CN_of S R i j n c\<close>: the endpoint sends the stream \<open>S\<close> numbered from \<open>i\<close> and
  receives the stream \<open>R\<close> numbered from \<open>j\<close>, of which the application has read \<open>n\<close>
  bytes; everything it has queued for the network
  is a piece of \<open>S\<close>.
\<close>

definition CN_of :: "byte list \<Rightarrow> byte list \<Rightarrow> WrappingInt32 \<Rightarrow> WrappingInt32 \<Rightarrow> nat \<Rightarrow>
    TCPConnection \<Rightarrow> bool" where
  "CN_of S R i j n c \<longleftrightarrow> SN_run S (cn_sender c) \<and> sn_isn (cn_sender c) = i \<and> RC_of R j (cn_receiver c) \<and>
     bs_totout (TCPReceiver_stream_out (cn_receiver c)) = n \<and>
     (\<forall>seg \<in> set (cn_segments_out c). seg_of S i seg)"

declare CN_of_def [inv_defs]

lemma SN_run_ops:
  assumes "SN_run S sn" and "length S + 2 < UINT_MOD"
  shows "SN_run S (TCPSender_fill_window sn)" "SN_run S (TCPSender_ack_received sn a w)"
    "SN_run S (TCPSender_tick sn ms)" "SN_run S (TCPSender_send_empty_segment sn)"
    "SN_run S (sn\<lparr>sn_segments_out := []\<rparr>)"
  using SN_run_step [OF assms, of Snd_fill] SN_run_step [OF assms, of "Snd_ack a w"]
    SN_run_step [OF assms, of "Snd_tick ms"] SN_run_step [OF assms, of Snd_empty] SN_run_step [OF assms, of Snd_take]
  by simp_all

lemma isn_kept [simp]:
  "sn_isn (TCPSender_fill_window sn) = sn_isn sn" "sn_isn (TCPSender_ack_received sn a w) = sn_isn sn"
  "sn_isn (TCPSender_tick sn ms) = sn_isn sn" "sn_isn (TCPSender_send_empty_segment sn) = sn_isn sn"
  using snd_step_isn [of "[]" Snd_fill sn] snd_step_isn [of "[]" "Snd_ack a w" sn]
    snd_step_isn [of "[]" "Snd_tick ms" sn] snd_step_isn [of "[]" Snd_empty sn]
  by simp_all

lemma SN_run_set_error: "SN_run S (sender_set_error sn) = SN_run S sn"
  by (simp add: SN_run_def SN_of_def sender_set_error_def)
     (simp add: ByteStream_set_error_def)

lemma RC_of_set_error: "RC_of R j (receiver_set_error rc) = RC_of R j rc"
  by (simp add: RC_of_def SR_of_def SR_inv_def SR_core_def sr_next_def sr_limit_def receiver_set_error_def)
     (simp add: ByteStream_set_error_def)

lemma seg_of_stamp [simp]: "seg_of S i (stamp_segment rc seg) = seg_of S i seg"
  by (simp add: stamp_segment_def seg_of_def split: option.split)

lemma drain_eq:
  "TCPConnection_drain q c = c\<lparr>cn_sender := (cn_sender c)\<lparr>sn_segments_out := []\<rparr>,
     cn_segments_out := cn_segments_out c @ map (stamp_segment (cn_receiver c)) q\<rparr>"
  by (induction q c rule: TCPConnection_drain.induct) simp_all

lemma send_segments_fields [simp]:
  "cn_sender (TCPConnection_send_segments c) = (cn_sender c)\<lparr>sn_segments_out := []\<rparr>"
  "cn_receiver (TCPConnection_send_segments c) = cn_receiver c"
  "cn_segments_out (TCPConnection_send_segments c) =
     cn_segments_out c @ map (stamp_segment (cn_receiver c)) (sn_segments_out (cn_sender c))"
  "cn_cfg (TCPConnection_send_segments c) = cn_cfg c"
  "cn_time_since_last_segment_received (TCPConnection_send_segments c) = cn_time_since_last_segment_received c"
  by (simp_all add: TCPConnection_send_segments_def drain_eq Let_def)

lemma CN_send_segments:
  assumes "CN_of S R i j n c" and "length S + 2 < UINT_MOD"
  shows "CN_of S R i j n (TCPConnection_send_segments c)"
proof -
  have "SN_run S (cn_sender c)" using assms(1) by (simp add: CN_of_def)
  moreover from this have "\<forall>seg \<in> set (sn_segments_out (cn_sender c)). seg_of S (sn_isn (cn_sender c)) seg"
    unfolding SN_run_def SN_of_def by blast
  ultimately show ?thesis using assms SN_run_ops(5) by (auto simp: CN_of_def)
qed

lemma CN_parts:
  assumes "CN_of S R i j n c" and "length S + 2 < UINT_MOD"
  shows "CN_of S R i j n (cn_take_ack seg c)" "CN_of S R i j n (cn_empty_segment c)"
    "CN_of S R i j n (cn_fill_window c)" "CN_of S R i j n (c\<lparr>cn_time_since_last_segment_received := t\<rparr>)"
  using assms SN_run_ops [OF _ assms(2)]
  by (simp_all add: CN_of_def cn_take_ack_def cn_empty_segment_def cn_fill_window_def)

lemma connect_eq: "TCPConnection_connect c = TCPConnection_send_segments (cn_fill_window c)"
  by (simp add: TCPConnection_connect_def cn_fill_window_def)

text \<open>The result of a method that may throw: no exception, and the invariant still holds.\<close>

definition CN_res :: "byte list \<Rightarrow> byte list \<Rightarrow> WrappingInt32 \<Rightarrow> WrappingInt32 \<Rightarrow> nat \<Rightarrow> TCPConnection res \<Rightarrow> bool" where
  "CN_res S R i j n x \<longleftrightarrow> (\<exists>c. x = Inr c \<and> CN_of S R i j n c)"

lemma CN_res_Inr [simp]: "CN_res S R i j n (Inr c) = CN_of S R i j n c"
  by (simp add: CN_res_def)

lemma CN_res_bind:
  "CN_res S R i j n x \<Longrightarrow> (\<And>c. CN_of S R i j n c \<Longrightarrow> CN_res S R i j n (f c)) \<Longrightarrow> CN_res S R i j n (bindR x f)"
  by (auto simp: CN_res_def)

lemma CN_if:
  "CN_res S R i j n x \<Longrightarrow> CN_res S R i j n y \<Longrightarrow> CN_res S R i j n (if b then x else y)"
  "CN_of S R i j n c \<Longrightarrow> CN_of S R i j n d \<Longrightarrow> CN_of S R i j n (if b then c else d)"
  by simp_all

lemma CN_take_segment:
  assumes "CN_of S R i j n c" and "seg_of R j seg" and "length R < 4294967295"
  shows "CN_res S R i j n (cn_take_segment seg c)"
proof -
  have "RC_of R j (cn_receiver c)" using assms(1) by (simp add: CN_of_def)
  from RC_of_segment [OF this assms(2,3)] obtain rc where
    "TCPReceiver_segment_received (cn_receiver c) seg = Inr rc" "RC_of R j rc"
    "bs_totout (sr_output (rc_reassembler rc)) = bs_totout (sr_output (rc_reassembler (cn_receiver c)))" by metis
  then show ?thesis using assms(1)
    by (simp add: cn_take_segment_def CN_of_def TCPReceiver_stream_out_def)
qed

lemma CN_set_error:
  "CN_of S R i j n (c\<lparr>cn_sender := sender_set_error (cn_sender c), cn_receiver := receiver_set_error (cn_receiver c),
     cn_active := False\<rparr>) = CN_of S R i j n c"
  by (simp add: CN_of_def SN_run_set_error RC_of_set_error)
     (simp add: sender_set_error_def receiver_set_error_def TCPReceiver_stream_out_def ByteStream_set_error_def)

lemma CN_segment_received:
  assumes "CN_of S R i j n c" and "seg_of R j seg" and "length S + 2 < UINT_MOD" and "length R < 4294967295"
  shows "CN_res S R i j n (TCPConnection_segment_received c seg)"
proof -
  let ?c = "c\<lparr>cn_time_since_last_segment_received := 0\<rparr>"
  note P = CN_parts [OF _ assms(3)]
  have c: "CN_of S R i j n ?c" by (rule P(4) [OF assms(1)])
  have send: "CN_res S R i j n (Inr (TCPConnection_send_segments x))" if "CN_of S R i j n x" for x
    using CN_send_segments [OF that assms(3)] by simp
  have take: "CN_res S R i j n (cn_take_segment seg ?c)" "CN_res S R i j n (cn_take_segment seg (cn_take_ack seg ?c))"
    by (rule CN_take_segment [OF c assms(2,4)], rule CN_take_segment [OF P(1) [OF c] assms(2,4)])
  show ?thesis
    unfolding TCPConnection_segment_received_def Let_def connect_eq
    by (intro CN_if CN_res_bind take send P c CN_set_error [THEN iffD2] CN_res_Inr [THEN iffD2] assms(1); assumption)
qed

lemma CN_reset_connection:
  assumes "CN_of S R i j n c"
  shows "CN_of S R i j n (TCPConnection_reset_connection c)"
proof -
  have "seg_of S i (TCPSegment_default\<lparr>seg_header := (seg_header TCPSegment_default)\<lparr>th_rst := True\<rparr>\<rparr>)"
    by (simp add: seg_of_def TCPSegment_default_def TCPHeader_default_def)
  then show ?thesis using assms CN_set_error [of S R i j n c]
    by (simp add: TCPConnection_reset_connection_def CN_of_def)
qed

lemma CN_tick:
  assumes "CN_of S R i j n c" and "length S + 2 < UINT_MOD"
  shows "CN_of S R i j n (TCPConnection_tick c ms)"
proof -
  let ?c = "c\<lparr>cn_time_since_last_segment_received := add64 (cn_time_since_last_segment_received c) ms,
    cn_sender := TCPSender_tick (cn_sender c) ms\<rparr>"
  have c: "CN_of S R i j n ?c" using assms SN_run_ops(3) by (simp add: CN_of_def)
  have "CN_of S R i j n (TCPConnection_reset_connection ?c)"
    by (rule CN_reset_connection [OF c])
  then show ?thesis using assms(1) CN_send_segments [OF c assms(2)] by (simp add: TCPConnection_tick_def Let_def)
qed

end
