(* ===== verification/Connection_States.thy ===== *)
theory Connection_States
  imports Tcp_Connection
begin

text \<open>
  The life of a connection in terms of the official states of \<open>TCPState\<close>: the three-way
  handshake from two fresh endpoints, the reset, the give-up after too many retransmissions,
  the lingering in TIME_WAIT, and what the chain of branches of \<open>segment_received\<close> does not
  look at.
\<close>

section \<open>A sender with nothing to send\<close>

text \<open>The states of a sender whose stream is empty and open.\<close>

definition idle_stream :: "ByteStream \<Rightarrow> bool" where
  "idle_stream s \<longleftrightarrow> bs_buff s = [] \<and> \<not> bs_isInputEnd s \<and> \<not> bs_error s"

definition sent_syn :: "TCPSender \<Rightarrow> TCPSegment \<Rightarrow> bool" where
  "sent_syn sn seg \<longleftrightarrow> idle_stream (sn_stream sn) \<and> sn_syn sn \<and> \<not> sn_fin sn \<and> sn_next_seqno sn = 1 \<and>
     sn_outgoing_bytes sn = 1 \<and> sn_segments_outgoing sn = [(0, seg)] \<and>
     th_syn (seg_header seg) \<and> \<not> th_fin (seg_header seg) \<and> Buffer_str (seg_payload seg) = []"

definition syn_acked :: "TCPSender \<Rightarrow> bool" where
  "syn_acked sn \<longleftrightarrow> idle_stream (sn_stream sn) \<and> sn_syn sn \<and> \<not> sn_fin sn \<and> sn_next_seqno sn = 1 \<and>
     sn_outgoing_bytes sn = 0 \<and> sn_segments_outgoing sn = []"

lemma read_idle [simp]: "idle_stream s \<Longrightarrow> idle_stream (fst (ByteStream_read s n))"
  by (simp add: idle_stream_def)

lemma wrap_0 [simp]: "wrap 0 isn = isn"
  by (rule WrappingInt32.expand) (simp add: raw_wrap)

lemma fill_window_syn:
  assumes "sn = TCPSender_new cap rto fixed rnd"
  obtains seg where "sent_syn (TCPSender_fill_window sn) seg" "sn_segments_out (TCPSender_fill_window sn) = [seg]"
    "th_seqno (seg_header seg) = sn_isn sn" "\<not> th_ack (seg_header seg)" "\<not> th_rst (seg_header seg)"
proof -
  obtain sn1 seg where m: "TCPSender_make_segment 1 sn = (sn1, seg)" by fastforce
  note p = make_segment_parts [of 1 sn, unfolded m fst_conv snd_conv]
  note f = make_segment_fields [of 1 sn, unfolded m fst_conv snd_conv]
  have new: "bs_buff (sn_stream sn) = []" "\<not> bs_isInputEnd (sn_stream sn)" "\<not> sn_syn sn" "\<not> sn_fin sn"
    "sn_outgoing_bytes sn = 0" "sn_next_seqno sn = 0" "sn_segments_out sn = []" "sn_segments_outgoing sn = []"
    "sn_win_size sn = 1" "\<not> bs_error (sn_stream sn)"
    using assms by (simp_all add: TCPSender_new_def ByteStream_new_def)
  have s: "th_syn (seg_header seg)" "\<not> th_fin (seg_header seg)" "Buffer_str (seg_payload seg) = []"
    "th_seqno (seg_header seg) = sn_isn sn"
    using p new by (simp_all add: TCPSender_next_seqno_def)
  have flags: "\<not> th_ack (seg_header seg)" "\<not> th_rst (seg_header seg)"
    using arg_cong [OF m, of "\<lambda>x. th_ack (seg_header (snd x))"] arg_cong [OF m, of "\<lambda>x. th_rst (seg_header (snd x))"]
    by (simp_all add: TCPSender_make_segment_def Let_def case_prod_beta TCPHeader_default_def)
  have len: "TCPSegment_length_in_sequence_space seg = 1"
    using s by (simp add: TCPSegment_length_in_sequence_space_def add64_eq)
  have "TCPSender_fill_loop 1 (TCPSender_send_segment sn1 seg) = TCPSender_send_segment sn1 seg"
    using len f new by (subst TCPSender_fill_loop.simps) (simp add: add64_eq)
  moreover have "TCPSender_fill_loop 1 sn = TCPSender_fill_loop 1 (TCPSender_send_segment sn1 seg)"
    using len m s new by (subst TCPSender_fill_loop.simps) simp
  ultimately have "TCPSender_fill_window sn = TCPSender_send_segment sn1 seg"
    using new by (simp add: TCPSender_fill_window_def)
  then show ?thesis using new s flags len f p
    by (intro that [of seg]) (simp_all add: sent_syn_def idle_stream_def add64_eq)
qed

lemma fill_window_idle:
  assumes "syn_acked sn"
  shows "syn_acked (TCPSender_fill_window sn)" "sn_segments_out (TCPSender_fill_window sn) = sn_segments_out sn"
proof -
  obtain w where w: "TCPSender_fill_window sn = TCPSender_fill_loop w sn" "0 < w"
    by (simp add: TCPSender_fill_window_def)
  obtain sn1 seg where m: "TCPSender_make_segment w sn = (sn1, seg)" by fastforce
  note p = make_segment_parts [of w sn, unfolded m fst_conv snd_conv]
  note f = make_segment_fields [of w sn, unfolded m fst_conv snd_conv]
  have "TCPSegment_length_in_sequence_space seg = 0"
    using p assms by (simp add: TCPSegment_length_in_sequence_space_def syn_acked_def idle_stream_def)
  then have "TCPSender_fill_window sn = sn1"
    using m assms w by (subst w(1), subst TCPSender_fill_loop.simps) (simp add: syn_acked_def)
  then show "syn_acked (TCPSender_fill_window sn)" "sn_segments_out (TCPSender_fill_window sn) = sn_segments_out sn"
    using p f assms by (simp_all add: syn_acked_def idle_stream_def)
qed

lemma ack_of_syn:
  assumes "sent_syn sn seg"
  shows "syn_acked (TCPSender_ack_received sn (wrap 1 (sn_isn sn)) w)"
    "sn_segments_out (TCPSender_ack_received sn (wrap 1 (sn_isn sn)) w) = sn_segments_out sn"
proof -
  let ?sn = "(TCPSender_ack_loop (sn_segments_outgoing sn) 1 sn)\<lparr>sn_win_size := unat w, sn_consecutive_retransmissions := 0\<rparr>"
  have len: "TCPSegment_length_in_sequence_space seg = 1"
    using assms by (simp add: sent_syn_def TCPSegment_length_in_sequence_space_def add64_eq)
  have "unwrap (wrap 1 (sn_isn sn)) (sn_isn sn) 1 = 1" by (rule unwrap_wrap_below) simp_all
  then have r: "TCPSender_ack_received sn (wrap 1 (sn_isn sn)) w = TCPSender_fill_window ?sn"
    using assms by (simp add: TCPSender_ack_received_def sent_syn_def)
  have "syn_acked ?sn" "sn_segments_out ?sn = sn_segments_out sn"
    using assms len by (simp_all add: syn_acked_def sent_syn_def idle_stream_def add64_eq)
  then show "syn_acked (TCPSender_ack_received sn (wrap 1 (sn_isn sn)) w)"
    "sn_segments_out (TCPSender_ack_received sn (wrap 1 (sn_isn sn)) w) = sn_segments_out sn"
    unfolding r using fill_window_idle by simp_all
qed

section \<open>The handshake\<close>

text \<open>A receiver that has got the peer's SYN and nothing else.\<close>

definition got_syn :: "WrappingInt32 \<Rightarrow> TCPReceiver \<Rightarrow> bool" where
  "got_syn isn rc \<longleftrightarrow> rc_syn rc \<and> rc_isn rc = unat (raw_value isn) \<and> SR_inv (rc_reassembler rc) \<and>
     bs_totin (sr_output (rc_reassembler rc)) = 0 \<and> \<not> bs_isInputEnd (sr_output (rc_reassembler rc)) \<and>
     \<not> bs_error (sr_output (rc_reassembler rc))"

lemma got_syn_ackno: "got_syn isn rc \<Longrightarrow> TCPReceiver_ackno rc = Some (wrap 1 isn)"
  by (cases isn) (simp add: got_syn_def TCPReceiver_ackno_def TCPReceiver_stream_out_def ByteStream_accessors add64_eq)

lemma got_syn_bare:
  assumes "got_syn isn rc" and "\<not> th_syn (seg_header seg)" and "\<not> th_fin (seg_header seg)"
    and "Buffer_str (seg_payload seg) = []"
  shows "TCPReceiver_segment_received rc seg = Inr rc"
proof -
  have "StreamReassembler_push_substring (rc_reassembler rc) [] k False = Inr (rc_reassembler rc)" for k
    using assms(1) by (intro SR_push_empty) (simp add: got_syn_def)
  then show ?thesis using assms by (simp add: TCPReceiver_segment_received_def Buffer_copy_def Let_def got_syn_def)
qed

lemma receive_syn:
  assumes "cap < ULLONG_MAX" and "th_syn (seg_header seg)" and "\<not> th_fin (seg_header seg)"
    and "Buffer_str (seg_payload seg) = []"
  obtains rc where "TCPReceiver_segment_received (TCPReceiver_new cap) seg = Inr rc"
    "got_syn (th_seqno (seg_header seg)) rc" "rc_capacity rc = cap"
proof -
  let ?r = "StreamReassembler_new cap"
  have inv: "SR_inv ?r" by (rule SR_new_inv [OF assms(1)])
  have "StreamReassembler_push_substring ?r [] k False = Inr ?r" for k by (rule SR_push_empty [OF inv])
  then have "TCPReceiver_segment_received (TCPReceiver_new cap) seg =
      Inr ((TCPReceiver_new cap)\<lparr>rc_syn := True, rc_isn := unat (raw_value (th_seqno (seg_header seg)))\<rparr>)"
    using assms by (simp add: TCPReceiver_segment_received_def Buffer_copy_def Let_def TCPReceiver_new_def)
  then show ?thesis using inv
    by (intro that) (auto simp: got_syn_def TCPReceiver_new_def StreamReassembler_new_def ByteStream_new_def)
qed

lemma send_segments_open:
  "\<not> bs_isInputEnd (sr_output (rc_reassembler (cn_receiver c))) \<Longrightarrow>
   TCPConnection_send_segments c = TCPConnection_drain (sn_segments_out (cn_sender c)) c"
  by (simp add: TCPConnection_send_segments_def drain_eq Let_def TCPReceiver_stream_out_def ByteStream_accessors)

text \<open>The state of each side after each message.\<close>

lemma connect_new:
  assumes "c = TCPConnection_new cfg rnd"
  obtains syn where "cn_segments_out (TCPConnection_connect c) = [syn]" "sent_syn (cn_sender (TCPConnection_connect c)) syn"
    "th_seqno (seg_header syn) = sn_isn (cn_sender c)" "\<not> th_ack (seg_header syn)" "\<not> th_rst (seg_header syn)"
    "TCPConnection_connect c = c\<lparr>cn_sender := cn_sender (TCPConnection_connect c), cn_segments_out := [syn]\<rparr>"
    "sn_segments_out (cn_sender (TCPConnection_connect c)) = []"
proof -
  obtain seg where s: "sent_syn (TCPSender_fill_window (cn_sender c)) seg"
    "sn_segments_out (TCPSender_fill_window (cn_sender c)) = [seg]" "th_seqno (seg_header seg) = sn_isn (cn_sender c)"
    "\<not> th_ack (seg_header seg)" "\<not> th_rst (seg_header seg)"
    by (rule fill_window_syn [of "cn_sender c"]) (simp add: assms TCPConnection_new_def)
  have new: "\<not> bs_isInputEnd (sr_output (rc_reassembler (cn_receiver c)))" "TCPReceiver_ackno (cn_receiver c) = None"
    "cn_segments_out c = []"
    by (simp_all add: assms TCPConnection_new_def TCPReceiver_new_def StreamReassembler_new_def ByteStream_new_def
        TCPReceiver_ackno_def)
  have "TCPConnection_connect c = c\<lparr>cn_sender := (TCPSender_fill_window (cn_sender c))\<lparr>sn_segments_out := []\<rparr>,
      cn_segments_out := [seg]\<rparr>"
    using s(2) new by (simp add: TCPConnection_connect_def send_segments_open drain_eq stamp_segment_def)
  then show ?thesis using s by (intro that [of seg]) (simp_all add: sent_syn_def)
qed

lemma stamp_fields [simp]:
  "th_syn (seg_header (stamp_segment rc seg)) = th_syn (seg_header seg)"
  "th_fin (seg_header (stamp_segment rc seg)) = th_fin (seg_header seg)"
  "th_rst (seg_header (stamp_segment rc seg)) = th_rst (seg_header seg)"
  "th_seqno (seg_header (stamp_segment rc seg)) = th_seqno (seg_header seg)"
  "seg_payload (stamp_segment rc seg) = seg_payload seg"
  by (simp_all add: stamp_segment_def split: option.split)

lemma stamp_ack:
  "TCPReceiver_ackno rc = Some a \<Longrightarrow> th_ack (seg_header (stamp_segment rc seg)) \<and>
     th_ackno (seg_header (stamp_segment rc seg)) = a \<and>
     th_win (seg_header (stamp_segment rc seg)) = of_nat (TCPReceiver_window_size rc)"
  by (simp add: stamp_segment_def)

lemma listen_syn:
  assumes "c = TCPConnection_new cfg rnd" and "cfg_recv_capacity cfg < ULLONG_MAX"
    and "th_syn (seg_header syn)" and "\<not> th_fin (seg_header syn)" and "\<not> th_rst (seg_header syn)"
    and "Buffer_str (seg_payload syn) = []"
  obtains c' synack where "TCPConnection_segment_received c syn = Inr c'" "cn_segments_out c' = [synack]"
    "cn_active c'" "cn_linger_after_streams_finish c'" "\<exists>seg. sent_syn (cn_sender c') seg"
    "sn_segments_out (cn_sender c') = []" "sn_isn (cn_sender c') = sn_isn (cn_sender c)"
    "got_syn (th_seqno (seg_header syn)) (cn_receiver c')"
    "th_syn (seg_header synack)" "th_ack (seg_header synack)" "\<not> th_fin (seg_header synack)" "\<not> th_rst (seg_header synack)"
    "th_seqno (seg_header synack) = sn_isn (cn_sender c)" "Buffer_str (seg_payload synack) = []"
    "th_ackno (seg_header synack) = wrap 1 (th_seqno (seg_header syn))"
    "th_win (seg_header synack) = of_nat (TCPReceiver_window_size (cn_receiver c'))"
    "rc_capacity (cn_receiver c') = cfg_recv_capacity cfg"
proof -
  obtain rc where rc: "TCPReceiver_segment_received (cn_receiver c) syn = Inr rc" "got_syn (th_seqno (seg_header syn)) rc"
    "rc_capacity rc = cfg_recv_capacity cfg"
    by (rule receive_syn [OF assms(2,3,4,6)]) (simp add: assms(1) TCPConnection_new_def)
  obtain seg where s: "sent_syn (TCPSender_fill_window (cn_sender c)) seg"
    "sn_segments_out (TCPSender_fill_window (cn_sender c)) = [seg]" "th_seqno (seg_header seg) = sn_isn (cn_sender c)"
    "\<not> th_ack (seg_header seg)" "\<not> th_rst (seg_header seg)"
    by (rule fill_window_syn [of "cn_sender c"]) (simp add: assms TCPConnection_new_def)
  have new: "cn_active c" "cn_linger_after_streams_finish c" "cn_segments_out c = []" "sn_next_seqno (cn_sender c) = 0"
    "c\<lparr>cn_time_since_last_segment_received := 0\<rparr> = c"
    by (simp_all add: assms(1) TCPConnection_new_def TCPSender_new_def)
  let ?c = "c\<lparr>cn_receiver := rc, cn_sender := (TCPSender_fill_window (cn_sender c))\<lparr>sn_segments_out := []\<rparr>,
    cn_segments_out := [stamp_segment rc seg]\<rparr>"
  have opn: "\<not> bs_isInputEnd (sr_output (rc_reassembler rc))" using rc(2) by (simp add: got_syn_def)
  have "TCPConnection_segment_received c syn = Inr ?c"
    using assms(3,5) new rc(1) s(2) opn
    by (simp add: TCPConnection_segment_received_def TCPSender_next_seqno_absolute_def Let_def cn_take_segment_def
        TCPConnection_connect_def send_segments_open drain_eq)
  moreover have "\<exists>seg. sent_syn (cn_sender ?c) seg" using s(1) by (auto simp: sent_syn_def)
  moreover have "th_syn (seg_header seg)" "\<not> th_fin (seg_header seg)" "Buffer_str (seg_payload seg) = []"
    using s(1) by (simp_all add: sent_syn_def)
  ultimately show ?thesis
    using new rc(2,3) s stamp_ack [OF got_syn_ackno [OF rc(2)], of seg]
    by (intro that [of ?c "stamp_segment rc seg"]) simp_all
qed

lemma syn_sent_synack:
  assumes "sent_syn (cn_sender c) seg" and "sn_segments_out (cn_sender c) = []" and "cn_active c" and "cn_linger_after_streams_finish c"
    and "cn_receiver c = TCPReceiver_new cap" and "cap < ULLONG_MAX"
    and "th_syn (seg_header synack)" and "th_ack (seg_header synack)" and "\<not> th_fin (seg_header synack)"
    and "\<not> th_rst (seg_header synack)" and "Buffer_str (seg_payload synack) = []"
    and "th_ackno (seg_header synack) = wrap 1 (sn_isn (cn_sender c))"
  obtains c' ack where "TCPConnection_segment_received c synack = Inr c'" "cn_segments_out c' = cn_segments_out c @ [ack]"
    "cn_active c'" "cn_linger_after_streams_finish c'" "syn_acked (cn_sender c')"
    "got_syn (th_seqno (seg_header synack)) (cn_receiver c')"
    "\<not> th_syn (seg_header ack)" "th_ack (seg_header ack)" "\<not> th_fin (seg_header ack)" "\<not> th_rst (seg_header ack)"
    "Buffer_str (seg_payload ack) = []" "th_ackno (seg_header ack) = wrap 1 (th_seqno (seg_header synack))"
proof -
  obtain rc where rc: "TCPReceiver_segment_received (cn_receiver c) synack = Inr rc" "got_syn (th_seqno (seg_header synack)) rc"
    by (rule receive_syn [OF assms(6,7,9,11)]) (simp add: assms(5))
  let ?sn = "TCPSender_ack_received (cn_sender c) (th_ackno (seg_header synack)) (th_win (seg_header synack))"
  note a = ack_of_syn [OF assms(1), of "th_win (seg_header synack)", folded assms(12)]
  let ?e = "\<lparr>seg_header = TCPHeader_default\<lparr>th_seqno := TCPSender_next_seqno ?sn\<rparr>, seg_payload = Buffer_empty\<rparr>"
  let ?c = "c\<lparr>cn_time_since_last_segment_received := 0, cn_receiver := rc, cn_sender := ?sn\<lparr>sn_segments_out := []\<rparr>,
    cn_segments_out := cn_segments_out c @ [stamp_segment rc ?e]\<rparr>"
  have opn: "\<not> bs_isInputEnd (sr_output (rc_reassembler rc))" using rc(2) by (simp add: got_syn_def)
  have st: "sn_next_seqno (cn_sender c) = 1" "sn_outgoing_bytes (cn_sender c) = 1" using assms(1) by (simp_all add: sent_syn_def)
  have "TCPReceiver_ackno (cn_receiver c) = None" using assms(5) by (simp add: TCPReceiver_ackno_def TCPReceiver_new_def)
  then have "TCPConnection_segment_received c synack = Inr ?c"
    using assms(2,3,7,8,10) st rc(1) a(2) opn
    by (simp add: TCPConnection_segment_received_def TCPSender_next_seqno_absolute_def TCPSender_bytes_in_flight_def Let_def
        cn_take_segment_def cn_take_ack_def cn_empty_segment_def send_segments_open drain_eq TCPSender_send_empty_segment_def)
  moreover have "syn_acked (cn_sender ?c)" using a(1) by (simp add: syn_acked_def)
  ultimately show ?thesis
    using assms(3,4) rc(2) stamp_ack [OF got_syn_ackno [OF rc(2)], of ?e]
    by (intro that [of ?c "stamp_segment rc ?e"]) (simp_all add: TCPHeader_default_def)
qed

lemma syn_rcvd_ack:
  assumes "sent_syn (cn_sender c) seg" and "cn_active c" and "got_syn isn (cn_receiver c)"
    and "\<not> th_syn (seg_header ack)" and "\<not> th_fin (seg_header ack)" and "\<not> th_rst (seg_header ack)"
    and "Buffer_str (seg_payload ack) = []" and "th_ackno (seg_header ack) = wrap 1 (sn_isn (cn_sender c))"
  obtains c' where "TCPConnection_segment_received c ack = Inr c'" "syn_acked (cn_sender c')" "got_syn isn (cn_receiver c')"
    "cn_active c'" "cn_linger_after_streams_finish c' = cn_linger_after_streams_finish c" "cn_segments_out c' = cn_segments_out c"
proof -
  let ?sn = "TCPSender_ack_received (cn_sender c) (th_ackno (seg_header ack)) (th_win (seg_header ack))"
  let ?c = "c\<lparr>cn_time_since_last_segment_received := 0, cn_sender := ?sn\<rparr>"
  have rc: "TCPReceiver_ackno (cn_receiver c) \<noteq> None" "\<not> bs_isInputEnd (sr_output (rc_reassembler (cn_receiver c)))"
    using got_syn_ackno [OF assms(3)] assms(3) by (simp_all add: got_syn_def)
  have st: "sn_next_seqno (cn_sender c) = 1" "sn_outgoing_bytes (cn_sender c) = 1" using assms(1) by (simp_all add: sent_syn_def)
  have "TCPConnection_segment_received c ack = Inr ?c"
    using assms(2,6) rc st got_syn_bare [OF assms(3,4,5,7)]
    by (simp add: TCPConnection_segment_received_def TCPSender_next_seqno_absolute_def TCPSender_bytes_in_flight_def Let_def
        cn_take_segment_def cn_take_ack_def TCPReceiver_stream_out_def ByteStream_accessors)
  then show ?thesis
    using assms(2,3) ack_of_syn(1) [OF assms(1), of "th_win (seg_header ack)", folded assms(8)]
    by (intro that [of ?c]) simp_all
qed

text \<open>The official state of each of these shapes.\<close>

lemma state_shapes:
  assumes "cn_active c" and "cn_linger_after_streams_finish c"
  shows "sent_syn (cn_sender c) seg \<Longrightarrow> cn_receiver c = TCPReceiver_new cap \<Longrightarrow>
      TCPConnection_state c = TCPState_of_State SYN_SENT"
    and "sent_syn (cn_sender c) seg \<Longrightarrow> got_syn isn (cn_receiver c) \<Longrightarrow>
      TCPConnection_state c = TCPState_of_State SYN_RCVD"
    and "syn_acked (cn_sender c) \<Longrightarrow> got_syn isn (cn_receiver c) \<Longrightarrow>
      TCPConnection_state c = TCPState_of_State ESTABLISHED"
proof -
  have rc: "state_summary_receiver (cn_receiver c) = ReceiverSummary_SYN_RECV" if "got_syn isn (cn_receiver c)"
    using that got_syn_ackno [OF that]
    by (simp add: state_summary_receiver_def got_syn_def TCPReceiver_stream_out_def ByteStream_accessors)
  have new: "state_summary_receiver (TCPReceiver_new cap) = ReceiverSummary_LISTEN"
    by (simp add: state_summary_receiver_def TCPReceiver_new_def TCPReceiver_ackno_def TCPReceiver_stream_out_def
        StreamReassembler_new_def ByteStream_new_def)
  have snd: "state_summary_sender (cn_sender c) = SenderSummary_SYN_SENT" if "sent_syn (cn_sender c) seg"
    using that by (simp add: state_summary_sender_def sent_syn_def idle_stream_def TCPSender_next_seqno_absolute_def
        TCPSender_bytes_in_flight_def)
  have acked: "state_summary_sender (cn_sender c) = SenderSummary_SYN_ACKED" if "syn_acked (cn_sender c)"
    using that by (simp add: state_summary_sender_def syn_acked_def idle_stream_def TCPSender_next_seqno_absolute_def
        TCPSender_bytes_in_flight_def ByteStream_accessors)
  note d = TCPConnection_state_def TCPState_new_def TCPConnection_active_def
  show "sent_syn (cn_sender c) seg \<Longrightarrow> cn_receiver c = TCPReceiver_new cap \<Longrightarrow>
      TCPConnection_state c = TCPState_of_State SYN_SENT" using assms new snd by (simp add: d)
  show "sent_syn (cn_sender c) seg \<Longrightarrow> got_syn isn (cn_receiver c) \<Longrightarrow>
      TCPConnection_state c = TCPState_of_State SYN_RCVD" using assms rc snd by (simp add: d)
  show "syn_acked (cn_sender c) \<Longrightarrow> got_syn isn (cn_receiver c) \<Longrightarrow>
      TCPConnection_state c = TCPState_of_State ESTABLISHED" using assms rc acked by (simp add: d)
qed

text \<open>
  C9. The three-way handshake. From two fresh connections with any configuration and any initial
  sequence numbers: \<open>connect\<close> sends exactly a SYN and is in SYN_SENT; the listener answers
  it with exactly a SYN that acknowledges it and is in SYN_RCVD; that one makes the client
  ESTABLISHED and send an acknowledgment, which makes the listener ESTABLISHED.
\<close>

theorem three_way_handshake:
  assumes "cfg_recv_capacity cfga < ULLONG_MAX" and "cfg_recv_capacity cfgb < ULLONG_MAX"
  shows "\<exists>a1 syn b1 synack a2 ack b2.
    a1 = TCPConnection_connect (TCPConnection_new cfga ra) \<and> cn_segments_out a1 = [syn] \<and>
    TCPConnection_state a1 = TCPState_of_State SYN_SENT \<and>
    TCPConnection_segment_received (TCPConnection_new cfgb rb) syn = Inr b1 \<and> cn_segments_out b1 = [synack] \<and>
    TCPConnection_state b1 = TCPState_of_State SYN_RCVD \<and>
    TCPConnection_segment_received a1 synack = Inr a2 \<and> cn_segments_out a2 = [syn, ack] \<and>
    TCPConnection_state a2 = TCPState_of_State ESTABLISHED \<and>
    TCPConnection_segment_received b1 ack = Inr b2 \<and> TCPConnection_state b2 = TCPState_of_State ESTABLISHED"
proof -
  let ?a = "TCPConnection_new cfga ra" and ?b = "TCPConnection_new cfgb rb"
  let ?a1 = "TCPConnection_connect ?a"
  obtain syn where a1: "cn_segments_out ?a1 = [syn]" "sent_syn (cn_sender ?a1) syn"
    "th_seqno (seg_header syn) = sn_isn (cn_sender ?a)" "\<not> th_ack (seg_header syn)" "\<not> th_rst (seg_header syn)"
    "?a1 = ?a\<lparr>cn_sender := cn_sender ?a1, cn_segments_out := [syn]\<rparr>" "sn_segments_out (cn_sender ?a1) = []"
    using connect_new [OF refl, of cfga ra] by metis
  have syn: "th_syn (seg_header syn)" "\<not> th_fin (seg_header syn)" "Buffer_str (seg_payload syn) = []"
    using a1(2) by (simp_all add: sent_syn_def)
  have new: "cn_active ?a1" "cn_linger_after_streams_finish ?a1" "cn_receiver ?a1 = TCPReceiver_new (cfg_recv_capacity cfga)"
    by (subst a1(6), simp add: TCPConnection_new_def)+
  have isn: "sn_isn (cn_sender ?a1) = sn_isn (cn_sender ?a)" by (simp add: TCPConnection_connect_def)
  obtain b1 synack where b1: "TCPConnection_segment_received ?b syn = Inr b1" "cn_segments_out b1 = [synack]"
    "cn_active b1" "cn_linger_after_streams_finish b1" "\<exists>seg. sent_syn (cn_sender b1) seg"
    "sn_segments_out (cn_sender b1) = []" "sn_isn (cn_sender b1) = sn_isn (cn_sender ?b)"
    "got_syn (th_seqno (seg_header syn)) (cn_receiver b1)"
    "th_syn (seg_header synack)" "th_ack (seg_header synack)" "\<not> th_fin (seg_header synack)" "\<not> th_rst (seg_header synack)"
    "th_seqno (seg_header synack) = sn_isn (cn_sender ?b)" "Buffer_str (seg_payload synack) = []"
    "th_ackno (seg_header synack) = wrap 1 (th_seqno (seg_header syn))"
    by (rule listen_syn [OF refl assms(2) syn(1,2) a1(5) syn(3)])
  obtain a2 ack where a2: "TCPConnection_segment_received ?a1 synack = Inr a2" "cn_segments_out a2 = cn_segments_out ?a1 @ [ack]"
    "cn_active a2" "cn_linger_after_streams_finish a2" "syn_acked (cn_sender a2)"
    "got_syn (th_seqno (seg_header synack)) (cn_receiver a2)"
    "\<not> th_syn (seg_header ack)" "th_ack (seg_header ack)" "\<not> th_fin (seg_header ack)" "\<not> th_rst (seg_header ack)"
    "Buffer_str (seg_payload ack) = []" "th_ackno (seg_header ack) = wrap 1 (th_seqno (seg_header synack))"
    by (rule syn_sent_synack [OF a1(2,7) new assms(1) b1(9-12,14) b1(15) [unfolded a1(3) isn [symmetric]]])
  obtain seg where seg: "sent_syn (cn_sender b1) seg" using b1(5) by blast
  obtain b2 where b2: "TCPConnection_segment_received b1 ack = Inr b2" "syn_acked (cn_sender b2)"
    "got_syn (th_seqno (seg_header syn)) (cn_receiver b2)" "cn_active b2"
    "cn_linger_after_streams_finish b2 = cn_linger_after_streams_finish b1"
    by (rule syn_rcvd_ack [OF seg b1(3,8) a2(7,9-11) a2(12) [unfolded b1(13) b1(7) [symmetric]]])
  show ?thesis
    using a1(1) b1(1,2) a2(1,2) b2(1) state_shapes(1) [OF new(1,2) a1(2) new(3)] state_shapes(2) [OF b1(3,4) seg b1(8)]
      state_shapes(3) [OF a2(3-6)] state_shapes(3) [OF b2(4) _ b2(2,3)] b2(5) b1(4)
    by (intro exI [of _ ?a1] exI [of _ syn] exI [of _ b1] exI [of _ synack] exI [of _ a2] exI [of _ ack] exI [of _ b2]) simp
qed

theorem three_way_handshake_witness:
  "\<exists>a1 syn b1. a1 = TCPConnection_connect (TCPConnection_new TCPConfig_default 5) \<and> cn_segments_out a1 = [syn] \<and>
    TCPConnection_segment_received (TCPConnection_new TCPConfig_default 9) syn = Inr b1 \<and>
    TCPConnection_state b1 = TCPState_of_State SYN_RCVD"
  using three_way_handshake [of TCPConfig_default TCPConfig_default 5 9]
  by (auto simp: TCPConfig_default_def TCPConfig_DEFAULT_CAPACITY_def)

section \<open>Windows\<close>



section \<open>Ends of a connection\<close>

lemma inactive_ignores:
  assumes "\<not> cn_active c"
  shows "TCPConnection_segment_received c seg = Inr c" "TCPConnection_tick c ms = c"
  using assms by (simp_all add: TCPConnection_segment_received_def TCPConnection_tick_def)

lemma state_reset:
  "\<not> cn_active c \<Longrightarrow> bs_error (sn_stream (cn_sender c)) \<Longrightarrow> bs_error (TCPReceiver_stream_out (cn_receiver c)) \<Longrightarrow>
   TCPConnection_state c = TCPState_of_State RESET"
  by (simp add: TCPConnection_state_def TCPState_new_def TCPConnection_active_def state_summary_sender_def
      state_summary_receiver_def)



text \<open>
  C24. Giving up. When the timer expires after \<open>MAX_RETX_ATTEMPTS\<close> retransmissions in a row,
  \<open>tick\<close> resets the connection: the state is RESET and the one segment added to the queue is
  a RST. One retransmission earlier it stays active and sends the oldest segment again.
\<close>

theorem tick_gives_up:
  assumes "TCPConnection_active c" and "sn_segments_outgoing (cn_sender c) = (k, seg) # l"
    and "sn_retransmission_timeout (cn_sender c) \<le> sn_retransmission_timecount (cn_sender c) + ms"
    and "sn_retransmission_timecount (cn_sender c) + ms < UINT_MOD"
    and "sn_segments_out (cn_sender c) = []" and "TCPConnection_bytes_in_flight c \<noteq> 0"
  shows "(TCPSender_consecutive_retransmissions (cn_sender c) = TCPConfig_MAX_RETX_ATTEMPTS \<longrightarrow>
      TCPConnection_state (TCPConnection_tick c ms) = TCPState_of_State RESET \<and>
      (\<exists>rst. cn_segments_out (TCPConnection_tick c ms) = cn_segments_out c @ [rst] \<and> th_rst (seg_header rst))) \<and>
    (TCPSender_consecutive_retransmissions (cn_sender c) < TCPConfig_MAX_RETX_ATTEMPTS \<longrightarrow>
      TCPConnection_active (TCPConnection_tick c ms) \<and>
      cn_segments_out (TCPConnection_tick c ms) = cn_segments_out c @ [stamp_segment (cn_receiver c) seg])"
proof (intro conjI impI)
  let ?sn = "TCPSender_tick (cn_sender c) ms"
  let ?c = "c\<lparr>cn_time_since_last_segment_received := add64 (cn_time_since_last_segment_received c) ms, cn_sender := ?sn\<rparr>"
  let ?n = "sn_consecutive_retransmissions (cn_sender c)"
  have t: "sn_segments_out ?sn = [seg]" "sn_outgoing_bytes ?sn = sn_outgoing_bytes (cn_sender c)"
    "sn_consecutive_retransmissions ?sn = trunc32 (?n + 1)"
    using assms(2-5) by (simp_all add: TCPSender_tick_def trunc32_eq Let_def)
  note d = TCPSender_consecutive_retransmissions_def TCPConfig_MAX_RETX_ATTEMPTS_def
  {
    assume "TCPSender_consecutive_retransmissions (cn_sender c) = TCPConfig_MAX_RETX_ATTEMPTS"
    then have r: "TCPConnection_tick c ms = TCPConnection_reset_connection ?c"
      using t(3) assms(1) by (simp add: TCPConnection_tick_def TCPConnection_active_def d trunc32_eq Let_def)
    show "TCPConnection_state (TCPConnection_tick c ms) = TCPState_of_State RESET"
      unfolding r by (rule state_reset) (simp_all add: TCPConnection_reset_connection_def sender_set_error_def
          receiver_set_error_def TCPReceiver_stream_out_def ByteStream_set_error_def)
    show "\<exists>rst. cn_segments_out (TCPConnection_tick c ms) = cn_segments_out c @ [rst] \<and> th_rst (seg_header rst)"
      unfolding r by (simp add: TCPConnection_reset_connection_def)
  next
    assume "TCPSender_consecutive_retransmissions (cn_sender c) < TCPConfig_MAX_RETX_ATTEMPTS"
    then have r: "TCPConnection_tick c ms = TCPConnection_send_segments ?c"
      using t(3) assms(1) by (simp add: TCPConnection_tick_def TCPConnection_active_def d trunc32_eq Let_def)
    show "TCPConnection_active (TCPConnection_tick c ms)"
      unfolding r using assms(1,6) t(2)
      by (simp add: TCPConnection_active_def TCPConnection_send_segments_def drain_eq TCPSender_bytes_in_flight_def
          TCPConnection_bytes_in_flight_def Let_def)
    show "cn_segments_out (TCPConnection_tick c ms) = cn_segments_out c @ [stamp_segment (cn_receiver c) seg]"
      unfolding r using t(1) by simp
  }
qed

theorem tick_gives_up_witness:
  "\<exists>c. TCPConnection_active c \<and> TCPConnection_state (TCPConnection_tick c 1000) = TCPState_of_State RESET"
proof -
  let ?c = "TCPConnection_new TCPConfig_default 5"
  let ?seg = "\<lparr>seg_header = TCPHeader_default\<lparr>th_syn := True\<rparr>, seg_payload = Buffer_of []\<rparr>"
  let ?d = "?c\<lparr>cn_sender := (cn_sender ?c)\<lparr>sn_segments_outgoing := [(0, ?seg)], sn_outgoing_bytes := 1,
    sn_consecutive_retransmissions := 8, sn_retransmission_timeout := 1000\<rparr>\<rparr>"
  have h: "TCPConnection_active ?d" "sn_segments_outgoing (cn_sender ?d) = (0, ?seg) # []"
    "sn_retransmission_timeout (cn_sender ?d) \<le> sn_retransmission_timecount (cn_sender ?d) + 1000"
    "sn_retransmission_timecount (cn_sender ?d) + 1000 < UINT_MOD"
    "sn_segments_out (cn_sender ?d) = []" "TCPConnection_bytes_in_flight ?d \<noteq> 0"
    "TCPSender_consecutive_retransmissions (cn_sender ?d) = TCPConfig_MAX_RETX_ATTEMPTS"
    by (simp_all add: TCPConnection_new_def TCPSender_new_def TCPConnection_active_def TCPConnection_bytes_in_flight_def
        TCPSender_bytes_in_flight_def TCPSender_consecutive_retransmissions_def TCPConfig_MAX_RETX_ATTEMPTS_def)
  from tick_gives_up [OF h(1-6)] h(7) have "TCPConnection_state (TCPConnection_tick ?d 1000) = TCPState_of_State RESET" by blast
  then show ?thesis using h(1) by blast
qed

text \<open>
  What a TIME_WAIT summary says of the sender and the receiver.
\<close>

lemma state_time_wait:
  assumes "TCPConnection_state c = TCPState_of_State TIME_WAIT"
  shows "cn_active c" "cn_linger_after_streams_finish c" "ByteStream_eof (sn_stream (cn_sender c))"
    "sn_outgoing_bytes (cn_sender c) = 0" "ByteStream_input_ended (TCPReceiver_stream_out (cn_receiver c))"
  using assms
  by (auto simp: TCPConnection_state_def TCPState_new_def TCPConnection_active_def state_summary_sender_def
      state_summary_receiver_def summary_defs TCPSender_bytes_in_flight_def split: if_splits)

lemma tick_idle:
  assumes "sn_segments_outgoing sn = []"
  shows "TCPSender_tick sn ms = sn\<lparr>sn_retransmission_timecount := trunc32 (sn_retransmission_timecount sn + ms)\<rparr>"
  using assms by (simp add: TCPSender_tick_def Let_def)

lemma time_wait_tick:
  assumes "TCPConnection_state c = TCPState_of_State TIME_WAIT" and "sn_segments_outgoing (cn_sender c) = []"
    and "TCPSender_consecutive_retransmissions (cn_sender c) \<le> TCPConfig_MAX_RETX_ATTEMPTS"
    and "cn_time_since_last_segment_received c + ms < SIZE_MOD"
  defines "c' \<equiv> TCPConnection_tick c ms"
  shows "TCPConnection_state c' = TCPState_of_State
      (if cn_time_since_last_segment_received c + ms < 10 * cfg_rt_timeout (cn_cfg c) then TIME_WAIT else CLOSED)"
    "sn_segments_outgoing (cn_sender c') = []" "cn_cfg c' = cn_cfg c"
    "TCPSender_consecutive_retransmissions (cn_sender c') \<le> TCPConfig_MAX_RETX_ATTEMPTS"
    "cn_time_since_last_segment_received c' = cn_time_since_last_segment_received c + ms"
proof -
  let ?t = "cn_time_since_last_segment_received c + ms"
  let ?d = "c\<lparr>cn_time_since_last_segment_received := ?t, cn_sender := TCPSender_tick (cn_sender c) ms\<rparr>"
  note s = state_time_wait [OF assms(1)] and idle = tick_idle [OF assms(2), of ms]
  have c': "c' = TCPConnection_send_segments ?d"
    using s(1) assms(3,4) by (simp add: c'_def TCPConnection_tick_def add64_eq idle Let_def
        TCPSender_consecutive_retransmissions_def)
  then show "sn_segments_outgoing (cn_sender c') = []" "cn_cfg c' = cn_cfg c"
    "TCPSender_consecutive_retransmissions (cn_sender c') \<le> TCPConfig_MAX_RETX_ATTEMPTS"
    "cn_time_since_last_segment_received c' = ?t"
    using assms(2,3) by (simp_all add: idle TCPSender_consecutive_retransmissions_def)
  have act: "cn_active c' = (?t < 10 * cfg_rt_timeout (cn_cfg c))" "cn_linger_after_streams_finish c'"
    unfolding c' using s by (simp_all add: TCPConnection_send_segments_def drain_eq idle Let_def TCPSender_bytes_in_flight_def)
  have "state_summary_sender (cn_sender c') = state_summary_sender (cn_sender c)" "cn_receiver c' = cn_receiver c"
    unfolding c' by (simp_all add: idle state_summary_sender_def TCPSender_next_seqno_absolute_def TCPSender_bytes_in_flight_def)
  then show "TCPConnection_state c' = TCPState_of_State (if ?t < 10 * cfg_rt_timeout (cn_cfg c) then TIME_WAIT else CLOSED)"
    using assms(1) act by (simp add: TCPConnection_state_def TCPState_new_def TCPConnection_active_def)
qed

text \<open>
  C25. Lingering. A connection in TIME_WAIT stays there through any sequence of ticks until ten times the
  initial timeout has passed since the last segment, and is CLOSED from then on.
\<close>

theorem time_wait_lingers:
  assumes "TCPConnection_state c = TCPState_of_State TIME_WAIT" and "sn_segments_outgoing (cn_sender c) = []"
    and "TCPSender_consecutive_retransmissions (cn_sender c) \<le> TCPConfig_MAX_RETX_ATTEMPTS"
    and "cn_time_since_last_segment_received c + sum_list mss < SIZE_MOD"
    and "cn_time_since_last_segment_received c < 10 * cfg_rt_timeout (cn_cfg c)"
  shows "TCPConnection_state (foldl TCPConnection_tick c mss) = TCPState_of_State
    (if cn_time_since_last_segment_received c + sum_list mss < 10 * cfg_rt_timeout (cn_cfg c) then TIME_WAIT else CLOSED)"
  using assms
proof (induction mss arbitrary: c)
  case (Cons ms mss)
  let ?c = "TCPConnection_tick c ms"
  have "cn_time_since_last_segment_received c + ms < SIZE_MOD" using Cons.prems(4) by simp
  note t = time_wait_tick [OF Cons.prems(1-3) this]
  show ?case
  proof (cases "cn_time_since_last_segment_received c + ms < 10 * cfg_rt_timeout (cn_cfg c)")
    case True
    then show ?thesis using Cons.IH [of ?c] t Cons.prems(4) by (simp add: add.assoc)
  next
    case False
    then have "\<not> cn_active ?c" using t(1)
      by (simp add: TCPConnection_state_def TCPState_new_def TCPConnection_active_def)
    then have "foldl TCPConnection_tick ?c mss = ?c" using inactive_ignores(2) by (induction mss) simp_all
    then show ?thesis using t(1) False by simp
  qed
qed simp

definition both_ended :: TCPConnection where
  "both_ended = (let c = TCPConnection_new TCPConfig_default 5; r = rc_reassembler (cn_receiver c) in
     c\<lparr>cn_sender := (cn_sender c)\<lparr>sn_syn := True, sn_fin := True, sn_next_seqno := 2,
         sn_stream := ByteStream_end_input (sn_stream (cn_sender c))\<rparr>,
       cn_receiver := (cn_receiver c)\<lparr>rc_syn := True, rc_fin := True,
         rc_reassembler := r\<lparr>sr_posEOF := 0, sr_output := ByteStream_end_input (sr_output r)\<rparr>\<rparr>\<rparr>)"

lemma both_ended_state: "TCPConnection_state both_ended = TCPState_of_State TIME_WAIT"
  by (simp add: both_ended_def Let_def TCPConnection_new_def TCPSender_new_def TCPReceiver_new_def
      StreamReassembler_new_def ByteStream_new_def ByteStream_end_input_def TCPConnection_state_def TCPState_new_def
      TCPConnection_active_def state_summary_sender_def state_summary_receiver_def TCPReceiver_stream_out_def
      TCPReceiver_ackno_def ByteStream_accessors TCPSender_next_seqno_absolute_def TCPSender_bytes_in_flight_def
      add64_eq)

theorem time_wait_lingers_witness:
  "TCPConnection_state (foldl TCPConnection_tick both_ended [4000, 5999]) = TCPState_of_State TIME_WAIT \<and>
   TCPConnection_state (foldl TCPConnection_tick both_ended [4000, 6000]) = TCPState_of_State CLOSED"
proof -
  have h: "sn_segments_outgoing (cn_sender both_ended) = []" "sn_consecutive_retransmissions (cn_sender both_ended) = 0"
    "cn_time_since_last_segment_received both_ended = 0" "cfg_rt_timeout (cn_cfg both_ended) = 1000"
    by (simp_all add: both_ended_def Let_def TCPConnection_new_def TCPSender_new_def TCPConfig_default_def
        TCPConfig_TIMEOUT_DFLT_def)
  then show ?thesis
    using time_wait_lingers [OF both_ended_state, of "[4000, 5999]"] time_wait_lingers [OF both_ended_state, of "[4000, 6000]"]
    by (simp add: TCPSender_consecutive_retransmissions_def TCPConfig_MAX_RETX_ATTEMPTS_def)
qed

section \<open>The passive close\<close>

lemma state_last_ack:
  assumes "TCPConnection_state c = TCPState_of_State LAST_ACK"
  shows "cn_active c" "\<not> cn_linger_after_streams_finish c" "ByteStream_eof (sn_stream (cn_sender c))"
    "sn_outgoing_bytes (cn_sender c) \<noteq> 0" "ByteStream_input_ended (TCPReceiver_stream_out (cn_receiver c))"
    "sn_next_seqno (cn_sender c) \<noteq> 0" "sn_next_seqno (cn_sender c) \<noteq> sn_outgoing_bytes (cn_sender c)"
    "add64 (ByteStream_bytes_written (sn_stream (cn_sender c))) 2 \<le> sn_next_seqno (cn_sender c)"
    "\<not> bs_error (sn_stream (cn_sender c))" "\<not> bs_error (TCPReceiver_stream_out (cn_receiver c))"
    "TCPReceiver_ackno (cn_receiver c) \<noteq> None"
  using assms
  by (auto simp: TCPConnection_state_def TCPState_new_def TCPConnection_active_def state_summary_sender_def
      state_summary_receiver_def summary_defs TCPSender_bytes_in_flight_def TCPSender_next_seqno_absolute_def
      split: if_splits)

text \<open>Once the FIN has been sent there is nothing more to fill the window with.\<close>

lemma fill_window_after_fin:
  assumes "SN_run S sn" and "length S + 2 < UINT_MOD" and "sn_fin sn"
  shows "sn_outgoing_bytes (TCPSender_fill_window sn) = sn_outgoing_bytes sn"
    "sn_next_seqno (TCPSender_fill_window sn) = sn_next_seqno sn"
proof -
  let ?sn = "TCPSender_fill_window sn"
  have sn: "SN_of S sn" "sn_win_size sn < SIZE_MOD" using assms(1) by (simp_all add: SN_run_def)
  note f = SN_fill_window [OF sn(1) assms(2) sn(2)]
  obtain n where n: "sn_outgoing_bytes ?sn = sn_outgoing_bytes sn + n" "sn_next_seqno ?sn = sn_next_seqno sn + n"
    using f(2) unfolding filled_def by blast
  have "sn_next_seqno sn = length S + 2" using sn(1) assms(3) by (auto simp: SN_of_def)
  moreover have "sn_next_seqno ?sn \<le> length S + 2" using SN_next_bound [OF f(1)] by simp
  ultimately have "n = 0" using n by simp
  then show "sn_outgoing_bytes ?sn = sn_outgoing_bytes sn" "sn_next_seqno ?sn = sn_next_seqno sn" using n by simp_all
qed

text \<open>No operation of the sender touches the error flag of its stream.\<close>

lemma fill_loop_keeps_error: "bs_error (sn_stream (TCPSender_fill_loop w sn)) = bs_error (sn_stream sn)"
proof (induction w sn rule: TCPSender_fill_loop.induct)
  case (1 w sn)
  obtain sn1 seg where m: "TCPSender_make_segment w sn = (sn1, seg)" by fastforce
  have "bs_error (sn_stream sn1) = bs_error (sn_stream sn)" using make_segment_parts(4) [of w sn] m by simp
  then show ?case using 1 m by (subst TCPSender_fill_loop.simps) (simp add: Let_def)
qed

lemma fill_keeps_error [simp]: "bs_error (sn_stream (TCPSender_fill_window sn)) = bs_error (sn_stream sn)"
  by (simp add: TCPSender_fill_window_def fill_loop_keeps_error)

lemma ack_keeps_error [simp]: "bs_error (sn_stream (TCPSender_ack_received sn a w)) = bs_error (sn_stream sn)"
  by (simp add: TCPSender_ack_received_def Let_def)

lemma SN_finished:
  assumes "SN_run S sn" and "sn_fin sn" and "length S + 2 < UINT_MOD"
  shows "ByteStream_eof (sn_stream sn)" "sn_next_seqno sn = length S + 2"
    "ByteStream_bytes_written (sn_stream sn) = length S"
proof -
  have s: "bs_buff (sn_stream sn) = []" "bs_isInputEnd (sn_stream sn)" "sn_syn sn" "bs_totout (sn_stream sn) = length S"
    "ByteStream_inv (sn_stream sn)" "sn_next_seqno sn = 1 + bs_totout (sn_stream sn) + 1"
    using assms(1,2) by (auto simp: SN_run_def SN_of_def)
  then show "ByteStream_eof (sn_stream sn)" "sn_next_seqno sn = length S + 2"
    "ByteStream_bytes_written (sn_stream sn) = length S"
    using assms(3) by (simp_all add: ByteStream_accessors ByteStream_inv_def)
qed

lemma SN_all_sent:
  assumes "SN_run S sn" and "sn_next_seqno sn = length S + 2"
  shows "sn_fin sn"
proof (rule ccontr)
  have "sn_next_seqno sn = (if sn_syn sn then 1 else 0) + bs_totout (sn_stream sn) + (if sn_fin sn then 1 else 0)"
    "bs_totout (sn_stream sn) + length (bs_buff (sn_stream sn)) \<le> length S"
    using assms(1) unfolding SN_run_def SN_of_def by blast+
  moreover assume "\<not> sn_fin sn"
  ultimately show False using assms(2) by (simp split: if_splits)
qed

lemma contig_all_acked: "contig S isn lo l hi \<Longrightarrow> acked_off hi l = []"
proof (induction S isn lo l hi rule: contig.induct)
  case (2 S isn lo k seg l hi)
  then have "k + seg_len seg \<le> hi" using contig_le by auto
  then show ?case using 2 by (auto simp: acked_off_def)
qed (simp add: acked_off_def)

lemma ack_of_all:
  fixes w
  assumes "SN_run S sn" and "length S + 2 < UINT_MOD" and "sn_fin sn"
  defines "sn' \<equiv> TCPSender_ack_received sn (wrap (sn_next_seqno sn) (sn_isn sn)) w"
  shows "SN_run S sn'" "sn_outgoing_bytes sn' = 0" "sn_next_seqno sn' = sn_next_seqno sn" "sn_fin sn'"
proof -
  let ?n = "sn_next_seqno sn"
  let ?sn = "(TCPSender_ack_loop (sn_segments_outgoing sn) ?n sn)\<lparr>sn_win_size := unat w, sn_consecutive_retransmissions := 0\<rparr>"
  have sn: "SN_of S sn" using assms(1) by (simp add: SN_run_def)
  have n: "?n < UINT_MOD" using SN_next_bound [OF sn] assms(2) by simp
  have "unwrap (wrap ?n (sn_isn sn)) (sn_isn sn) ?n = ?n" using n by (intro unwrap_unique) simp_all
  then have sn': "sn' = TCPSender_fill_window ?sn" by (simp add: sn'_def TCPSender_ack_received_def Let_def)
  note a = SN_acked [OF sn assms(2), where a = ?n and w = "unat w"]
  have c: "contig S (sn_isn sn) (?n - sn_outgoing_bytes sn) (sn_segments_outgoing sn) ?n"
    using sn unfolding SN_of_def by blast
  have "sn_segments_outgoing ?sn = []" using a(2) contig_all_acked [OF c] by simp
  moreover have "sn_outgoing_bytes ?sn \<le> sn_next_seqno ?sn"
    "contig S (sn_isn ?sn) (sn_next_seqno ?sn - sn_outgoing_bytes ?sn) (sn_segments_outgoing ?sn) (sn_next_seqno ?sn)"
    using a(1) unfolding SN_of_def by blast+
  ultimately have o: "sn_outgoing_bytes ?sn = 0" by (metis contig.simps(1) diff_diff_cancel diff_self_eq_0)
  have run: "SN_run S ?sn" using a(1) unsigned_less [of w, where 'a = nat] by (simp add: SN_run_def)
  have fin: "sn_fin ?sn" using assms(3) by simp
  show "SN_run S sn'" unfolding sn' by (rule SN_run_ops(1) [OF run assms(2)])
  show "sn_outgoing_bytes sn' = 0" "sn_next_seqno sn' = ?n"
    unfolding sn' using fill_window_after_fin [OF run assms(2) fin] o by simp_all
  then have "sn_next_seqno sn' = length S + 2" using SN_finished(2) [OF assms(1,3,2)] by simp
  then show "sn_fin sn'" using SN_all_sent [OF \<open>SN_run S sn'\<close>] by blast
qed

text \<open>
  C26. The passive close. In LAST_ACK the acknowledgment of everything sent, the FIN included, closes
  the connection at once, without lingering.
\<close>

theorem last_ack_closes:
  assumes "CN_of S R i j n c" and "length S + 2 < UINT_MOD" and "TCPConnection_state c = TCPState_of_State LAST_ACK"
    and "\<not> th_syn (seg_header seg)" and "\<not> th_fin (seg_header seg)" and "\<not> th_rst (seg_header seg)"
    and "Buffer_str (seg_payload seg) = []" and "th_ackno (seg_header seg) = TCPSender_next_seqno (cn_sender c)"
  shows "\<exists>c'. TCPConnection_segment_received c seg = Inr c' \<and> TCPConnection_state c' = TCPState_of_State CLOSED \<and>
    \<not> TCPConnection_active c'"
proof -
  let ?sn = "cn_sender c"
  note s = state_last_ack [OF assms(3)]
  have sn: "SN_run S ?sn" "RC_of R j (cn_receiver c)" using assms(1) by (simp_all add: CN_of_def)
  have "bs_buff (sn_stream ?sn) = []" "bs_totin (sn_stream ?sn) = bs_totout (sn_stream ?sn)"
    "sn_next_seqno ?sn \<le> bs_totout (sn_stream ?sn) + 1 + (if sn_fin ?sn then 1 else 0)" "bs_totout (sn_stream ?sn) \<le> length S"
    using sn(1) s(3) by (auto simp: SN_run_def SN_of_def ByteStream_inv_def ByteStream_accessors)
  then have fin: "sn_fin ?sn" using s(8) assms(2) by (auto simp: ByteStream_accessors add64_eq split: if_splits)
  let ?a = "TCPSender_ack_received ?sn (th_ackno (seg_header seg)) (th_win (seg_header seg))"
  note a = ack_of_all [OF sn(1) assms(2) fin, of "th_win (seg_header seg)",
      folded TCPSender_next_seqno_def assms(8)]
  note f = fill_window_after_fin [OF a(1) assms(2) a(4)] and run = SN_run_ops(1) [OF a(1) assms(2)]
  let ?c = "c\<lparr>cn_time_since_last_segment_received := 0, cn_sender := TCPSender_fill_window ?a\<rparr>"
  have r: "TCPConnection_segment_received c seg = Inr (TCPConnection_send_segments ?c)"
    using s assms(6) RC_of_bare [OF sn(2) assms(4,5,7)]
    by (simp add: TCPConnection_segment_received_def TCPSender_next_seqno_absolute_def TCPSender_bytes_in_flight_def
        cn_take_segment_def cn_take_ack_def cn_fill_window_def Let_def)
  have fin': "sn_fin (TCPSender_fill_window ?a)"
    using SN_finished(2) [OF a(1,4) assms(2)] f(2) by (intro SN_all_sent [OF run]) simp
  note e = SN_finished [OF run fin' assms(2)]
  have err: "\<not> bs_error (sn_stream (TCPSender_fill_window ?a))" using s(9) fill_keeps_error ack_keeps_error by simp
  have cl: "\<not> cn_active (TCPConnection_send_segments ?c)"
    using s e f a(2) by (simp add: TCPConnection_send_segments_def drain_eq TCPSender_bytes_in_flight_def Let_def)
  have "state_summary_sender (cn_sender (TCPConnection_send_segments ?c)) = SenderSummary_FIN_ACKED"
    using e f a(2) err assms(2)
    by (simp add: state_summary_sender_def TCPSender_next_seqno_absolute_def TCPSender_bytes_in_flight_def add64_eq)
  moreover have "state_summary_receiver (cn_receiver (TCPConnection_send_segments ?c)) = ReceiverSummary_FIN_RECV"
    using s by (auto simp: state_summary_receiver_def)
  ultimately show ?thesis using r cl
    by (simp add: TCPConnection_state_def TCPState_new_def TCPConnection_active_def)
qed

definition fin_seg :: TCPSegment where
  "fin_seg = \<lparr>seg_header = TCPHeader_default\<lparr>th_fin := True, th_seqno := wrap 1 (WrappingInt32 5)\<rparr>, seg_payload = Buffer_of []\<rparr>"

definition in_last_ack :: TCPConnection where
  "in_last_ack = both_ended\<lparr>cn_linger_after_streams_finish := False,
     cn_sender := (cn_sender both_ended)\<lparr>sn_outgoing_bytes := 1, sn_segments_outgoing := [(1, fin_seg)]\<rparr>\<rparr>"

lemmas sample_defs = in_last_ack_def both_ended_def Let_def TCPConnection_new_def TCPSender_new_def TCPReceiver_new_def
  StreamReassembler_new_def ByteStream_new_def ByteStream_end_input_def TCPConfig_default_def TCPConfig_DEFAULT_CAPACITY_def

lemma in_last_ack_CN: "CN_of [] [] (WrappingInt32 5) (WrappingInt32 0) 0 in_last_ack"
proof -
  have "seg_at [] (WrappingInt32 5) 1 fin_seg" "seg_len fin_seg = 1"
    by (simp_all add: fin_seg_def seg_at_def seg_len_def TCPHeader_default_def)
  then have "SN_run [] (cn_sender in_last_ack)"
    by (simp add: SN_run_def SN_of_def sample_defs ByteStream_inv_def add64_eq)
  moreover have "RC_of [] (WrappingInt32 0) (cn_receiver in_last_ack)"
    by (simp add: RC_of_def SR_of_def SR_inv_def SR_core_def sr_next_def sr_limit_def store_inv_def sample_defs
        ByteStream_inv_def add64_eq)
  ultimately show ?thesis by (simp add: CN_of_def) (simp add: sample_defs TCPReceiver_stream_out_def)
qed

lemma in_last_ack_state: "TCPConnection_state in_last_ack = TCPState_of_State LAST_ACK"
  by (simp add: sample_defs TCPConnection_state_def TCPState_new_def TCPConnection_active_def state_summary_sender_def
      state_summary_receiver_def TCPReceiver_stream_out_def TCPReceiver_ackno_def ByteStream_accessors
      TCPSender_next_seqno_absolute_def TCPSender_bytes_in_flight_def add64_eq)

theorem last_ack_closes_witness:
  "\<exists>c'. TCPConnection_segment_received in_last_ack
      \<lparr>seg_header = TCPHeader_default\<lparr>th_ack := True, th_ackno := TCPSender_next_seqno (cn_sender in_last_ack)\<rparr>,
       seg_payload = Buffer_of []\<rparr> = Inr c' \<and> TCPConnection_state c' = TCPState_of_State CLOSED"
  using last_ack_closes [OF in_last_ack_CN _ in_last_ack_state, of "\<lparr>seg_header = TCPHeader_default
      \<lparr>th_ack := True, th_ackno := TCPSender_next_seqno (cn_sender in_last_ack)\<rparr>, seg_payload = Buffer_of []\<rparr>"]
  by (auto simp: TCPHeader_default_def)

section \<open>What the branches do not look at\<close>



text \<open>
  C36. In SYN_RCVD nothing is sent. Whatever arrives there, data and FIN included, the queue of the
  connection is left as it is, so data that comes with the acknowledgment of the handshake is
  not acknowledged by this call.
\<close>

theorem syn_rcvd_sends_nothing:
  assumes "TCPConnection_state c = TCPState_of_State SYN_RCVD" and "TCPConnection_segment_received c seg = Inr c'"
  shows "cn_segments_out c' = cn_segments_out c"
proof -
  have s: "cn_active c" "sn_next_seqno (cn_sender c) \<noteq> 0" "sn_next_seqno (cn_sender c) = sn_outgoing_bytes (cn_sender c)"
    "TCPReceiver_ackno (cn_receiver c) \<noteq> None" "\<not> ByteStream_input_ended (TCPReceiver_stream_out (cn_receiver c))"
    using assms(1) by (auto simp: TCPConnection_state_def TCPState_new_def TCPConnection_active_def state_summary_sender_def
        state_summary_receiver_def summary_defs TCPSender_bytes_in_flight_def TCPSender_next_seqno_absolute_def
        split: if_splits)
  show ?thesis
  proof (cases "th_rst (seg_header seg)")
    case True
    then show ?thesis using assms(2) s(1) by (auto simp: TCPConnection_segment_received_def Let_def)
  next
    case False
    then have "cn_take_segment seg (cn_take_ack seg (c\<lparr>cn_time_since_last_segment_received := 0\<rparr>)) = Inr c'"
      using assms(2) s by (simp add: TCPConnection_segment_received_def TCPSender_next_seqno_absolute_def
          TCPSender_bytes_in_flight_def Let_def)
    then show ?thesis
      by (auto simp: cn_take_segment_def cn_take_ack_def bindR_def split: sum.splits)
  qed
qed

theorem syn_rcvd_sends_nothing_witness:
  "\<exists>c seg c'. TCPConnection_state c = TCPState_of_State SYN_RCVD \<and> \<not> th_rst (seg_header seg) \<and>
     TCPConnection_segment_received c seg = Inr c' \<and> cn_segments_out c' = cn_segments_out c"
proof -
  let ?syn = "\<lparr>seg_header = TCPHeader_default\<lparr>th_syn := True\<rparr>, seg_payload = Buffer_of []\<rparr>"
  have h: "cfg_recv_capacity TCPConfig_default < ULLONG_MAX" "th_syn (seg_header ?syn)" "\<not> th_fin (seg_header ?syn)"
    "\<not> th_rst (seg_header ?syn)" "Buffer_str (seg_payload ?syn) = []"
    by (simp_all add: TCPHeader_default_def TCPConfig_default_def TCPConfig_DEFAULT_CAPACITY_def)
  obtain c synack where c: "TCPConnection_segment_received (TCPConnection_new TCPConfig_default 5) ?syn = Inr c"
    "cn_segments_out c = [synack]" "cn_active c" "cn_linger_after_streams_finish c" "\<exists>seg. sent_syn (cn_sender c) seg"
    "got_syn (th_seqno (seg_header ?syn)) (cn_receiver c)"
    by (rule listen_syn [OF refl h, of 5])
  then obtain seg where seg: "sent_syn (cn_sender c) seg" by blast
  let ?ack = "\<lparr>seg_header = TCPHeader_default\<lparr>th_ack := True, th_ackno := wrap 1 (sn_isn (cn_sender c))\<rparr>,
    seg_payload = Buffer_of []\<rparr>"
  obtain c' where c': "TCPConnection_segment_received c ?ack = Inr c'"
    by (rule syn_rcvd_ack [OF seg c(3,6), of ?ack]) (simp_all add: TCPHeader_default_def)
  have s: "TCPConnection_state c = TCPState_of_State SYN_RCVD" by (rule state_shapes(2) [OF c(3,4) seg c(6)])
  show ?thesis using syn_rcvd_sends_nothing [OF s c'] s c'
    by (intro exI [of _ c] exI [of _ ?ack] exI [of _ c']) (simp add: TCPHeader_default_def)
qed

end
