(* ===== verification/Retransmission.thy ===== *)
theory Retransmission
  imports Sending
begin

text \<open>
  Why retransmission makes progress: the oldest outstanding segment of a sender, when it reaches a
  receiver that has everything before it and room for it, moves the acknowledgment past it, and
  that acknowledgment, when it comes back, takes it off the sender's list.
\<close>

lemma seg_at_accepted:
  assumes "RC_of S isn rc" and "seg_at S isn k seg" and "length S + 2 < UINT_MOD"
    and "if k = 0 then \<not> rc_syn rc else rc_syn rc \<and> k - 1 \<le> sr_next (rc_reassembler rc)"
    and "k - 1 + length (Buffer_str (seg_payload seg)) \<le> bs_totout (sr_output (rc_reassembler rc)) + rc_capacity rc"
  obtains rc' p where "TCPReceiver_segment_received rc seg = Inr rc'" "RC_of S isn rc'"
    "TCPReceiver_ackno rc' = Some (wrap p isn)" "k + seg_len seg \<le> p" "p \<le> length S + 2"
proof -
  let ?h = "seg_header seg" and ?d = "Buffer_str (seg_payload seg)"
  have at: "th_seqno ?h = wrap k isn" "th_syn ?h = (k = 0)" "op_of S (Push ?d (k - 1) (th_fin ?h))"
    using assms(2) by (simp_all add: seg_at_def)
  have S: "length S < 4294967295" using assms(3) by simp
  have new: "rc_syn rc \<noteq> th_syn ?h" and seq: "th_seqno ?h = wrap (if th_syn ?h then 0 else k - 1 + 1) isn"
    and k0: "th_syn ?h \<longrightarrow> k - 1 = 0" and before: "k - 1 \<le> sr_next (rc_reassembler rc)"
    using at assms(4) by (auto split: if_splits)
  obtain rc' where rc': "TCPReceiver_segment_received rc seg = Inr rc'" "RC_of S isn rc'" "rc_syn rc'"
    "k - 1 \<le> sr_next (rc_reassembler rc) \<longrightarrow>
       min (k - 1 + length ?d) (bs_totout (sr_output (rc_reassembler rc)) + rc_capacity rc) \<le> sr_next (rc_reassembler rc')"
    "th_fin ?h \<longrightarrow> sr_posEOF (rc_reassembler rc') = length S"
    by (rule RC_push [OF assms(1) new S seq k0 at(3)])
  let ?n = "sr_next (rc_reassembler rc')" and ?e = "bs_isInputEnd (sr_output (rc_reassembler rc'))"
  have r: "?n \<le> length S" "?e = (?n = sr_posEOF (rc_reassembler rc'))"
    using rc'(2) by (simp_all add: RC_of_def SR_of_def SR_inv_def)
  have got: "k - 1 + length ?d \<le> ?n" using rc'(4) before assms(5) by simp
  have "?e" if "th_fin ?h" using that rc'(5) r at(3) got by simp
  then have "k + seg_len seg \<le> ?n + 1 + (if ?e then 1 else 0)" using got at(2) by (auto simp: seg_len_def)
  moreover have "?n + 1 + (if ?e then 1 else 0) \<le> length S + 2" using r(1) by simp
  ultimately show ?thesis using that [OF rc'(1,2)] RC_advertise(1) [OF rc'(2) S] rc'(3) by simp
qed

text \<open>
  C8. Progress. Let the receiver have everything before the sender's oldest outstanding segment, and
  room for it. When that segment arrives (the first time or retransmitted), the receiver's
  acknowledgment number is at or past its end, and the sender that gets this acknowledgment has
  only later segments outstanding.
\<close>

theorem retransmission_progress:
  assumes "SN_of S sn" and "RC_of S (sn_isn sn) rc" and "length S + 2 < UINT_MOD"
    and "sn_segments_outgoing sn = (k, seg) # l" and "TCPSender_bytes_in_flight sn < 2147483648"
    and "if k = 0 then \<not> rc_syn rc else rc_syn rc \<and> k - 1 \<le> sr_next (rc_reassembler rc)"
    and "k - 1 + length (Buffer_str (seg_payload seg)) \<le> bs_totout (sr_output (rc_reassembler rc)) + rc_capacity rc"
  shows "\<exists>rc' p. TCPReceiver_segment_received rc seg = Inr rc' \<and> TCPReceiver_ackno rc' = Some (wrap p (sn_isn sn)) \<and>
    k + seg_len seg \<le> p \<and>
    (p \<le> TCPSender_next_seqno_absolute sn \<longrightarrow>
      (\<forall>w. \<forall>(k', seg') \<in> set (sn_segments_outgoing (TCPSender_ack_received sn (wrap p (sn_isn sn)) w)).
         k + seg_len seg \<le> k'))"
proof -
  let ?n = "sn_next_seqno sn"
  have c: "contig S (sn_isn sn) (?n - sn_outgoing_bytes sn) ((k, seg) # l) ?n" "sn_outgoing_bytes sn \<le> ?n"
    using assms(1) unfolding SN_of_def assms(4) by blast+
  then have at: "seg_at S (sn_isn sn) k seg" "0 < seg_len seg" "contig S (sn_isn sn) (k + seg_len seg) l ?n"
    "k = ?n - sn_outgoing_bytes sn" by auto
  obtain rc' p where rc': "TCPReceiver_segment_received rc seg = Inr rc'"
    "TCPReceiver_ackno rc' = Some (wrap p (sn_isn sn))" "k + seg_len seg \<le> p"
    by (rule seg_at_accepted [OF assms(2) at(1) assms(3,6,7)])
  have "k + seg_len seg \<le> k'"
    if p: "p \<le> ?n" and x: "(k', seg') \<in> set (sn_segments_outgoing (TCPSender_ack_received sn (wrap p (sn_isn sn)) w))"
    for k' seg' w
  proof -
    have "\<bar>int p - int ?n\<bar> < 2147483648" using p rc'(3) at(4) assms(5) c(2) by (simp add: TCPSender_bytes_in_flight_def)
    then obtain m where m: "sn_segments_outgoing (TCPSender_ack_received sn (wrap p (sn_isn sn)) w) =
         filter (\<lambda>(k, seg). p < k + seg_len seg) (sn_segments_outgoing sn) @ m"
      "\<forall>(k, seg) \<in> set m. ?n \<le> k" by (rule ack_outgoing [OF assms(1,3) _ p refl])
    consider "(k', seg') \<in> set l" | "?n \<le> k'" using x rc'(3) m(2) unfolding m(1) assms(4) by auto
    then show ?thesis using contig_keys [OF at(3)] contig_le [OF at(3)] by cases auto
  qed
  then show ?thesis using rc' by (intro exI [of _ rc'] exI [of _ p]) (auto simp: TCPSender_next_seqno_absolute_def)
qed

definition syn_seg :: TCPSegment where
  "syn_seg = \<lparr>seg_header = TCPHeader_default\<lparr>th_syn := True, th_seqno := wrap 0 (WrappingInt32 7)\<rparr>, seg_payload = Buffer_of []\<rparr>"

definition in_syn_sent :: TCPSender where
  "in_syn_sent = (TCPSender_new 10 500 (Some (WrappingInt32 7)) 0)\<lparr>sn_syn := True, sn_next_seqno := 1,
     sn_outgoing_bytes := 1, sn_segments_outgoing := [(0, syn_seg)]\<rparr>"

lemma in_syn_sent_SN: "SN_of [1] in_syn_sent"
proof -
  have "seg_at [1] (WrappingInt32 7) 0 syn_seg" "seg_len syn_seg = 1"
    by (simp_all add: syn_seg_def seg_at_def seg_len_def TCPHeader_default_def)
  then show ?thesis
    by (simp add: SN_of_def in_syn_sent_def TCPSender_new_def ByteStream_new_def ByteStream_inv_def)
qed

theorem retransmission_progress_witness:
  "\<exists>rc' p. TCPReceiver_segment_received (TCPReceiver_new 10) syn_seg = Inr rc' \<and>
     TCPReceiver_ackno rc' = Some (wrap p (WrappingInt32 7)) \<and> 1 \<le> p"
proof -
  have isn: "sn_isn in_syn_sent = WrappingInt32 7" by (simp add: in_syn_sent_def TCPSender_new_def)
  have h: "sn_segments_outgoing in_syn_sent = (0, syn_seg) # []" "TCPSender_bytes_in_flight in_syn_sent < 2147483648"
    "\<not> rc_syn (TCPReceiver_new 10)" "seg_len syn_seg = 1" "Buffer_str (seg_payload syn_seg) = []"
    by (simp_all add: in_syn_sent_def TCPSender_bytes_in_flight_def TCPReceiver_new_def syn_seg_def seg_len_def TCPHeader_default_def)
  show ?thesis
    using retransmission_progress [OF in_syn_sent_SN RC_of_new [of 10] _ h(1,2)] h(3-5) isn by auto
qed

end
