(* ===== verification/Reliable_Delivery.thy ===== *)
theory Reliable_Delivery
  imports Connection_States Retransmission
begin

text \<open>
  Two endpoints over a network that loses, duplicates, delays and reorders segments. The
  contract of an endpoint is the locale \<open>stream_endpoint\<close>: its own operations and the receipt
  of pieces of the peer's stream keep an invariant, under which what it emits are
  pieces of its stream and what its application has read is a prefix of the peer's. The network
  theorem is proved from the contract and \<open>TCPConnection\<close> is shown to satisfy it.
\<close>

section \<open>The network\<close>

text \<open>
  \<open>net_reach app rcv out A B a0 b0\<close>: the reachable states of two endpoints that start as
  \<open>a0\<close> and \<open>b0\<close>, whose applications write \<open>A\<close> and \<open>B\<close>. \<open>ab\<close> and \<open>ba\<close> list what has
  been put on the wire; delivering a message does not remove it, and nothing forces its delivery. A message is a
  segment here, and the bytes of a datagram in \<open>Wire_Delivery\<close>.
\<close>

inductive net_reach ::
  "(byte list \<Rightarrow> 'x \<Rightarrow> 'e \<Rightarrow> 'e) \<Rightarrow> ('e \<Rightarrow> 'm \<Rightarrow> 'e res) \<Rightarrow> ('e \<Rightarrow> 'm list) \<Rightarrow>
   byte list \<Rightarrow> byte list \<Rightarrow> 'e \<Rightarrow> 'e \<Rightarrow> 'e \<Rightarrow> 'e \<Rightarrow> 'm list \<Rightarrow> 'm list \<Rightarrow> bool"
  for app rcv out A B a0 b0 where
  start: "net_reach app rcv out A B a0 b0 a0 b0 [] []"
| local_a: "net_reach app rcv out A B a0 b0 a b ab ba \<Longrightarrow> net_reach app rcv out A B a0 b0 (app A x a) b ab ba"
| local_b: "net_reach app rcv out A B a0 b0 a b ab ba \<Longrightarrow> net_reach app rcv out A B a0 b0 a (app B x b) ab ba"
| emit_a: "net_reach app rcv out A B a0 b0 a b ab ba \<Longrightarrow> seg \<in> set (out a) \<Longrightarrow>
    net_reach app rcv out A B a0 b0 a b (seg # ab) ba"
| emit_b: "net_reach app rcv out A B a0 b0 a b ab ba \<Longrightarrow> seg \<in> set (out b) \<Longrightarrow>
    net_reach app rcv out A B a0 b0 a b ab (seg # ba)"
| arrive_a: "net_reach app rcv out A B a0 b0 a b ab ba \<Longrightarrow> seg \<in> set ba \<Longrightarrow> rcv a seg = Inr a' \<Longrightarrow>
    net_reach app rcv out A B a0 b0 a' b ab ba"
| arrive_b: "net_reach app rcv out A B a0 b0 a b ab ba \<Longrightarrow> seg \<in> set ab \<Longrightarrow> rcv b seg = Inr b' \<Longrightarrow>
    net_reach app rcv out A B a0 b0 a b' ab ba"

locale stream_endpoint =
  fixes Inv :: "byte list \<Rightarrow> byte list \<Rightarrow> WrappingInt32 \<Rightarrow> WrappingInt32 \<Rightarrow> 'e \<Rightarrow> bool"
    and app :: "byte list \<Rightarrow> 'x \<Rightarrow> 'e \<Rightarrow> 'e"
    and rcv :: "'e \<Rightarrow> 'm \<Rightarrow> 'e res"
    and out :: "'e \<Rightarrow> 'm list"
    and got :: "'e \<Rightarrow> byte list"
    and fin :: "'e \<Rightarrow> bool"
    and limit :: nat
    and msg :: "byte list \<Rightarrow> WrappingInt32 \<Rightarrow> 'm \<Rightarrow> bool"
  assumes app_keeps: "Inv S R i j e \<Longrightarrow> length S < limit \<Longrightarrow> length R < limit \<Longrightarrow> Inv S R i j (app S x e)"
    and rcv_keeps: "Inv S R i j e \<Longrightarrow> length S < limit \<Longrightarrow> length R < limit \<Longrightarrow> msg R j seg \<Longrightarrow>
      \<exists>e'. rcv e seg = Inr e' \<and> Inv S R i j e'"
    and emits: "Inv S R i j e \<Longrightarrow> seg \<in> set (out e) \<Longrightarrow> msg S i seg"
    and delivers: "Inv S R i j e \<Longrightarrow> got e = take (length (got e)) R"
    and finishes: "Inv S R i j e \<Longrightarrow> length R < limit \<Longrightarrow> fin e \<Longrightarrow> got e = R"
begin

lemma network_invariant:
  assumes "net_reach app rcv out A B a0 b0 a b ab ba" and "Inv A B i j a0" and "Inv B A j i b0"
    and "length A < limit" and "length B < limit"
  shows "Inv A B i j a \<and> Inv B A j i b \<and> (\<forall>seg \<in> set ab. msg A i seg) \<and> (\<forall>seg \<in> set ba. msg B j seg)"
  using assms(1)
proof induction
  case start
  then show ?case using assms(2,3) by simp
next
  case (arrive_a a b ab ba seg a')
  then show ?case using rcv_keeps [of A B i j a seg] assms(4,5) by fastforce
next
  case (arrive_b a b ab ba seg b')
  then show ?case using rcv_keeps [of B A j i b seg] assms(4,5) by fastforce
qed (use app_keeps emits assms(4,5) in auto)

lemma network_delivery:
  assumes "net_reach app rcv out A B a0 b0 a b ab ba" and "Inv A B i j a0" and "Inv B A j i b0"
    and "length A < limit" and "length B < limit"
  shows "got a = take (length (got a)) B" "got b = take (length (got b)) A"
    "fin a \<longrightarrow> got a = B" "fin b \<longrightarrow> got b = A"
    "\<forall>seg \<in> set ba. \<exists>a'. rcv a seg = Inr a'" "\<forall>seg \<in> set ab. \<exists>b'. rcv b seg = Inr b'"
proof -
  note I = network_invariant [OF assms]
  show "got a = take (length (got a)) B" "got b = take (length (got b)) A" using I delivers by blast+
  show "fin a \<longrightarrow> got a = B" "fin b \<longrightarrow> got b = A" using I finishes assms(4,5) by blast+
  show "\<forall>seg \<in> set ba. \<exists>a'. rcv a seg = Inr a'" "\<forall>seg \<in> set ab. \<exists>b'. rcv b seg = Inr b'"
    using I rcv_keeps assms(4,5) by blast+
qed

end

section \<open>A TCPConnection and its application\<close>

text \<open>
  The application writes its stream in order, closes it when all of it has been accepted,
  and reads what arrives; the second component collects what it has read.
\<close>

type_synonym endpoint = "TCPConnection \<times> byte list"

datatype ep_op = Ep_connect | Ep_write nat | Ep_end | Ep_tick size_t | Ep_read size_t | Ep_take

fun ep_app :: "byte list \<Rightarrow> ep_op \<Rightarrow> endpoint \<Rightarrow> endpoint" where
  "ep_app S Ep_connect (c, got) = (TCPConnection_connect c, got)"
| "ep_app S (Ep_write n) (c, got) = (fst (TCPConnection_write c (chunk S (snd_written (cn_sender c)) n)), got)"
| "ep_app S Ep_end (c, got) =
     (if snd_written (cn_sender c) = length S then TCPConnection_end_input_stream c else c, got)"
| "ep_app S (Ep_tick ms) (c, got) = (TCPConnection_tick c ms, got)"
| "ep_app S (Ep_read n) (c, got) =
     (let (stream, data) = ByteStream_read (TCPConnection_inbound_stream c) n;
          r = (rc_reassembler (cn_receiver c))\<lparr>sr_output := stream\<rparr>
      in (c\<lparr>cn_receiver := (cn_receiver c)\<lparr>rc_reassembler := r\<rparr>\<rparr>, got @ data))"
| "ep_app S Ep_take (c, got) = (c\<lparr>cn_segments_out := []\<rparr>, got)"

definition ep_rcv :: "endpoint \<Rightarrow> TCPSegment \<Rightarrow> endpoint res" where
  "ep_rcv e seg = bindR (TCPConnection_segment_received (fst e) seg) (\<lambda>c. Inr (c, snd e))"

definition ep_out :: "endpoint \<Rightarrow> TCPSegment list" where
  "ep_out e = cn_segments_out (fst e)"

definition EP_of :: "byte list \<Rightarrow> byte list \<Rightarrow> WrappingInt32 \<Rightarrow> WrappingInt32 \<Rightarrow> endpoint \<Rightarrow> bool" where
  "EP_of S R i j e \<longleftrightarrow> CN_of S R i j (length (snd e)) (fst e) \<and> snd e = take (length (snd e)) R"

lemma EP_write:
  assumes "CN_of S R i j n c" and "length S + 2 < UINT_MOD"
  shows "CN_of S R i j n (fst (TCPConnection_write c (chunk S (snd_written (cn_sender c)) k)))"
proof -
  let ?d = "chunk S (snd_written (cn_sender c)) k" and ?sn = "cn_sender c"
  have sn: "SN_run S ?sn" using assms(1) by (simp add: CN_of_def)
  from SN_run_ops(1) [OF SN_run_step [OF sn assms(2), of "Snd_write k"] assms(2)]
  have "CN_of S R i j n (c\<lparr>cn_sender := TCPSender_fill_window
      (?sn\<lparr>sn_stream := fst (ByteStream_write (sn_stream ?sn) ?d)\<rparr>)\<rparr>)"
    using assms(1) by (simp add: CN_of_def)
  from CN_send_segments [OF this assms(2)] show ?thesis
    using assms(1) by (simp add: TCPConnection_write_def Let_def case_prod_beta)
qed

lemma EP_end:
  assumes "CN_of S R i j n c" and "length S + 2 < UINT_MOD" and "snd_written (cn_sender c) = length S"
  shows "CN_of S R i j n (TCPConnection_end_input_stream c)"
proof -
  let ?sn = "cn_sender c"
  have sn: "SN_run S ?sn" using assms(1) by (simp add: CN_of_def)
  from SN_run_ops(1) [OF SN_run_step [OF sn assms(2), of Snd_end] assms(2)] assms(3)
  have "CN_of S R i j n (c\<lparr>cn_sender := TCPSender_fill_window
      (?sn\<lparr>sn_stream := ByteStream_end_input (sn_stream ?sn)\<rparr>)\<rparr>)"
    using assms(1) by (simp add: CN_of_def)
  from CN_send_segments [OF this assms(2)] show ?thesis
    by (simp add: TCPConnection_end_input_stream_def Let_def)
qed

lemma EP_read:
  assumes "EP_of S R i j (c, got)" and "length R < 4294967295"
  shows "EP_of S R i j (ep_app S (Ep_read k) (c, got))"
proof -
  let ?r = "rc_reassembler (cn_receiver c)"
  have rc: "RC_of R j (cn_receiver c)" "bs_totout (sr_output ?r) = length got" "got = take (length got) R"
    using assms(1) by (simp_all add: EP_of_def CN_of_def TCPReceiver_stream_out_def)
  then have sr: "SR_of R ?r" "length R + sr_capacity ?r < ULLONG_MAX" using assms(2) by (simp_all add: RC_of_def)
  note rd = SR_of_read [OF sr, of k]
  have nx: "sr_next (?r\<lparr>sr_output := fst (ByteStream_read (sr_output ?r) k)\<rparr>) = sr_next ?r"
    using rd(3) by (auto simp: sr_next_def min_def)
  have "sr_next ?r \<le> length R" using sr(1) by (simp add: SR_of_def)
  then have len: "length got + min k (length (bs_buff (sr_output ?r))) \<le> length R"
    using rc(2) by (simp add: sr_next_def)
  have "got @ snd (ByteStream_read (sr_output ?r) k) = take (length got + min k (length (bs_buff (sr_output ?r)))) R"
    unfolding rd(2) rc(2) chunk_def using rc(3) by (metis take_add)
  moreover have "RC_of R j ((cn_receiver c)\<lparr>rc_reassembler := ?r\<lparr>sr_output := fst (ByteStream_read (sr_output ?r) k)\<rparr>\<rparr>)"
    using rc(1) rd(1) nx by (simp add: RC_of_def)
  ultimately show ?thesis using assms(1) rd(3) rc(2) len
    by (simp add: EP_of_def CN_of_def TCPConnection_inbound_stream_def TCPReceiver_stream_out_def Let_def case_prod_beta)
qed

definition ep_fin :: "endpoint \<Rightarrow> bool" where
  "ep_fin e = ByteStream_eof (TCPConnection_inbound_stream (fst e))"

lemma EP_fin:
  assumes "EP_of S R i j e" and "length R < 4294967294" and "ep_fin e"
  shows "snd e = R"
proof -
  let ?r = "rc_reassembler (cn_receiver (fst e))"
  have r: "SR_of R ?r" "bs_totout (sr_output ?r) = length (snd e)" "snd e = take (length (snd e)) R"
    using assms(1) by (simp_all add: EP_of_def CN_of_def RC_of_def TCPReceiver_stream_out_def)
  have "sr_next ?r = sr_posEOF ?r" "bs_buff (sr_output ?r) = []"
    using r(1) assms(3) by (auto simp: SR_of_def SR_inv_def ep_fin_def TCPConnection_inbound_stream_def
        TCPReceiver_stream_out_def ByteStream_accessors)
  then have "length (snd e) = length R" using r(1,2) assms(2) by (auto simp: SR_of_def sr_next_def)
  then show ?thesis using r(3) by simp
qed

lemma EP_app:
  assumes "EP_of S R i j e" and "length S < 4294967294" and "length R < 4294967294"
  shows "EP_of S R i j (ep_app S x e)"
proof -
  obtain c got where e: "e = (c, got)" by fastforce
  have b: "length S + 2 < UINT_MOD" "length R < 4294967295" using assms(2,3) by simp_all
  have c: "CN_of S R i j (length got) c" "got = take (length got) R" using assms(1) e by (simp_all add: EP_of_def)
  show ?thesis
  proof (cases x)
    case Ep_connect
    then show ?thesis using CN_send_segments [OF CN_parts(3) [OF c(1) b(1)] b(1)] c(2) e
      by (simp add: EP_of_def connect_eq)
  next
    case (Ep_read k)
    then show ?thesis using EP_read assms(1) b(2) e by simp
  next
    case Ep_take
    then show ?thesis using c e by (simp add: EP_of_def CN_of_def)
  qed (use c e EP_write [OF c(1) b(1)] EP_end [OF c(1) b(1)] CN_tick [OF c(1) b(1)] in \<open>simp_all add: EP_of_def\<close>)
qed

lemma EP_rcv:
  assumes "EP_of S R i j e" and "length S < 4294967294" and "length R < 4294967294" and "seg_of R j seg"
  shows "\<exists>e'. ep_rcv e seg = Inr e' \<and> EP_of S R i j e'"
proof -
  have "CN_res S R i j (length (snd e)) (TCPConnection_segment_received (fst e) seg)"
    using assms by (intro CN_segment_received) (simp_all add: EP_of_def)
  then show ?thesis using assms(1) by (auto simp: CN_res_def ep_rcv_def EP_of_def)
qed

lemma EP_emits: "EP_of S R i j e \<Longrightarrow> seg \<in> set (ep_out e) \<Longrightarrow> seg_of S i seg"
  by (simp add: EP_of_def CN_of_def ep_out_def)

lemma EP_delivers: "EP_of S R i j e \<Longrightarrow> snd e = take (length (snd e)) R"
  unfolding EP_of_def by blast

interpretation tcp: stream_endpoint EP_of ep_app ep_rcv ep_out snd ep_fin 4294967294 seg_of
  by unfold_locales (fact EP_app EP_rcv EP_emits EP_delivers EP_fin)+

lemma EP_of_new:
  assumes "cfg_recv_capacity cfg < 2147483648" and "cfg_send_capacity cfg < SIZE_MOD"
  shows "EP_of S R (sn_isn (cn_sender (TCPConnection_new cfg rnd))) j (TCPConnection_new cfg rnd, [])"
proof -
  have "RC_of R j (TCPReceiver_new (cfg_recv_capacity cfg))"
    "SN_run S (TCPSender_new (cfg_send_capacity cfg) (cfg_rt_timeout cfg) (cfg_fixed_isn cfg) rnd)"
    using RC_of_new [OF assms(1)] SN_run_new [OF assms(2)] by blast+
  moreover have "bs_totout (TCPReceiver_stream_out (TCPReceiver_new (cfg_recv_capacity cfg))) = 0"
    by (simp add: TCPReceiver_stream_out_def TCPReceiver_new_def StreamReassembler_new_def ByteStream_new_def)
  ultimately show ?thesis by (simp add: EP_of_def CN_of_def TCPConnection_new_def)
qed

section \<open>Reliable delivery\<close>

text \<open>
  C1. Two \<open>TCPConnection\<close>s over a network that may lose, duplicate, delay and reorder what they
  send. Whatever their applications do and whenever the network delivers, each application
  has read a prefix of what the other one wrote, all of it once its inbound stream is at
  its end, and no delivery raises an exception.
\<close>

theorem reliable_delivery:
  assumes "net_reach ep_app ep_rcv ep_out A B (TCPConnection_new cfga ra, []) (TCPConnection_new cfgb rb, [])
      (a, gota) (b, gotb) ab ba"
    and "length A < 4294967294" and "length B < 4294967294"
    and "cfg_recv_capacity cfga < 2147483648" and "cfg_send_capacity cfga < SIZE_MOD"
    and "cfg_recv_capacity cfgb < 2147483648" and "cfg_send_capacity cfgb < SIZE_MOD"
  shows "(\<exists>rest. B = gota @ rest) \<and> (\<exists>rest. A = gotb @ rest) \<and>
    (ByteStream_eof (TCPConnection_inbound_stream a) \<longrightarrow> gota = B) \<and>
    (ByteStream_eof (TCPConnection_inbound_stream b) \<longrightarrow> gotb = A) \<and>
    (\<forall>seg \<in> set ba. \<exists>a'. TCPConnection_segment_received a seg = Inr a') \<and>
    (\<forall>seg \<in> set ab. \<exists>b'. TCPConnection_segment_received b seg = Inr b')"
proof -
  note d = tcp.network_delivery [OF assms(1) EP_of_new [OF assms(4,5)] EP_of_new [OF assms(6,7)] assms(2,3)]
  have "\<exists>rest. B = gota @ rest" "\<exists>rest. A = gotb @ rest" using d(1,2) by (metis append_take_drop_id snd_conv)+
  moreover have ex: "\<exists>c'. TCPConnection_segment_received c seg = Inr c'" if "\<exists>e. ep_rcv (c, g) seg = Inr e" for c g seg
    using that by (cases "TCPConnection_segment_received c seg") (simp_all add: ep_rcv_def)
  have "\<forall>seg \<in> set ba. \<exists>a'. TCPConnection_segment_received a seg = Inr a'"
    "\<forall>seg \<in> set ab. \<exists>b'. TCPConnection_segment_received b seg = Inr b'"
    using d(5,6) ex by blast+
  ultimately show ?thesis using d(3,4) unfolding ep_fin_def fst_conv snd_conv by blast
qed

text \<open>A SYN that has been sent, delivered and answered.\<close>

theorem reliable_delivery_witness:
  "\<exists>a b ab ba. net_reach ep_app ep_rcv ep_out [7] [] (TCPConnection_new TCPConfig_default 5, [])
      (TCPConnection_new TCPConfig_default 9, []) a b ab ba \<and> ab \<noteq> [] \<and> ep_out b \<noteq> [] \<and> (\<exists>rest. [7] = snd b @ rest)"
proof -
  let ?a = "TCPConnection_new TCPConfig_default 5" and ?b = "TCPConnection_new TCPConfig_default 9"
  let ?c = "TCPConnection_connect ?a"
  have cap: "cfg_recv_capacity TCPConfig_default < 2147483648" "cfg_send_capacity TCPConfig_default < SIZE_MOD"
    "cfg_recv_capacity TCPConfig_default < ULLONG_MAX" by (simp_all add: TCPConfig_default_def TCPConfig_DEFAULT_CAPACITY_def)
  obtain syn where syn: "cn_segments_out ?c = [syn]" "sent_syn (cn_sender ?c) syn"
    "th_seqno (seg_header syn) = sn_isn (cn_sender ?a)" "\<not> th_ack (seg_header syn)" "\<not> th_rst (seg_header syn)"
    by (rule connect_new [OF refl])
  have s: "th_syn (seg_header syn)" "\<not> th_fin (seg_header syn)" "Buffer_str (seg_payload syn) = []"
    using syn(2) by (simp_all add: sent_syn_def)
  obtain b synack where b: "TCPConnection_segment_received ?b syn = Inr b" "cn_segments_out b = [synack]"
    by (rule listen_syn [OF refl cap(3) s(1,2) syn(5) s(3)])
  have "net_reach ep_app ep_rcv ep_out [7] [] (?a, []) (?b, []) (?c, []) (?b, []) [] []"
    using net_reach.local_a [OF net_reach.start, of ep_app ep_rcv ep_out "[7]" "[]" "(?a, [])" "(?b, [])" Ep_connect] by simp
  from net_reach.emit_a [OF this, of syn] syn(1)
  have "net_reach ep_app ep_rcv ep_out [7] [] (?a, []) (?b, []) (?c, []) (?b, []) [syn] []" by (simp add: ep_out_def)
  from net_reach.arrive_b [OF this, of syn "(b, [])"] b(1)
  have r: "net_reach ep_app ep_rcv ep_out [7] [] (?a, []) (?b, []) (?c, []) (b, []) [syn] []" by (simp add: ep_rcv_def)
  from reliable_delivery [OF r _ _ cap(1,2) cap(1,2)] have "\<exists>rest. [7::byte] = [] @ rest" by simp
  then show ?thesis using r b(2)
    by (intro exI [of _ "(?c, [])"] exI [of _ "(b, [])"] exI [of _ "[syn]"] exI [of _ "[]"]) (simp add: ep_out_def)
qed

end
