(* ===== verification/Connection_Invariants.thy ===== *)
theory Connection_Invariants
  imports Tcp_Connection
begin

text \<open>
  What a predicate on connections has to satisfy to hold through every method of \<open>TCPConnection\<close>: the locale
  \<open>connection_invariant\<close> asks for the building blocks only. Two instances: how much the application has written
  does not change behind its back, and every segment a connection ever sends is small.
\<close>

abbreviation rst_segment :: TCPSegment where
  "rst_segment \<equiv> TCPSegment_default\<lparr>seg_header := (seg_header TCPSegment_default)\<lparr>th_rst := True\<rparr>\<rparr>"

locale connection_invariant =
  fixes P :: "TCPConnection \<Rightarrow> bool"
  assumes take_ack: "P c \<Longrightarrow> P (cn_take_ack seg c)"
    and empty_segment: "P c \<Longrightarrow> P (cn_empty_segment c)"
    and fill: "P c \<Longrightarrow> P (cn_fill_window c)"
    and time: "P c \<Longrightarrow> P (c\<lparr>cn_time_since_last_segment_received := t\<rparr>)"
    and ticked: "P c \<Longrightarrow> P (c\<lparr>cn_sender := TCPSender_tick (cn_sender c) ms\<rparr>)"
    and send: "P c \<Longrightarrow> P (TCPConnection_send_segments c)"
    and error: "P c \<Longrightarrow> P (c\<lparr>cn_sender := sender_set_error (cn_sender c),
        cn_receiver := receiver_set_error (cn_receiver c), cn_active := False\<rparr>)"
    and reset: "P c \<Longrightarrow> P (c\<lparr>cn_segments_out := cn_segments_out c @ [rst_segment]\<rparr>)"
    and receiver: "P c \<Longrightarrow> P (c\<lparr>cn_receiver := rc\<rparr>)"
begin

definition holds :: "TCPConnection res \<Rightarrow> bool" where
  "holds x \<longleftrightarrow> (\<forall>c. x = Inr c \<longrightarrow> P c)"

lemma holds_Inr: "P c \<Longrightarrow> holds (Inr c)"
  by (simp add: holds_def)

lemma holds_bind: "holds x \<Longrightarrow> (\<And>c. P c \<Longrightarrow> holds (f c)) \<Longrightarrow> holds (bindR x f)"
  by (auto simp: holds_def)

lemma holds_if: "holds x \<Longrightarrow> holds y \<Longrightarrow> holds (if b then x else y)" "P c \<Longrightarrow> P d \<Longrightarrow> P (if b then c else d)"
  by simp_all

lemma holds_take: "P c \<Longrightarrow> holds (cn_take_segment seg c)"
  by (auto simp: holds_def cn_take_segment_def receiver)

lemma segment_received_holds:
  assumes "P c"
  shows "holds (TCPConnection_segment_received c seg)"
proof -
  have c: "P (c\<lparr>cn_time_since_last_segment_received := 0\<rparr>)" by (rule time [OF assms])
  show ?thesis
    unfolding TCPConnection_segment_received_def Let_def connect_eq
    by (intro holds_if holds_bind holds_take holds_Inr send take_ack empty_segment fill error c assms; assumption)
qed

lemma segment_received_keeps: "P c \<Longrightarrow> TCPConnection_segment_received c seg = Inr c' \<Longrightarrow> P c'"
  using segment_received_holds by (auto simp: holds_def)

lemma reset_keeps:
  assumes "P c"
  shows "P (TCPConnection_reset_connection c)"
proof -
  let ?c = "c\<lparr>cn_sender := sender_set_error (cn_sender c), cn_receiver := receiver_set_error (cn_receiver c), cn_active := False\<rparr>"
  have "TCPConnection_reset_connection c = ?c\<lparr>cn_segments_out := cn_segments_out ?c @ [rst_segment]\<rparr>"
    by (cases c) (simp add: TCPConnection_reset_connection_def)
  then show ?thesis using reset [OF error [OF assms]] by simp
qed

lemma tick_keeps:
  assumes "P c"
  shows "P (TCPConnection_tick c ms)"
  using send [OF ticked [OF time [OF assms]]] reset_keeps [OF ticked [OF time [OF assms]]] assms
  by (simp add: TCPConnection_tick_def Let_def)

lemma connect_keeps: "P c \<Longrightarrow> P (TCPConnection_connect c)"
  unfolding connect_eq by (rule send [OF fill])

end

section \<open>What the application has written\<close>

lemma fill_loop_totin [simp]: "bs_totin (sn_stream (TCPSender_fill_loop n sn)) = bs_totin (sn_stream sn)"
proof (induction n sn rule: TCPSender_fill_loop.induct)
  case (1 n sn)
  obtain sn1 seg where m: "TCPSender_make_segment n sn = (sn1, seg)" by fastforce
  then have t: "bs_totin (sn_stream sn1) = bs_totin (sn_stream sn)"
    by (auto simp: TCPSender_make_segment_def Let_def case_prod_beta split: if_splits)
  have s: "sn_stream (TCPSender_send_segment sn1 seg) = sn_stream sn1" by (simp add: TCPSender_send_segment_def Let_def)
  show ?case
    using 1 [of "(sn1, seg)" sn1 seg "TCPSender_send_segment sn1 seg"] m t s
    by (subst TCPSender_fill_loop.simps) (auto simp: Let_def)
qed

lemma sender_totin [simp]:
  "bs_totin (sn_stream (TCPSender_fill_window sn)) = bs_totin (sn_stream sn)"
  "bs_totin (sn_stream (TCPSender_ack_received sn ackno win)) = bs_totin (sn_stream sn)"
  "bs_totin (sn_stream (TCPSender_tick sn ms)) = bs_totin (sn_stream sn)"
  "bs_totin (sn_stream (TCPSender_send_empty_segment sn)) = bs_totin (sn_stream sn)"
  "bs_totin (sn_stream (sender_set_error sn)) = bs_totin (sn_stream sn)"
proof -
  show fill: "bs_totin (sn_stream (TCPSender_fill_window sn)) = bs_totin (sn_stream sn)" for sn
    by (simp add: TCPSender_fill_window_def Let_def)
  have "sn_stream (TCPSender_ack_loop l a sn) = sn_stream sn" for l a
    by (induction l a sn rule: TCPSender_ack_loop.induct) auto
  then show "bs_totin (sn_stream (TCPSender_ack_received sn ackno win)) = bs_totin (sn_stream sn)"
    by (simp add: TCPSender_ack_received_def Let_def fill)
qed (auto simp: TCPSender_tick_def TCPSender_send_empty_segment_def sender_set_error_def ByteStream_set_error_def Let_def split: list.splits)

definition cn_written :: "TCPConnection \<Rightarrow> size_t" where
  "cn_written c = bs_totin (sn_stream (cn_sender c))"

interpretation written: connection_invariant "\<lambda>c. cn_written c = t" for t
  by unfold_locales (simp_all add: cn_written_def cn_take_ack_def cn_empty_segment_def cn_fill_window_def)

section \<open>What a connection sends is small\<close>

definition small_segment :: "TCPSegment \<Rightarrow> bool" where
  "small_segment seg \<longleftrightarrow> th_doff (seg_header seg) = 5 \<and> length (Buffer_str (seg_payload seg)) \<le> TCPConfig_MAX_PAYLOAD_SIZE"

definition sender_small :: "TCPSender \<Rightarrow> bool" where
  "sender_small sn \<longleftrightarrow> (\<forall>seg \<in> set (sn_segments_out sn). small_segment seg) \<and>
     (\<forall>(k, seg) \<in> set (sn_segments_outgoing sn). small_segment seg)"

definition sends_small :: "TCPConnection \<Rightarrow> bool" where
  "sends_small c \<longleftrightarrow> sender_small (cn_sender c) \<and> (\<forall>seg \<in> set (cn_segments_out c). small_segment seg)"

lemma make_segment_small:
  assumes "TCPSender_make_segment n sn = (sn1, seg)"
  shows "small_segment seg \<and> sn_segments_out sn1 = sn_segments_out sn \<and> sn_segments_outgoing sn1 = sn_segments_outgoing sn"
  using assms
  by (auto simp: TCPSender_make_segment_def Let_def case_prod_beta small_segment_def TCPHeader_default_def TCPHeader_LENGTH_def
      split: if_splits)

lemma insert_small: "x \<in> set (segment_map_insert k seg l) \<Longrightarrow> x = (k, seg) \<or> x \<in> set l"
  by (induction l) (auto simp: segment_map_insert.simps split: if_splits)

lemma send_segment_small: "sender_small sn \<Longrightarrow> small_segment seg \<Longrightarrow> sender_small (TCPSender_send_segment sn seg)"
  by (auto simp: sender_small_def TCPSender_send_segment_def Let_def dest!: insert_small)

lemma fill_loop_small: "sender_small sn \<Longrightarrow> sender_small (TCPSender_fill_loop n sn)"
proof (induction n sn rule: TCPSender_fill_loop.induct)
  case (1 n sn)
  obtain sn1 seg where m: "TCPSender_make_segment n sn = (sn1, seg)" by fastforce
  note s = make_segment_small [OF m]
  have "sender_small sn1" using s 1(2) by (simp add: sender_small_def)
  then have "sender_small (TCPSender_send_segment sn1 seg)" using s send_segment_small by blast
  then show ?case
    using 1(1) [of "(sn1, seg)" sn1 seg "TCPSender_send_segment sn1 seg"] m \<open>sender_small sn1\<close> 1(2)
    by (subst TCPSender_fill_loop.simps) (auto simp: Let_def)
qed

lemma ack_loop_small:
  "sender_small sn \<Longrightarrow> (\<forall>(k, seg) \<in> set l. small_segment seg) \<Longrightarrow> sender_small (TCPSender_ack_loop l a sn)"
  by (induction l a sn rule: TCPSender_ack_loop.induct) (auto simp: sender_small_def)

lemma sender_small_ops:
  assumes "sender_small sn"
  shows "sender_small (TCPSender_fill_window sn)" "sender_small (TCPSender_ack_received sn ackno win)"
    "sender_small (TCPSender_tick sn ms)" "sender_small (TCPSender_send_empty_segment sn)" "sender_small (sender_set_error sn)"
proof -
  have fill: "sender_small (TCPSender_fill_window sn)" if "sender_small sn" for sn
    unfolding TCPSender_fill_window_def Let_def by (rule fill_loop_small [OF that])
  show "sender_small (TCPSender_fill_window sn)" by (rule fill [OF assms])
  let ?sn = "TCPSender_ack_loop (sn_segments_outgoing sn) (unwrap ackno (sn_isn sn) (sn_next_seqno sn)) sn"
  have "sender_small ?sn" using assms by (intro ack_loop_small) (simp_all add: sender_small_def)
  then have "sender_small (?sn\<lparr>sn_win_size := unat win, sn_consecutive_retransmissions := 0\<rparr>)" by (simp add: sender_small_def)
  then have "sender_small (TCPSender_fill_window (?sn\<lparr>sn_win_size := unat win, sn_consecutive_retransmissions := 0\<rparr>))" by (rule fill)
  then show "sender_small (TCPSender_ack_received sn ackno win)" using assms by (simp add: TCPSender_ack_received_def Let_def)
  show "sender_small (TCPSender_tick sn ms)"
    using assms by (auto simp: sender_small_def TCPSender_tick_def Let_def split: list.splits)
  show "sender_small (TCPSender_send_empty_segment sn)"
    using assms by (auto simp: sender_small_def TCPSender_send_empty_segment_def small_segment_def TCPHeader_default_def TCPHeader_LENGTH_def)
  show "sender_small (sender_set_error sn)" using assms by (simp add: sender_small_def sender_set_error_def)
qed

lemma stamp_small: "small_segment (stamp_segment rc seg) = small_segment seg"
  by (simp add: small_segment_def stamp_segment_def split: option.splits)

interpretation small: connection_invariant sends_small
proof unfold_locales
  fix c
  assume c: "sends_small c"
  then show "sends_small (TCPConnection_send_segments c)" by (auto simp: sends_small_def sender_small_def stamp_small)
  have "small_segment rst_segment" by (simp add: small_segment_def TCPSegment_default_def TCPHeader_default_def TCPHeader_LENGTH_def)
  then show "sends_small (c\<lparr>cn_segments_out := cn_segments_out c @ [rst_segment]\<rparr>)" using c by (auto simp: sends_small_def)
qed (simp_all add: sends_small_def sender_small_ops cn_take_ack_def cn_empty_segment_def cn_fill_window_def)

lemma sends_small_new: "sends_small (TCPConnection_new cfg rnd)"
  by (simp add: sends_small_def sender_small_def TCPConnection_new_def TCPSender_new_def)

lemma sends_small_write: "sends_small c \<Longrightarrow> sends_small (fst (TCPConnection_write c data))"
  using small.send [OF small.fill, of "c\<lparr>cn_sender := (cn_sender c)\<lparr>sn_stream := fst (ByteStream_write (sn_stream (cn_sender c)) data)\<rparr>\<rparr>"]
  by (simp add: TCPConnection_write_def Let_def case_prod_beta sends_small_def sender_small_def cn_fill_window_def)

lemma sends_small_end: "sends_small c \<Longrightarrow> sends_small (TCPConnection_end_input_stream c)"
  using small.send [OF small.fill, of "c\<lparr>cn_sender := (cn_sender c)\<lparr>sn_stream := ByteStream_end_input (sn_stream (cn_sender c))\<rparr>\<rparr>"]
  by (simp add: TCPConnection_end_input_stream_def Let_def sends_small_def sender_small_def cn_fill_window_def)

lemma sends_small_take: "sends_small c \<Longrightarrow> sends_small (c\<lparr>cn_segments_out := []\<rparr>)"
  by (simp add: sends_small_def)

end
