(* ===== verification/Ipv4_Datagram.thy ===== *)
theory Ipv4_Datagram
  imports Internet_Checksum
begin

text \<open>
  \<open>IPv4Header\<close> and \<open>IPv4Datagram\<close> (\<open>libsponge/tcp_helpers/ipv4_header.hh\<close>,
  \<open>ipv4_header.cc\<close>, \<open>ipv4_datagram.hh\<close>, \<open>ipv4_datagram.cc\<close>). A parse leaves the fields it
  does not reach as they were, so the old header is an argument of the parser. The lemmas
  show that parsing inverts serializing, and what \<open>IPv4Datagram::parse\<close> takes although
  the header parser refused it.
\<close>

unbundle bit_operations_syntax

section \<open>IPv4Header\<close>

record IPv4Header =
  ih_ver :: "8 word"
  ih_hlen :: "8 word"
  ih_tos :: "8 word"
  ih_len :: "16 word"
  ih_id :: "16 word"
  ih_df :: bool
  ih_mf :: bool
  ih_offset :: "16 word"
  ih_ttl :: "8 word"
  ih_proto :: "8 word"
  ih_cksum :: "16 word"
  ih_src :: "32 word"
  ih_dst :: "32 word"

definition IPv4Header_LENGTH :: size_t where
  "IPv4Header_LENGTH = 20"

definition IPv4Header_PROTO_TCP :: "8 word" where
  "IPv4Header_PROTO_TCP = 6"

definition IPv4Header_default :: IPv4Header where
  "IPv4Header_default =
     \<lparr>ih_ver = 4, ih_hlen = of_nat (IPv4Header_LENGTH div 4), ih_tos = 0, ih_len = 0, ih_id = 0,
      ih_df = True, ih_mf = False, ih_offset = 0, ih_ttl = 128, ih_proto = IPv4Header_PROTO_TCP,
      ih_cksum = 0, ih_src = 0, ih_dst = 0\<rparr>"

definition IPv4Header_parse ::
  "IPv4Header \<Rightarrow> NetParser \<Rightarrow> (NetParser \<times> IPv4Header \<times> ParseResult) res" where
  "IPv4Header_parse hdr p =
     (let original_serialized_version = np_buffer p;
          data_size = Buffer_size (np_buffer p)
      in if data_size < IPv4Header_LENGTH then Inr (p, hdr, PacketTooShort)
         else
           bindR (NetParser_u8 p) (\<lambda>(p, first_byte).
           bindR (NetParser_u8 p) (\<lambda>(p, tos).
           bindR (NetParser_u16 p) (\<lambda>(p, len).
           bindR (NetParser_u16 p) (\<lambda>(p, idn).
           bindR (NetParser_u16 p) (\<lambda>(p, fo_val).
           bindR (NetParser_u8 p) (\<lambda>(p, ttl).
           bindR (NetParser_u8 p) (\<lambda>(p, proto).
           bindR (NetParser_u16 p) (\<lambda>(p, cksum).
           bindR (NetParser_u32 p) (\<lambda>(p, src).
           bindR (NetParser_u32 p) (\<lambda>(p, dst).
             let hdr = \<lparr>ih_ver = drop_bit 4 first_byte, ih_hlen = first_byte AND 0x0f, ih_tos = tos,
                        ih_len = len, ih_id = idn, ih_df = (fo_val AND 0x4000 \<noteq> 0),
                        ih_mf = (fo_val AND 0x2000 \<noteq> 0), ih_offset = fo_val AND 0x1fff,
                        ih_ttl = ttl, ih_proto = proto, ih_cksum = cksum, ih_src = src, ih_dst = dst\<rparr>
             in if data_size < 4 * unat (ih_hlen hdr) then Inr (p, hdr, PacketTooShort)
                else if ih_ver hdr \<noteq> 4 then Inr (p, hdr, WrongIPVersion)
                else if ih_hlen hdr < 5 then Inr (p, hdr, HeaderTooShort)
                else if data_size \<noteq> unat (ih_len hdr) then Inr (p, hdr, TruncatedPacket)
                else bindR (NetParser_remove_prefix p (sub64 (unat (ih_hlen hdr) * 4) IPv4Header_LENGTH)) (\<lambda>p.
                  if NetParser_error p then Inr (p, hdr, np_error p)
                  else
                    let check = InternetChecksum_add (InternetChecksum_new 0)
                          (take (4 * unat (ih_hlen hdr)) (Buffer_str original_serialized_version))
                    in if InternetChecksum_value check \<noteq> 0 then Inr (p, hdr, BadChecksum)
                       else Inr (p, hdr, NoError)))))))))))))"

definition IPv4Header_first_byte :: "IPv4Header \<Rightarrow> 8 word" where
  "IPv4Header_first_byte h = push_bit 4 (ih_ver h) OR (ih_hlen h AND 0xf)"

definition IPv4Header_fo_val :: "IPv4Header \<Rightarrow> 16 word" where
  "IPv4Header_fo_val h =
     (if ih_df h then 0x4000 else 0) OR (if ih_mf h then 0x2000 else 0) OR (ih_offset h AND 0x1fff)"

definition IPv4Header_serialize :: "IPv4Header \<Rightarrow> byte list res" where
  "IPv4Header_serialize h =
     (if ih_ver h \<noteq> 4 then Inl (runtime_error ''wrong IP version'')
      else if 4 * unat (ih_hlen h) < IPv4Header_LENGTH then Inl (runtime_error ''IP header too short'')
      else
        let ret = [];
            ret = NetUnparser_u8 ret (IPv4Header_first_byte h);
            ret = NetUnparser_u8 ret (ih_tos h);
            ret = NetUnparser_u16 ret (ih_len h);
            ret = NetUnparser_u16 ret (ih_id h);
            ret = NetUnparser_u16 ret (IPv4Header_fo_val h);
            ret = NetUnparser_u8 ret (ih_ttl h);
            ret = NetUnparser_u8 ret (ih_proto h);
            ret = NetUnparser_u16 ret (ih_cksum h);
            ret = NetUnparser_u32 ret (ih_src h);
            ret = NetUnparser_u32 ret (ih_dst h)
        in Inr (resize ret (4 * unat (ih_hlen h))))"

definition IPv4Header_payload_length :: "IPv4Header \<Rightarrow> 16 word" where
  "IPv4Header_payload_length h = ih_len h - 4 * ucast (ih_hlen h)"

definition IPv4Header_pseudo_cksum :: "IPv4Header \<Rightarrow> 32 word" where
  "IPv4Header_pseudo_cksum h =
     (let pcksum = drop_bit 16 (ih_src h) + (ih_src h AND 0xffff);
          pcksum = pcksum + (drop_bit 16 (ih_dst h) + (ih_dst h AND 0xffff));
          pcksum = pcksum + ucast (ih_proto h);
          pcksum = pcksum + ucast (IPv4Header_payload_length h)
      in pcksum)"

section \<open>IPv4Datagram\<close>

record IPv4Datagram =
  dg_header :: IPv4Header
  dg_payload :: BufferList

type_synonym InternetDatagram = IPv4Datagram

definition IPv4Datagram_default :: IPv4Datagram where
  "IPv4Datagram_default = \<lparr>dg_header = IPv4Header_default, dg_payload = []\<rparr>"

definition IPv4Datagram_parse :: "IPv4Datagram \<Rightarrow> Buffer \<Rightarrow> (IPv4Datagram \<times> ParseResult) res" where
  "IPv4Datagram_parse dg buffer =
     bindR (IPv4Header_parse (dg_header dg) (NetParser_new buffer)) (\<lambda>(p, h, _).
       let dg = dg\<lparr>dg_header := h, dg_payload := [np_buffer p]\<rparr>
       in if BufferList_size (dg_payload dg) \<noteq> unat (IPv4Header_payload_length (dg_header dg))
          then Inr (dg, PacketTooShort)
          else Inr (dg, np_error p))"

definition IPv4Datagram_serialize :: "IPv4Datagram \<Rightarrow> BufferList res" where
  "IPv4Datagram_serialize dg =
     (if BufferList_size (dg_payload dg) \<noteq> unat (IPv4Header_payload_length (dg_header dg))
      then Inl (runtime_error ''IPv4Datagram::serialize: payload is wrong size'')
      else
        let header_out = (dg_header dg)\<lparr>ih_cksum := 0\<rparr>
        in bindR (IPv4Header_serialize header_out) (\<lambda>header_zero_checksum.
           let check = InternetChecksum_add (InternetChecksum_new 0) header_zero_checksum;
               header_out = header_out\<lparr>ih_cksum := InternetChecksum_value check\<rparr>
           in bindR (IPv4Header_serialize header_out) (\<lambda>s.
             Inr (BufferList_append (BufferList_append [] [Buffer_of s]) (dg_payload dg)))))"

section \<open>The header on the wire\<close>

definition ip_wire :: "IPv4Header \<Rightarrow> byte list" where
  "ip_wire h =
     be_bytes 1 (unat (IPv4Header_first_byte h)) @ be_bytes 1 (unat (ih_tos h)) @
     be_bytes 2 (unat (ih_len h)) @ be_bytes 2 (unat (ih_id h)) @
     be_bytes 2 (unat (IPv4Header_fo_val h)) @ be_bytes 1 (unat (ih_ttl h)) @
     be_bytes 1 (unat (ih_proto h)) @ be_bytes 2 (unat (ih_cksum h)) @
     be_bytes 4 (unat (ih_src h)) @ be_bytes 4 (unat (ih_dst h))"

lemma length_ip_wire [simp]: "length (ip_wire h) = 20"
  by (simp add: ip_wire_def)

text \<open>The headers that fit into their fields: what \<open>serialize\<close> does not mangle.\<close>

definition ip_fits :: "IPv4Header \<Rightarrow> bool" where
  "ip_fits h \<longleftrightarrow> ih_ver h = 4 \<and> 5 \<le> unat (ih_hlen h) \<and> unat (ih_hlen h) < 16 \<and> unat (ih_offset h) < 8192"

lemma IPv4Header_serialize_ok:
  "ip_fits h \<Longrightarrow> IPv4Header_serialize h = Inr (ip_wire h @ replicate (4 * unat (ih_hlen h) - 20) 0)"
  by (simp add: IPv4Header_serialize_def ip_fits_def IPv4Header_LENGTH_def n8.unparse_enc
      n16.unparse_enc n32.unparse_enc Let_def resize_longer ip_wire_def)

lemma word_and_mask_id:
  fixes x :: "'a::len word"
  assumes "unat x < 2 ^ n"
  shows "x AND mask n = x"
proof -
  have "take_bit n x = x"
    using assms by (simp only: word_unat_eq_iff unsigned_take_bit_eq) (simp add: take_bit_eq_mod)
  then show ?thesis by (simp only: take_bit_eq_mask)
qed

lemma first_byte_read:
  assumes "ip_fits h"
  shows "drop_bit 4 (IPv4Header_first_byte h) = ih_ver h" "IPv4Header_first_byte h AND 0x0f = ih_hlen h"
proof -
  have m: "(0xf :: 8 word) = mask 4" by (simp add: mask_eq_exp_minus_1)
  have l: "ih_hlen h AND mask 4 = ih_hlen h"
    using assms by (intro word_and_mask_id) (simp add: ip_fits_def)
  have v: "ih_ver h = 4" using assms by (simp add: ip_fits_def)
  have f: "IPv4Header_first_byte h = 0x40 OR ih_hlen h"
    unfolding IPv4Header_first_byte_def m l v by simp
  have b: "\<not> bit (ih_hlen h) n" if "4 \<le> n" for n
  proof -
    have "bit (ih_hlen h AND mask 4) n = False" using that by (simp add: bit_simps)
    then show ?thesis unfolding l by simp
  qed
  show "IPv4Header_first_byte h AND 0x0f = ih_hlen h"
    unfolding f m using l by (simp only: bit.conj_disj_distrib2 m) (simp flip: m)
  have "drop_bit 4 (ih_hlen h) = 0"
    by (rule bit_word_eqI) (simp add: bit_simps b del: drop_bit_eq_div)
  then show "drop_bit 4 (IPv4Header_first_byte h) = ih_ver h"
    unfolding f v by (simp only: drop_bit_or) simp
qed

lemma fo_val_read:
  assumes "ip_fits h"
  shows "(IPv4Header_fo_val h AND 0x4000 \<noteq> 0) = ih_df h" "(IPv4Header_fo_val h AND 0x2000 \<noteq> 0) = ih_mf h"
    "IPv4Header_fo_val h AND 0x1fff = ih_offset h"
proof -
  have m: "(0x1fff :: 16 word) = mask 13" by (simp add: mask_eq_exp_minus_1)
  have l: "ih_offset h AND 0x1fff = ih_offset h"
    unfolding m using assms by (intro word_and_mask_id) (simp add: ip_fits_def)
  have z: "ih_offset h AND 0x4000 = 0" "ih_offset h AND 0x2000 = 0"
    by (subst l [symmetric], simp add: and.assoc)+
  show "(IPv4Header_fo_val h AND 0x4000 \<noteq> 0) = ih_df h" "(IPv4Header_fo_val h AND 0x2000 \<noteq> 0) = ih_mf h"
    "IPv4Header_fo_val h AND 0x1fff = ih_offset h"
    by (simp_all add: IPv4Header_fo_val_def l z bit.conj_disj_distrib2)
qed

lemma ip_collapse:
  "\<lparr>ih_ver = ih_ver h, ih_hlen = ih_hlen h, ih_tos = ih_tos h, ih_len = ih_len h, ih_id = ih_id h,
    ih_df = ih_df h, ih_mf = ih_mf h, ih_offset = ih_offset h, ih_ttl = ih_ttl h,
    ih_proto = ih_proto h, ih_cksum = ih_cksum h, ih_src = ih_src h, ih_dst = ih_dst h\<rparr> = h"
  by simp

text \<open>A well-formed header is read back; only the checksum decides between two results.\<close>

definition ip_verdict :: "byte list \<Rightarrow> ParseResult" where
  "ip_verdict hb =
     (if InternetChecksum_value (InternetChecksum_add (InternetChecksum_new 0) hb) = 0
      then NoError else BadChecksum)"

lemma IPv4Header_parse_tail:
  assumes "np_at p (pad @ rest)" and "length pad = 4 * unat (ih_hlen h) - 20" and "ip_fits h"
    and "unat (ih_len h) = 20 + length pad + length rest" and "take (4 * unat (ih_hlen h)) s = hb"
  shows "parses_to (let h = h in if 20 + length pad + length rest < 4 * unat (ih_hlen h) then Inr (p, h, PacketTooShort)
                else if ih_ver h \<noteq> 4 then Inr (p, h, WrongIPVersion)
                else if ih_hlen h < 5 then Inr (p, h, HeaderTooShort)
                else if 20 + length pad + length rest \<noteq> unat (ih_len h) then Inr (p, h, TruncatedPacket)
                else bindR (NetParser_remove_prefix p (sub64 (unat (ih_hlen h) * 4) IPv4Header_LENGTH)) (\<lambda>p.
                  if NetParser_error p then Inr (p, h, np_error p)
                  else
                    let check = InternetChecksum_add (InternetChecksum_new 0)
                          (take (4 * unat (ih_hlen h)) s)
                    in if InternetChecksum_value check \<noteq> 0 then Inr (p, h, BadChecksum)
                       else Inr (p, h, NoError))) (h, ip_verdict hb) rest"
proof -
  have f: "ih_ver h = 4" "\<not> ih_hlen h < 5" "\<not> 20 + length pad + length rest < 4 * unat (ih_hlen h)"
    using assms(2,3) by (simp_all add: ip_fits_def word_less_nat_alt)
  have n: "length pad = sub64 (unat (ih_hlen h) * 4) IPv4Header_LENGTH"
    using assms(2,3) by (simp add: ip_fits_def IPv4Header_LENGTH_def sub64_eq)
  show ?thesis
    unfolding Let_def by (simp only: f assms(4) simp_thms if_False, rule parses_to_skip [OF assms(1) n])
      (simp add: parses_to_def np_at_def NetParser_error_def ip_verdict_def assms(5))
qed

lemma IPv4Header_parse_wire:
  assumes "np_at p (ip_wire h @ pad @ rest)" and "length pad = 4 * unat (ih_hlen h) - 20"
    and "ip_fits h" and "unat (ih_len h) = 20 + length pad + length rest"
  shows "parses_to (IPv4Header_parse hdr p) (h, ip_verdict (ip_wire h @ pad)) rest"
proof -
  have s: "Buffer_str (np_buffer p) = ip_wire h @ pad @ rest" using assms(1) by (simp add: np_at_def)
  have sz: "Buffer_size (np_buffer p) = 20 + length pad + length rest" by (simp add: Buffer_size_def s)
  have t: "take (4 * unat (ih_hlen h)) (Buffer_str (np_buffer p)) = ip_wire h @ pad"
    using assms(2,3) by (simp add: s ip_fits_def)
  have big: "\<not> 20 + length pad + length rest < IPv4Header_LENGTH" by (simp add: IPv4Header_LENGTH_def)
  show ?thesis
    unfolding IPv4Header_parse_def sz Let_def [of "np_buffer p"] Let_def [of "20 + length pad + length rest"]
    apply (simp only: big if_False)
    apply (rule n8.parses_bind [of p "IPv4Header_first_byte h"])
     apply (use assms(1) in \<open>simp only: ip_wire_def append_assoc\<close>)
    apply (simp only: prod.case)
    apply (erule n16.parses_bind n32.parses_bind n8.parses_bind, simp only: prod.case)+
    apply (simp only: first_byte_read [OF assms(3)] fo_val_read [OF assms(3)] ip_collapse)
    apply (erule IPv4Header_parse_tail [OF _ assms(2-4) t])
    done
qed

section \<open>The datagram on the wire\<close>

lemma payload_length_unat:
  assumes "ip_fits h" and "unat (ih_len h) = 4 * unat (ih_hlen h) + n"
  shows "unat (IPv4Header_payload_length h) = n"
proof -
  have u: "unat (ucast (ih_hlen h) :: 16 word) = unat (ih_hlen h)"
    by (simp add: unsigned_ucast_eq take_bit_nat_eq_self_iff) 
      (use unsigned_less [of "ih_hlen h", where 'a = nat] in simp)
  have m: "unat (4 * ucast (ih_hlen h) :: 16 word) = 4 * unat (ih_hlen h)"
    using assms(1) u by (simp add: unat_word_ariths ip_fits_def)
  have "4 * ucast (ih_hlen h) \<le> ih_len h" using assms(2) m by (simp add: word_le_nat_alt)
  then show ?thesis using assms(2) m by (simp add: IPv4Header_payload_length_def unat_sub)
qed

text \<open>The datagram parser never looks at the verdict on the header.\<close>

lemma IPv4Datagram_parse_wire:
  assumes "Buffer_inv b" and "Buffer_str b = ip_wire h @ pad @ d" and "ip_fits h"
    and "length pad = 4 * unat (ih_hlen h) - 20" and "unat (ih_len h) = 4 * unat (ih_hlen h) + length d"
  obtains pl where "IPv4Datagram_parse old b = Inr (old\<lparr>dg_header := h, dg_payload := [pl]\<rparr>, NoError)"
    "Buffer_inv pl" "Buffer_str pl = d"
proof -
  have "np_at (NetParser_new b) (ip_wire h @ pad @ d)"
    using assms(1,2) by (simp add: np_at_def NetParser_new_def)
  moreover have "unat (ih_len h) = 20 + length pad + length d" using assms(3-5) by (simp add: ip_fits_def)
  ultimately have "parses_to (IPv4Header_parse (dg_header old) (NetParser_new b))
      (h, ip_verdict (ip_wire h @ pad)) d"
    using assms(3,4) by (intro IPv4Header_parse_wire)
  then obtain p where p: "IPv4Header_parse (dg_header old) (NetParser_new b)
      = Inr (p, h, ip_verdict (ip_wire h @ pad))" "np_at p d"
    by (auto simp: parses_to_def)
  have d: "length d < 65536" using assms(5) unsigned_less [of "ih_len h", where 'a = nat] by simp
  then have "BufferList_size [np_buffer p] = unat (IPv4Header_payload_length h)"
    using p(2) payload_length_unat [OF assms(3,5)]
    by (simp add: BufferList_size_eq BufferList_concatenate_eq np_at_def)
  then show ?thesis using that p by (simp add: IPv4Datagram_parse_def np_at_def)
qed

lemma ip_wire_cksum:
  obtains xs ys where "length xs = 10" "\<And>v. ip_wire (h\<lparr>ih_cksum := v\<rparr>) = xs @ be_bytes 2 (unat v) @ ys"
proof
  let ?xs = "be_bytes 1 (unat (IPv4Header_first_byte h)) @ be_bytes 1 (unat (ih_tos h)) @
     be_bytes 2 (unat (ih_len h)) @ be_bytes 2 (unat (ih_id h)) @
     be_bytes 2 (unat (IPv4Header_fo_val h)) @ be_bytes 1 (unat (ih_ttl h)) @
     be_bytes 1 (unat (ih_proto h))"
  show "length ?xs = 10" by simp
  show "ip_wire (h\<lparr>ih_cksum := v\<rparr>) = ?xs @ be_bytes 2 (unat v) @
      (be_bytes 4 (unat (ih_src h)) @ be_bytes 4 (unat (ih_dst h)))" for v
    by (simp add: ip_wire_def IPv4Header_first_byte_def IPv4Header_fo_val_def)
qed

lemma ip_fits_cksum [simp]: "ip_fits (h\<lparr>ih_cksum := v\<rparr>) = ip_fits h"
  by (simp add: ip_fits_def)

lemma IPv4Datagram_serialize_ok:
  assumes "ip_fits (dg_header dg)"
    and "unat (ih_len (dg_header dg)) = 4 * unat (ih_hlen (dg_header dg)) + length (BufferList_concatenate (dg_payload dg))"
  obtains v s where "IPv4Datagram_serialize dg = Inr (Buffer_of s # dg_payload dg)"
    "s = ip_wire ((dg_header dg)\<lparr>ih_cksum := v\<rparr>) @ replicate (4 * unat (ih_hlen (dg_header dg)) - 20) 0" "ip_verdict s = NoError"
proof -
  let ?h = "dg_header dg"
  let ?pad = "replicate (4 * unat (ih_hlen ?h) - 20) (0 :: byte)"
  obtain xs ys where x: "length xs = 10" "\<And>v. ip_wire (?h\<lparr>ih_cksum := v\<rparr>) = xs @ be_bytes 2 (unat v) @ ys"
    by (rule ip_wire_cksum [of ?h]) blast
  have wire: "IPv4Header_serialize (?h\<lparr>ih_cksum := v\<rparr>) = Inr (ip_wire (?h\<lparr>ih_cksum := v\<rparr>) @ ?pad)" for v
    using IPv4Header_serialize_ok [of "?h\<lparr>ih_cksum := v\<rparr>"] assms(1) by simp
  define v where "v = InternetChecksum_value (InternetChecksum_add (InternetChecksum_new 0)
    (xs @ be_bytes 2 0 @ (ys @ ?pad)))"
  have z: "ip_wire (?h\<lparr>ih_cksum := 0\<rparr>) = xs @ be_bytes 2 0 @ ys" using x(2) [of 0] by simp
  have "length (xs @ be_bytes 2 0 @ ys) = 20" unfolding z [symmetric] by simp
  moreover have "length ?pad \<le> 40" using assms(1) by (auto simp: ip_fits_def)
  ultimately have "length (xs @ be_bytes 2 0 @ ys @ ?pad) < 64" by simp
  then have "unat (0 :: 32 word) + byte_sum False (xs @ be_bytes 2 0 @ ys @ ?pad) + 65535 < UINT_MOD"
    using byte_sum_bound [of False "xs @ be_bytes 2 0 @ ys @ ?pad"] by simp
  from checksum_verifies [OF _ this v_def] x(1)
  have ok: "InternetChecksum_value (InternetChecksum_add (InternetChecksum_new 0)
      (xs @ be_bytes 2 (unat v) @ ys @ ?pad)) = 0" by simp
  have "length (BufferList_concatenate (dg_payload dg)) < 65536"
    using assms(2) unsigned_less [of "ih_len ?h", where 'a = nat] by simp
  then have sz: "BufferList_size (dg_payload dg) = unat (IPv4Header_payload_length ?h)"
    using payload_length_unat [OF assms] by (simp add: BufferList_size_eq)
  show ?thesis
  proof (rule that [OF _ refl, of v])
    show "IPv4Datagram_serialize dg = Inr (Buffer_of (ip_wire (?h\<lparr>ih_cksum := v\<rparr>) @ ?pad) # dg_payload dg)"
      using wire [of 0] wire [of v] sz by (simp add: IPv4Datagram_serialize_def Let_def v_def z)
    show "ip_verdict (ip_wire (?h\<lparr>ih_cksum := v\<rparr>) @ ?pad) = NoError"
      using ok by (simp add: ip_verdict_def x(2))
  qed
qed

section \<open>Properties\<close>

text \<open>
  C17. A datagram survives the wire: \<open>serialize\<close> fills in a header checksum that verifies,
  and \<open>parse\<close> gives back the header and the payload, the latter in one buffer.
\<close>

theorem IPv4Datagram_round_trip:
  assumes "ip_fits (dg_header dg)"
    and "unat (ih_len (dg_header dg)) =
      4 * unat (ih_hlen (dg_header dg)) + length (BufferList_concatenate (dg_payload dg))"
  shows "\<exists>bl v pl. IPv4Datagram_serialize dg = Inr bl \<and>
    IPv4Datagram_parse old (Buffer_of (BufferList_concatenate bl)) =
      Inr (old\<lparr>dg_header := (dg_header dg)\<lparr>ih_cksum := v\<rparr>, dg_payload := [pl]\<rparr>, NoError) \<and>
    Buffer_str pl = BufferList_concatenate (dg_payload dg) \<and>
    ip_verdict (take (4 * unat (ih_hlen (dg_header dg))) (BufferList_concatenate bl)) = NoError"
proof -
  let ?h = "dg_header dg" and ?d = "BufferList_concatenate (dg_payload dg)"
  obtain v s where s: "IPv4Datagram_serialize dg = Inr (Buffer_of s # dg_payload dg)"
    "s = ip_wire (?h\<lparr>ih_cksum := v\<rparr>) @ replicate (4 * unat (ih_hlen ?h) - 20) 0" "ip_verdict s = NoError"
    by (rule IPv4Datagram_serialize_ok [OF assms])
  have cat: "BufferList_concatenate (Buffer_of s # dg_payload dg) = s @ ?d"
    by (simp add: BufferList_concatenate_eq)
  have l: "length s = 4 * unat (ih_hlen ?h)" using s(2) assms(1) by (simp add: ip_fits_def)
  have "length (s @ ?d) < 65536" using assms(2) l unsigned_less [of "ih_len ?h", where 'a = nat] by simp
  then have "Buffer_inv (Buffer_of (s @ ?d))" by simp
  then obtain pl where "IPv4Datagram_parse old (Buffer_of (s @ ?d)) =
      Inr (old\<lparr>dg_header := ?h\<lparr>ih_cksum := v\<rparr>, dg_payload := [pl]\<rparr>, NoError)" "Buffer_str pl = ?d"
    using IPv4Datagram_parse_wire [of "Buffer_of (s @ ?d)" "?h\<lparr>ih_cksum := v\<rparr>"
        "replicate (4 * unat (ih_hlen ?h) - 20) 0" ?d old] assms s(2) by auto
  then show ?thesis using s(1,3) cat l by auto
qed

theorem IPv4Datagram_round_trip_witness:
  "\<exists>bl v pl. IPv4Datagram_serialize
      \<lparr>dg_header = IPv4Header_default\<lparr>ih_len := 23\<rparr>, dg_payload = [Buffer_of [1, 2], Buffer_of [3]]\<rparr> = Inr bl \<and>
    IPv4Datagram_parse IPv4Datagram_default (Buffer_of (BufferList_concatenate bl)) =
      Inr (IPv4Datagram_default\<lparr>dg_header := (IPv4Header_default\<lparr>ih_len := 23\<rparr>)\<lparr>ih_cksum := v\<rparr>,
        dg_payload := [pl]\<rparr>, NoError) \<and>
    Buffer_str pl = [1, 2, 3]"
proof -
  have "ip_fits (IPv4Header_default\<lparr>ih_len := 23\<rparr>)" "unat (ih_hlen IPv4Header_default) = 5"
    by (simp_all add: ip_fits_def IPv4Header_default_def IPv4Header_LENGTH_def)
  then show ?thesis
    using IPv4Datagram_round_trip [of "\<lparr>dg_header = IPv4Header_default\<lparr>ih_len := 23\<rparr>,
        dg_payload = [Buffer_of [1, 2], Buffer_of [3]]\<rparr>" IPv4Datagram_default]
    by (auto simp: BufferList_concatenate_eq)
qed

text \<open>
  C39. The header checksum of a received datagram is computed and then not used:
  \<open>IPv4Datagram::parse\<close> drops the result of \<open>IPv4Header::parse\<close>, so that a datagram is
  accepted with every value of its checksum field, also when the header parser reports
  \<open>BadChecksum\<close>.
\<close>

theorem IPv4Datagram_parse_any_cksum:
  assumes "ip_fits h" and "ih_hlen h = 5" and "unat (ih_len h) = 20 + length d"
  shows "\<exists>pl. IPv4Datagram_parse old (Buffer_of (ip_wire h @ d)) =
      Inr (old\<lparr>dg_header := h, dg_payload := [pl]\<rparr>, NoError) \<and> Buffer_str pl = d"
proof -
  have "length d < 65536" using assms(3) unsigned_less [of "ih_len h", where 'a = nat] by simp
  then have "Buffer_inv (Buffer_of (ip_wire h @ d))" by simp
  then show ?thesis
    using IPv4Datagram_parse_wire [of "Buffer_of (ip_wire h @ d)" h "[]" d old] assms by auto
qed

theorem IPv4Datagram_parse_any_cksum_witness:
  "ip_verdict (ip_wire (IPv4Header_default\<lparr>ih_len := 21, ih_cksum := 0\<rparr>)) = BadChecksum \<and>
   (\<exists>pl. IPv4Datagram_parse IPv4Datagram_default
       (Buffer_of (ip_wire (IPv4Header_default\<lparr>ih_len := 21, ih_cksum := 0\<rparr>) @ [9])) =
     Inr (IPv4Datagram_default\<lparr>dg_header := IPv4Header_default\<lparr>ih_len := 21, ih_cksum := 0\<rparr>,
       dg_payload := [pl]\<rparr>, NoError) \<and> Buffer_str pl = [9])"
proof -
  let ?h = "IPv4Header_default\<lparr>ih_len := 21, ih_cksum := 0\<rparr>"
  have "ip_fits ?h" "ih_hlen ?h = 5"
    by (simp_all add: ip_fits_def IPv4Header_default_def IPv4Header_LENGTH_def)
  then have "\<exists>pl. IPv4Datagram_parse IPv4Datagram_default (Buffer_of (ip_wire ?h @ [9])) =
      Inr (IPv4Datagram_default\<lparr>dg_header := ?h, dg_payload := [pl]\<rparr>, NoError) \<and> Buffer_str pl = [9]"
    by (rule IPv4Datagram_parse_any_cksum) simp
  moreover have "ip_wire ?h = [0x45, 0, 0, 21, 0, 0, 0x40, 0, 128, 6, 0, 0, 0, 0, 0, 0, 0, 0, 0, 0]"
    by (simp add: ip_wire_def be_bytes_def IPv4Header_first_byte_def IPv4Header_fo_val_def
        IPv4Header_default_def IPv4Header_LENGTH_def IPv4Header_PROTO_TCP_def upt_conv_Cons)
  then have "ip_verdict (ip_wire ?h) = BadChecksum"
    by (simp add: ip_verdict_def value_zero_iff add_sum InternetChecksum_new_def)
  ultimately show ?thesis by blast
qed

end
