(* ===== verification/Text_Format.thy ===== *)
theory Text_Format
  imports Tcp_Segment Ipv4_Datagram
begin

text \<open>
  Numbers as text, as the standard library prints and reads them, and what libsponge prints
  with them: the header dumps and summaries (\<open>TCPHeader::to_string\<close>, \<open>summary\<close>,
  \<open>IPv4Header::to_string\<close>, \<open>summary\<close>) and \<open>hexdump\<close> of \<open>util.cc\<close>. Reading what was
  printed in decimal gives the number back, and so do dotted quads.
\<close>

section \<open>Numbers\<close>

definition digit :: "nat \<Rightarrow> char" where
  "digit d = (if d < 10 then char_of (48 + d) else char_of (87 + d))"

fun dec_string :: "nat \<Rightarrow> string" where
  "dec_string n = (if n < 10 then [digit n] else dec_string (n div 10) @ [digit (n mod 10)])"

fun hex_string :: "nat \<Rightarrow> string" where
  "hex_string n = (if n < 16 then [digit n] else hex_string (n div 16) @ [digit (n mod 16)])"

declare dec_string.simps [simp del] hex_string.simps [simp del]

definition is_digit :: "char \<Rightarrow> bool" where
  "is_digit c \<longleftrightarrow> 48 \<le> (of_char c :: nat) \<and> (of_char c :: nat) < 58"

definition dec_value :: "string \<Rightarrow> nat" where
  "dec_value s = foldl (\<lambda>a c. a * 10 + (of_char c - 48)) 0 s"

text \<open>
  \<open>std::stoi\<close>: leading blanks and a sign are skipped, the longest run of digits is the number,
  and there has to be one.
\<close>

definition is_space :: "char \<Rightarrow> bool" where
  "is_space c \<longleftrightarrow> (of_char c :: nat) \<in> {9, 10, 11, 12, 13, 32}"

definition stoi :: "string \<Rightarrow> int res" where
  "stoi s =
     (let s = dropWhile is_space s;
          (neg, s) = (case s of [] \<Rightarrow> (False, s)
            | c # t \<Rightarrow> if c = CHR 0x2D then (True, t) else if c = CHR 0x2B then (False, t) else (False, s));
          ds = takeWhile is_digit s;
          n = (if neg then - int (dec_value ds) else int (dec_value ds))
      in if ds = [] then Inl (invalid_argument ''stoi'')
         else if n < - 2147483648 \<or> 2147483647 < n then Inl (out_of_range ''stoi'')
         else Inr n)"

lemma of_char_digit [simp]: "d < 10 \<Longrightarrow> (of_char (digit d) :: nat) = 48 + d"
  by (simp add: digit_def of_char_of)

lemma dec_value_snoc [simp]: "dec_value (s @ [c]) = dec_value s * 10 + (of_char c - 48)"
  by (simp add: dec_value_def)

lemma dec_value_string [simp]: "dec_value (dec_string n) = n"
proof (induction n rule: dec_string.induct)
  case (1 n)
  show ?case
  proof (cases "n < 10")
    case True
    then show ?thesis by (subst dec_string.simps) (simp add: dec_value_def)
  next
    case False
    then show ?thesis using 1 by (subst dec_string.simps) (simp add: div_mult_mod_eq)
  qed
qed

lemma dec_string_digits: "c \<in> set (dec_string n) \<Longrightarrow> is_digit c"
proof (induction n rule: dec_string.induct)
  case (1 n)
  then show ?case by (cases "n < 10") (subst (asm) (2) dec_string.simps, auto simp: is_digit_def)+
qed

lemma dec_string_not_Nil [simp]: "dec_string n \<noteq> []"
  by (subst dec_string.simps) simp

lemma digit_not_space: "is_digit c \<Longrightarrow> \<not> is_space c \<and> c \<noteq> CHR 0x2D \<and> c \<noteq> CHR 0x2B \<and> c \<noteq> CHR 0x2E"
  by (auto simp: is_digit_def is_space_def)

lemma stoi_dec_string: "n < 2147483648 \<Longrightarrow> stoi (dec_string n) = Inr (int n)"
proof -
  assume n: "n < 2147483648"
  obtain c t where ct: "dec_string n = c # t" by (cases "dec_string n") auto
  have d: "\<forall>x \<in> set (dec_string n). is_digit x" using dec_string_digits by blast
  then have c: "is_digit c" using ct by simp
  have tw: "takeWhile is_digit t = t" "dec_value (c # t) = n" using d ct dec_value_string [of n] by simp_all
  show ?thesis using n c digit_not_space [OF c] by (simp add: stoi_def ct Let_def tw)
qed

section \<open>Dotted quads\<close>

fun dotted :: "byte list \<Rightarrow> string" where
  "dotted [] = []"
| "dotted [b] = dec_string (unat b)"
| "dotted (b # bs) = dec_string (unat b) @ CHR 0x2E # dotted bs"

fun undot :: "string \<Rightarrow> string \<Rightarrow> byte list" where
  "undot acc [] = [of_nat (dec_value acc)]"
| "undot acc (c # s) = (if c = CHR 0x2E then of_nat (dec_value acc) # undot [] s else undot (acc @ [c]) s)"

lemma undot_digits: "\<forall>c \<in> set ds. is_digit c \<Longrightarrow> undot acc (ds @ s) = undot (acc @ ds) s"
  by (induction ds arbitrary: acc) (auto dest: digit_not_space)

lemma undot_dotted: "bs \<noteq> [] \<Longrightarrow> undot [] (dotted bs) = bs"
proof (induction bs rule: dotted.induct)
  case (2 b)
  then show ?case using undot_digits [of "dec_string (unat b)" "[]" "[]"] dec_string_digits by simp
next
  case (3 b b' bs)
  then show ?case using undot_digits [of "dec_string (unat b)" "[]"] dec_string_digits by simp
qed simp

section \<open>Header dumps\<close>

text \<open>A stream with \<open>hex\<close> and \<open>boolalpha\<close>, and the newline character.\<close>

definition bool_alpha :: "bool \<Rightarrow> string" where
  "bool_alpha b = (if b then ''true'' else ''false'')"

abbreviation NL :: string where
  "NL \<equiv> [CHR 0x0A]"

definition TCPHeader_to_string :: "TCPHeader \<Rightarrow> string" where
  "TCPHeader_to_string h =
     ''TCP source port: '' @ hex_string (unat (th_sport h)) @ NL @
     ''TCP dest port: '' @ hex_string (unat (th_dport h)) @ NL @
     ''TCP seqno: '' @ hex_string (unat (raw_value (th_seqno h))) @ NL @
     ''TCP ackno: '' @ hex_string (unat (raw_value (th_ackno h))) @ NL @
     ''TCP doff: '' @ hex_string (unat (th_doff h)) @ NL @
     ''Flags: urg: '' @ bool_alpha (th_urg h) @ '' ack: '' @ bool_alpha (th_ack h) @
     '' psh: '' @ bool_alpha (th_psh h) @ '' rst: '' @ bool_alpha (th_rst h) @
     '' syn: '' @ bool_alpha (th_syn h) @ '' fin: '' @ bool_alpha (th_fin h) @ NL @
     ''TCP winsize: '' @ hex_string (unat (th_win h)) @ NL @
     ''TCP cksum: '' @ hex_string (unat (th_cksum h)) @ NL @
     ''TCP uptr: '' @ hex_string (unat (th_uptr h)) @ NL"

definition TCPHeader_summary :: "TCPHeader \<Rightarrow> string" where
  "TCPHeader_summary h =
     ''Header(flags='' @ (if th_syn h then ''S'' else []) @ (if th_ack h then ''A'' else []) @
     (if th_rst h then ''R'' else []) @ (if th_fin h then ''F'' else []) @
     '',seqno='' @ dec_string (unat (raw_value (th_seqno h))) @
     '',ack='' @ dec_string (unat (raw_value (th_ackno h))) @
     '',win='' @ dec_string (unat (th_win h)) @ '')''"

definition IPv4Header_to_string :: "IPv4Header \<Rightarrow> string" where
  "IPv4Header_to_string h =
     ''IP version: '' @ hex_string (unat (ih_ver h)) @ NL @
     ''IP hdr len: '' @ hex_string (unat (ih_hlen h)) @ NL @
     ''IP tos: '' @ hex_string (unat (ih_tos h)) @ NL @
     ''IP dgram len: '' @ hex_string (unat (ih_len h)) @ NL @
     ''IP id: '' @ hex_string (unat (ih_id h)) @ NL @
     ''Flags: df: '' @ bool_alpha (ih_df h) @ '' mf: '' @ bool_alpha (ih_mf h) @ NL @
     ''Offset: '' @ hex_string (unat (ih_offset h)) @ NL @
     ''TTL: '' @ hex_string (unat (ih_ttl h)) @ NL @
     ''Protocol: '' @ hex_string (unat (ih_proto h)) @ NL @
     ''Checksum: '' @ hex_string (unat (ih_cksum h)) @ NL @
     ''Src addr: '' @ hex_string (unat (ih_src h)) @ NL @
     ''Dst addr: '' @ hex_string (unat (ih_dst h)) @ NL"

text \<open>\<open>inet_ntoa\<close> is an argument; it is given the four bytes of the address in network order.\<close>

definition IPv4Header_summary :: "(byte list \<Rightarrow> string) \<Rightarrow> IPv4Header \<Rightarrow> string" where
  "IPv4Header_summary inet_ntoa h =
     ''IPv'' @ hex_string (unat (ih_ver h)) @ '', '' @ ''len='' @ hex_string (unat (ih_len h)) @ '', '' @
     ''protocol='' @ hex_string (unat (ih_proto h)) @ '', '' @
     (if ih_ttl h \<ge> 10 then [] else ''ttl='' @ dec_string (unat (ih_ttl h)) @ '', '') @
     ''src='' @ inet_ntoa (be_bytes 4 (unat (ih_src h))) @ '', '' @
     ''dst='' @ inet_ntoa (be_bytes 4 (unat (ih_dst h)))"

section \<open>hexdump\<close>

text \<open>
  \<open>setw(w)\<close> with the fill character \<open>0\<close>; a character that \<open>isprint\<close> accepts in the C
  locale, or a full stop. The character column is a string stream that starts out as one blank
  with the write position at its beginning, so the first character replaces the blank.
\<close>

definition setw :: "nat \<Rightarrow> string \<Rightarrow> string" where
  "setw w s = replicate (w - length s) (CHR 0x30) @ s"

definition print_char :: "byte \<Rightarrow> char" where
  "print_char b = (if 32 \<le> unat b \<and> unat b < 127 then char_of (unat b) else CHR 0x2E)"

definition pchars_str :: "string \<Rightarrow> string" where
  "pchars_str written = (if written = [] then '' '' else written)"

fun hexdump_loop :: "string \<Rightarrow> nat \<Rightarrow> string \<Rightarrow> byte list \<Rightarrow> string \<times> nat \<times> string" where
  "hexdump_loop indent_string printed pchars [] = ([], printed, pchars)"
| "hexdump_loop indent_string printed pchars (b # data) =
     (let (out, pchars) =
            (if printed mod 16 = 0
             then let (out, pchars) = (if printed \<noteq> 0 then (''    '' @ pchars_str pchars @ NL, []) else ([], pchars))
                  in (out @ indent_string @ setw 8 (hex_string printed) @ '':    '', pchars)
             else if printed mod 2 = 0 then ('' '', pchars) else ([], pchars));
          out = out @ setw 2 (hex_string (unat b));
          (rest, n, p) = hexdump_loop indent_string (printed + 1) (pchars @ [print_char b]) data
      in (out @ rest, n, p))"

definition hexdump :: "byte list \<Rightarrow> nat \<Rightarrow> string" where
  "hexdump data indent =
     (let indent_string = replicate indent (CHR 0x20);
          (out, printed, pchars) = hexdump_loop indent_string 0 [] data;
          print_rem = (16 - printed mod 16) mod 16
      in out @ replicate (2 * print_rem + print_rem div 2 + 4) (CHR 0x20) @ pchars_str pchars @ NL @ NL)"

text \<open>The loop shows every byte once.\<close>

lemma hexdump_loop_count: "fst (snd (hexdump_loop i n p d)) = n + length d"
  by (induction d arbitrary: n p) (simp_all add: Let_def case_prod_beta)

end
