(* ===== verification/Net_Address.thy ===== *)
theory Net_Address
  imports Text_Format
begin

text \<open>
  \<open>Address\<close> (\<open>libsponge/util/address.hh\<close>, \<open>address.cc\<close>): a socket address as the bytes of
  a \<open>sockaddr_storage\<close> and their number. \<open>getaddrinfo\<close>, \<open>getnameinfo\<close> and \<open>inet_ntoa\<close>
  are the fields of a \<open>resolver\<close>, an argument of what uses them; \<open>numeric_resolver\<close> states
  what their manual pages promise for numeric IPv4 addresses, the only ones the TCP code
  resolves. A \<open>sockaddr_in\<close> is laid out as on a little-endian Linux host.
\<close>

unbundle bit_operations_syntax

section \<open>The resolver\<close>

record addrinfo =
  ai_flags :: int
  ai_family :: int

record resolver =
  rs_getaddrinfo :: "string \<Rightarrow> string \<Rightarrow> addrinfo \<Rightarrow> int \<times> (byte list \<times> size_t) option"
  rs_getnameinfo :: "byte list \<Rightarrow> size_t \<Rightarrow> int \<times> string \<times> string"
  rs_inet_ntoa :: "byte list \<Rightarrow> string"

abbreviation AF_INET :: nat where "AF_INET \<equiv> 2"
abbreviation AI_ALL :: int where "AI_ALL \<equiv> 16"
abbreviation AI_NUMERICHOST :: int where "AI_NUMERICHOST \<equiv> 4"
abbreviation AI_NUMERICSERV :: int where "AI_NUMERICSERV \<equiv> 1024"
abbreviation sizeof_sockaddr_storage :: nat where "sizeof_sockaddr_storage \<equiv> 128"
abbreviation sizeof_sockaddr_in :: nat where "sizeof_sockaddr_in \<equiv> 16"

definition sockaddr_in :: "16 word \<Rightarrow> 32 word \<Rightarrow> byte list" where
  "sockaddr_in port ip = [of_nat AF_INET, 0] @ be_bytes 2 (unat port) @ be_bytes 4 (unat ip) @ replicate 8 0"

section \<open>The class\<close>

record Address =
  addr_size :: size_t
  addr_storage :: "byte list"

definition Address_of_sockaddr :: "byte list \<Rightarrow> size_t \<Rightarrow> Address res" where
  "Address_of_sockaddr addr sz =
     (if sz > sizeof_sockaddr_storage then Inl (runtime_error ''invalid sockaddr size'')
      else Inr \<lparr>addr_size = sz, addr_storage = take sz addr @ replicate (sizeof_sockaddr_storage - sz) 0\<rparr>)"

definition make_hints :: "int \<Rightarrow> int \<Rightarrow> addrinfo" where
  "make_hints flags family = \<lparr>ai_flags = flags, ai_family = family\<rparr>"

definition Address_resolve :: "resolver \<Rightarrow> string \<Rightarrow> string \<Rightarrow> addrinfo \<Rightarrow> Address res" where
  "Address_resolve rs node service hints =
     (let (gai_ret, resolved_address) = rs_getaddrinfo rs node service hints
      in if gai_ret \<noteq> 0
         then Inl (tagged_error ''gai_error_category'' (''getaddrinfo('' @ node @ '', '' @ service @ '')'') gai_ret)
         else case resolved_address of
             None \<Rightarrow> Inl (runtime_error ''getaddrinfo returned successfully but with no results'')
           | Some (addr, addrlen) \<Rightarrow> Address_of_sockaddr addr addrlen)"

definition Address_of_host :: "resolver \<Rightarrow> string \<Rightarrow> string \<Rightarrow> Address res" where
  "Address_of_host rs hostname service = Address_resolve rs hostname service (make_hints AI_ALL (int AF_INET))"

definition Address_of_ip :: "resolver \<Rightarrow> string \<Rightarrow> 16 word \<Rightarrow> Address res" where
  "Address_of_ip rs ip port =
     Address_resolve rs ip (dec_string (unat port)) (make_hints (AI_NUMERICHOST OR AI_NUMERICSERV) (int AF_INET))"

definition Address_ip_port :: "resolver \<Rightarrow> Address \<Rightarrow> (string \<times> 16 word) res" where
  "Address_ip_port rs a =
     (let (gni_ret, ip, port) = rs_getnameinfo rs (addr_storage a) (addr_size a)
      in if gni_ret \<noteq> 0 then Inl (tagged_error ''gai_error_category'' ''getnameinfo'' gni_ret)
         else bindR (stoi port) (\<lambda>p. Inr (ip, of_int p)))"

definition Address_ip :: "resolver \<Rightarrow> Address \<Rightarrow> string res" where
  "Address_ip rs a = bindR (Address_ip_port rs a) (\<lambda>x. Inr (fst x))"

definition Address_port :: "resolver \<Rightarrow> Address \<Rightarrow> 16 word res" where
  "Address_port rs a = bindR (Address_ip_port rs a) (\<lambda>x. Inr (snd x))"

definition Address_to_string :: "resolver \<Rightarrow> Address \<Rightarrow> string res" where
  "Address_to_string rs a =
     bindR (Address_ip_port rs a) (\<lambda>ip_and_port.
       Inr (fst ip_and_port @ '':'' @ dec_string (unat (snd ip_and_port))))"

definition Address_ipv4_numeric :: "Address \<Rightarrow> 32 word res" where
  "Address_ipv4_numeric a =
     (if take 2 (addr_storage a) \<noteq> [of_nat AF_INET, 0] \<or> addr_size a \<noteq> sizeof_sockaddr_in
      then Inl (runtime_error ''ipv4_numeric called on non-IPV4 address'')
      else Inr (of_nat (be_value (take 4 (drop 4 (addr_storage a))))))"

definition Address_from_ipv4_numeric :: "32 word \<Rightarrow> Address res" where
  "Address_from_ipv4_numeric ip_address = Address_of_sockaddr (sockaddr_in 0 ip_address) sizeof_sockaddr_in"

definition Address_eq :: "Address \<Rightarrow> Address \<Rightarrow> bool" where
  "Address_eq a b \<longleftrightarrow>
     (if addr_size a \<noteq> addr_size b then False
      else take (addr_size a) (addr_storage a) = take (addr_size a) (addr_storage b))"

section \<open>Numeric addresses\<close>

text \<open>The address of an IPv4 host and port.\<close>

definition ipv4_address :: "32 word \<Rightarrow> 16 word \<Rightarrow> Address" where
  "ipv4_address ip port =
     \<lparr>addr_size = sizeof_sockaddr_in,
      addr_storage = sockaddr_in port ip @ replicate (sizeof_sockaddr_storage - sizeof_sockaddr_in) 0\<rparr>"

definition numeric_resolver :: "resolver \<Rightarrow> bool" where
  "numeric_resolver rs \<longleftrightarrow> (\<forall>ip port.
     rs_getaddrinfo rs (rs_inet_ntoa rs (be_bytes 4 (unat ip))) (dec_string (unat port))
       (make_hints (AI_NUMERICHOST OR AI_NUMERICSERV) (int AF_INET)) = (0, Some (sockaddr_in port ip, sizeof_sockaddr_in)) \<and>
     rs_getnameinfo rs (addr_storage (ipv4_address ip port)) sizeof_sockaddr_in =
       (0, rs_inet_ntoa rs (be_bytes 4 (unat ip)), dec_string (unat port)))"

lemma length_sockaddr_in [simp]: "length (sockaddr_in port ip) = 16"
  by (simp add: sockaddr_in_def)

lemma Address_of_ip_numeric:
  "numeric_resolver rs \<Longrightarrow> Address_of_ip rs (rs_inet_ntoa rs (be_bytes 4 (unat ip))) port = Inr (ipv4_address ip port)"
  by (simp add: Address_of_ip_def Address_resolve_def numeric_resolver_def Address_of_sockaddr_def ipv4_address_def)

lemma Address_port_numeric:
  assumes "numeric_resolver rs"
  shows "Address_port rs (ipv4_address ip port) = Inr port"
    "Address_ip rs (ipv4_address ip port) = Inr (rs_inet_ntoa rs (be_bytes 4 (unat ip)))"
proof -
  have "unat port < 2147483648" using unsigned_less [of port, where 'a = nat] by simp
  from stoi_dec_string [OF this]
  have "Address_ip_port rs (ipv4_address ip port) = Inr (rs_inet_ntoa rs (be_bytes 4 (unat ip)), port)"
    using assms by (simp add: Address_ip_port_def numeric_resolver_def ipv4_address_def)
  then show "Address_port rs (ipv4_address ip port) = Inr port"
    "Address_ip rs (ipv4_address ip port) = Inr (rs_inet_ntoa rs (be_bytes 4 (unat ip)))"
    by (simp_all add: Address_port_def Address_ip_def)
qed

lemma ipv4_numeric_address [simp]: "Address_ipv4_numeric (ipv4_address ip port) = Inr ip"
proof -
  have "unat ip < 256 ^ 4" using unsigned_less [of ip, where 'a = nat] by simp
  then have "of_nat (be_value (be_bytes 4 (unat ip))) = ip" by (simp add: be_value_bytes)
  then show ?thesis
    by (simp add: Address_ipv4_numeric_def ipv4_address_def sockaddr_in_def)
qed

lemma be_bytes_inj: "m < 256 ^ n \<Longrightarrow> k < 256 ^ n \<Longrightarrow> be_bytes n m = be_bytes n k \<longleftrightarrow> m = k"
  by (metis be_value_bytes mod_less)

lemma Address_eq_ipv4: "Address_eq (ipv4_address ip port) (ipv4_address ip' port') \<longleftrightarrow> ip = ip' \<and> port = port'"
proof -
  have "be_bytes 2 (unat port) = be_bytes 2 (unat port') \<longleftrightarrow> unat port = unat port'"
    using unsigned_less [of port, where 'a = nat] unsigned_less [of port', where 'a = nat]
    by (intro be_bytes_inj) simp_all
  moreover have "be_bytes 4 (unat ip) = be_bytes 4 (unat ip') \<longleftrightarrow> unat ip = unat ip'"
    using unsigned_less [of ip, where 'a = nat] unsigned_less [of ip', where 'a = nat]
    by (intro be_bytes_inj) simp_all
  ultimately have "sockaddr_in port ip = sockaddr_in port' ip' \<longleftrightarrow> ip = ip' \<and> port = port'"
    by (auto simp: sockaddr_in_def word_unat_eq_iff)
  then show ?thesis by (simp add: Address_eq_def ipv4_address_def)
qed

section \<open>A numeric resolver\<close>

text \<open>A concrete one: dotted quads and decimal ports.\<close>

definition quad_resolver :: resolver where
  "quad_resolver = \<lparr>rs_getaddrinfo = (\<lambda>node service hints.
       (0, Some ([of_nat AF_INET, 0] @ be_bytes 2 (dec_value service) @ undot [] node @ replicate 8 0, sizeof_sockaddr_in))),
     rs_getnameinfo = (\<lambda>s n. (0, dotted (take 4 (drop 4 s)), dec_string (be_value (take 2 (drop 2 s))))),
     rs_inet_ntoa = dotted\<rparr>"

lemma quad_resolver_numeric: "numeric_resolver quad_resolver"
proof -
  have "undot [] (dotted (be_bytes 4 n)) = be_bytes 4 n" for n
    by (rule undot_dotted) (use length_be_bytes [of 4 n] in force)
  moreover have "unat port mod 256 ^ 2 = unat port" for port :: "16 word"
    using unsigned_less [of port, where 'a = nat] by simp
  ultimately show ?thesis
    by (simp add: numeric_resolver_def quad_resolver_def sockaddr_in_def ipv4_address_def be_value_bytes)
qed

end
