(* ===== verification/Datagram_Adapters.thy ===== *)
theory Datagram_Adapters
  imports Net_Address
begin

text \<open>
  The adapters between TCP segments and datagrams: \<open>FdAdapterBase\<close> and
  \<open>TCPOverUDPSocketAdapter\<close> (\<open>fd_adapter.hh\<close>, \<open>fd_adapter.cc\<close>), \<open>TCPOverIPv4Adapter\<close>
  (\<open>tcp_over_ip.cc\<close>), \<open>TCPOverIPv4OverTunFdAdapter\<close> (\<open>tuntap_adapter.hh\<close>) and
  \<open>LossyFdAdapter\<close> (\<open>lossy_fd_adapter.hh\<close>). What the device delivers is an argument of
  \<open>read\<close> and what it is given is the result of \<open>write\<close>. The contract of an adapter
  is the locale \<open>segment_link\<close>: what one side writes, the other one reads.
\<close>

section \<open>FdAdapterBase\<close>

record FdAdapterConfig =
  fc_source :: Address
  fc_destination :: Address
  fc_loss_rate_dn :: "16 word"
  fc_loss_rate_up :: "16 word"

definition FdAdapterConfig_default :: "resolver \<Rightarrow> FdAdapterConfig res" where
  "FdAdapterConfig_default rs =
     bindR (Address_of_ip rs ''0'' 0) (\<lambda>source. bindR (Address_of_ip rs ''0'' 0) (\<lambda>destination.
       Inr \<lparr>fc_source = source, fc_destination = destination, fc_loss_rate_dn = 0, fc_loss_rate_up = 0\<rparr>))"

record FdAdapterBase =
  fa_cfg :: FdAdapterConfig
  fa_listen :: bool

definition FdAdapterBase_set_listening :: "FdAdapterBase \<Rightarrow> bool \<Rightarrow> FdAdapterBase" where
  "FdAdapterBase_set_listening a l = a\<lparr>fa_listen := l\<rparr>"

definition FdAdapterBase_listening :: "FdAdapterBase \<Rightarrow> bool" where
  "FdAdapterBase_listening a = fa_listen a"

definition FdAdapterBase_config_mut :: "FdAdapterBase \<Rightarrow> FdAdapterConfig \<Rightarrow> FdAdapterBase" where
  "FdAdapterBase_config_mut a cfg = a\<lparr>fa_cfg := cfg\<rparr>"

definition FdAdapterBase_tick :: "FdAdapterBase \<Rightarrow> size_t \<Rightarrow> FdAdapterBase" where
  "FdAdapterBase_tick a ms = a"

section \<open>TCP over IPv4\<close>

text \<open>The last test of \<open>unwrap_tcp_in_ip\<close>.\<close>

definition tcp_from_peer :: "resolver \<Rightarrow> FdAdapterBase \<Rightarrow> TCPSegment \<Rightarrow> (FdAdapterBase \<times> TCPSegment option) res" where
  "tcp_from_peer rs a tcp_seg =
     bindR (Address_port rs (fc_destination (fa_cfg a))) (\<lambda>port.
       if th_sport (seg_header tcp_seg) \<noteq> port then Inr (a, None) else Inr (a, Some tcp_seg))"

definition unwrap_tcp_in_ip ::
  "resolver \<Rightarrow> FdAdapterBase \<Rightarrow> InternetDatagram \<Rightarrow> (FdAdapterBase \<times> TCPSegment option) res" where
  "unwrap_tcp_in_ip rs a ip_dgram =
     (let header = dg_header ip_dgram;
          not_for = (\<lambda>addr n. if \<not> FdAdapterBase_listening a
            then bindR (Address_ipv4_numeric addr) (\<lambda>x. Inr (n \<noteq> x)) else Inr False)
      in bindR (not_for (fc_source (fa_cfg a)) (ih_dst header)) (\<lambda>other.
         if other then Inr (a, None) else
         bindR (not_for (fc_destination (fa_cfg a)) (ih_src header)) (\<lambda>other.
         if other then Inr (a, None) else
         if ih_proto header \<noteq> IPv4Header_PROTO_TCP then Inr (a, None) else
         bindR (BufferList_to_Buffer (dg_payload ip_dgram)) (\<lambda>payload.
         bindR (TCPSegment_parse TCPSegment_default payload (IPv4Header_pseudo_cksum header)) (\<lambda>(tcp_seg, result).
         if result \<noteq> NoError then Inr (a, None) else
         bindR (Address_port rs (fc_source (fa_cfg a))) (\<lambda>port.
         if th_dport (seg_header tcp_seg) \<noteq> port then Inr (a, None) else
         if FdAdapterBase_listening a then
           if th_syn (seg_header tcp_seg) \<and> \<not> th_rst (seg_header tcp_seg) then
             bindR (Address_port rs (fc_source (fa_cfg a))) (\<lambda>port.
             bindR (Address_of_ip rs (rs_inet_ntoa rs (be_bytes 4 (unat (ih_dst header)))) port) (\<lambda>source.
             bindR (Address_of_ip rs (rs_inet_ntoa rs (be_bytes 4 (unat (ih_src header)))) (th_sport (seg_header tcp_seg)))
               (\<lambda>destination.
                 let a = a\<lparr>fa_cfg := (fa_cfg a)\<lparr>fc_source := source, fc_destination := destination\<rparr>\<rparr>;
                     a = FdAdapterBase_set_listening a False
                 in tcp_from_peer rs a tcp_seg)))
           else Inr (a, None)
         else tcp_from_peer rs a tcp_seg))))))"

definition wrap_tcp_in_ip :: "resolver \<Rightarrow> FdAdapterBase \<Rightarrow> TCPSegment \<Rightarrow> (TCPSegment \<times> InternetDatagram) res" where
  "wrap_tcp_in_ip rs a seg =
     bindR (Address_port rs (fc_source (fa_cfg a))) (\<lambda>sport.
     bindR (Address_port rs (fc_destination (fa_cfg a))) (\<lambda>dport.
       let seg = seg\<lparr>seg_header := (seg_header seg)\<lparr>th_sport := sport, th_dport := dport\<rparr>\<rparr>
       in bindR (Address_ipv4_numeric (fc_source (fa_cfg a))) (\<lambda>src.
          bindR (Address_ipv4_numeric (fc_destination (fa_cfg a))) (\<lambda>dst.
            let h = (dg_header IPv4Datagram_default)\<lparr>ih_src := src, ih_dst := dst\<rparr>;
                h = h\<lparr>ih_len := of_nat (unat (ih_hlen h) * 4 + unat (th_doff (seg_header seg)) * 4 +
                       Buffer_size (seg_payload seg))\<rparr>
            in bindR (TCPSegment_serialize seg (IPv4Header_pseudo_cksum h)) (\<lambda>payload.
                 Inr (seg, \<lparr>dg_header = h, dg_payload = payload\<rparr>))))))"

definition TunFdAdapter_read :: "resolver \<Rightarrow> FdAdapterBase \<Rightarrow> byte list \<Rightarrow> (FdAdapterBase \<times> TCPSegment option) res" where
  "TunFdAdapter_read rs a data =
     bindR (IPv4Datagram_parse IPv4Datagram_default (Buffer_of data)) (\<lambda>(ip_dgram, result).
       if result \<noteq> NoError then Inr (a, None) else unwrap_tcp_in_ip rs a ip_dgram)"

definition TunFdAdapter_write :: "resolver \<Rightarrow> FdAdapterBase \<Rightarrow> TCPSegment \<Rightarrow> BufferList res" where
  "TunFdAdapter_write rs a seg =
     bindR (wrap_tcp_in_ip rs a seg) (\<lambda>(seg, ip_dgram). IPv4Datagram_serialize ip_dgram)"

section \<open>TCP over UDP\<close>

record received_datagram =
  rd_source_address :: Address
  rd_payload :: "byte list"

definition UDPSocketAdapter_read ::
  "FdAdapterBase \<Rightarrow> received_datagram \<Rightarrow> (FdAdapterBase \<times> TCPSegment option) res" where
  "UDPSocketAdapter_read a datagram =
     (if \<not> FdAdapterBase_listening a \<and> \<not> Address_eq (rd_source_address datagram) (fc_destination (fa_cfg a))
      then Inr (a, None)
      else
        bindR (TCPSegment_parse TCPSegment_default (Buffer_of (rd_payload datagram)) 0) (\<lambda>(seg, result).
          if result \<noteq> NoError then Inr (a, None)
          else if FdAdapterBase_listening a then
            if th_syn (seg_header seg) \<and> \<not> th_rst (seg_header seg) then
              let a = a\<lparr>fa_cfg := (fa_cfg a)\<lparr>fc_destination := rd_source_address datagram\<rparr>\<rparr>;
                  a = FdAdapterBase_set_listening a False
              in Inr (a, Some seg)
            else Inr (a, None)
          else Inr (a, Some seg)))"

definition UDPSocketAdapter_write :: "resolver \<Rightarrow> FdAdapterBase \<Rightarrow> TCPSegment \<Rightarrow> (Address \<times> BufferList) res" where
  "UDPSocketAdapter_write rs a seg =
     bindR (Address_port rs (fc_source (fa_cfg a))) (\<lambda>sport.
     bindR (Address_port rs (fc_destination (fa_cfg a))) (\<lambda>dport.
       let seg = seg\<lparr>seg_header := (seg_header seg)\<lparr>th_sport := sport, th_dport := dport\<rparr>\<rparr>
       in bindR (TCPSegment_serialize seg 0) (\<lambda>payload. Inr (fc_destination (fa_cfg a), payload))))"

section \<open>LossyFdAdapter\<close>

text \<open>
  The template over the adapter's type and its operations; \<open>rng\<close> is one draw of the
  random number generator. A read draws after the underlying read, a write before.
\<close>

record ('a, 'g) LossyFdAdapter =
  lf_rand :: 'g
  lf_adapter :: 'a

definition LossyFdAdapter_should_drop ::
  "('g \<Rightarrow> 32 word \<times> 'g) \<Rightarrow> ('a \<Rightarrow> FdAdapterConfig) \<Rightarrow> bool \<Rightarrow> ('a, 'g) LossyFdAdapter \<Rightarrow>
   bool \<times> ('a, 'g) LossyFdAdapter" where
  "LossyFdAdapter_should_drop rng config uplink l =
     (let cfg = config (lf_adapter l);
          loss = (if uplink then fc_loss_rate_up cfg else fc_loss_rate_dn cfg)
      in if loss \<noteq> 0
         then let (r, g) = rng (lf_rand l) in ((ucast r :: 16 word) < loss, l\<lparr>lf_rand := g\<rparr>)
         else (False, l))"

definition LossyFdAdapter_read ::
  "('g \<Rightarrow> 32 word \<times> 'g) \<Rightarrow> ('a \<Rightarrow> FdAdapterConfig) \<Rightarrow> ('a \<Rightarrow> 'w \<Rightarrow> ('a \<times> TCPSegment option) res) \<Rightarrow>
   ('a, 'g) LossyFdAdapter \<Rightarrow> 'w \<Rightarrow> (('a, 'g) LossyFdAdapter \<times> TCPSegment option) res" where
  "LossyFdAdapter_read rng config rd l w =
     bindR (rd (lf_adapter l) w) (\<lambda>(a, ret).
       let (drop_it, l) = LossyFdAdapter_should_drop rng config False (l\<lparr>lf_adapter := a\<rparr>)
       in if drop_it then Inr (l, None) else Inr (l, ret))"

definition LossyFdAdapter_write ::
  "('g \<Rightarrow> 32 word \<times> 'g) \<Rightarrow> ('a \<Rightarrow> FdAdapterConfig) \<Rightarrow> ('a \<Rightarrow> TCPSegment \<Rightarrow> 'w res) \<Rightarrow>
   ('a, 'g) LossyFdAdapter \<Rightarrow> TCPSegment \<Rightarrow> (('a, 'g) LossyFdAdapter \<times> 'w option) res" where
  "LossyFdAdapter_write rng config wr l seg =
     (let (drop_it, l) = LossyFdAdapter_should_drop rng config True l
      in if drop_it then Inr (l, None) else bindR (wr (lf_adapter l) seg) (\<lambda>w. Inr (l, Some w)))"

definition LossyFdAdapter_set_listening :: "('a, 'g) LossyFdAdapter \<Rightarrow> ('a \<Rightarrow> bool \<Rightarrow> 'a) \<Rightarrow> bool \<Rightarrow> ('a, 'g) LossyFdAdapter" where
  "LossyFdAdapter_set_listening l set_listening b = l\<lparr>lf_adapter := set_listening (lf_adapter l) b\<rparr>"

definition LossyFdAdapter_tick :: "('a, 'g) LossyFdAdapter \<Rightarrow> ('a \<Rightarrow> size_t \<Rightarrow> 'a) \<Rightarrow> size_t \<Rightarrow> ('a, 'g) LossyFdAdapter" where
  "LossyFdAdapter_tick l tick ms = l\<lparr>lf_adapter := tick (lf_adapter l) ms\<rparr>"

section \<open>The contract of an adapter\<close>

text \<open>What a segment keeps on its way: everything but the ports and the checksum.\<close>

definition same_segment :: "TCPSegment \<Rightarrow> TCPSegment \<Rightarrow> bool" where
  "same_segment seg seg' \<longleftrightarrow>
     (\<exists>sport dport cksum. seg_header seg' =
        (seg_header seg)\<lparr>th_sport := sport, th_dport := dport, th_cksum := cksum\<rparr>) \<and>
     Buffer_str (seg_payload seg') = Buffer_str (seg_payload seg)"

locale segment_link =
  fixes rd :: "'a \<Rightarrow> 'w \<Rightarrow> ('a \<times> TCPSegment option) res"
    and wr :: "'a \<Rightarrow> TCPSegment \<Rightarrow> 'w res"
    and config :: "'a \<Rightarrow> FdAdapterConfig"
    and peers :: "'a \<Rightarrow> 'a \<Rightarrow> bool"
    and fits :: "TCPSegment \<Rightarrow> bool"
  assumes carries: "peers a b \<Longrightarrow> fits seg \<Longrightarrow>
      \<exists>w seg'. wr a seg = Inr w \<and> rd b w = Inr (b, Some seg') \<and> same_segment seg seg'"
begin

text \<open>Losses on either side only ever lose the segment.\<close>

lemma lossy_carries:
  assumes "peers (lf_adapter la) (lf_adapter lb)" and "fits seg"
  shows "\<exists>la' ow. LossyFdAdapter_write rng config wr la seg = Inr (la', ow) \<and> lf_adapter la' = lf_adapter la \<and>
    (\<forall>w. ow = Some w \<longrightarrow> (\<exists>lb' oseg. LossyFdAdapter_read rng config rd lb w = Inr (lb', oseg) \<and>
       lf_adapter lb' = lf_adapter lb \<and> (\<forall>seg'. oseg = Some seg' \<longrightarrow> same_segment seg seg'))) \<and>
    (fc_loss_rate_up (config (lf_adapter la)) = 0 \<and> fc_loss_rate_dn (config (lf_adapter lb)) = 0 \<longrightarrow>
       (\<exists>w lb' seg'. ow = Some w \<and> LossyFdAdapter_read rng config rd lb w = Inr (lb', Some seg') \<and> same_segment seg seg'))"
proof -
  obtain w seg' where w: "wr (lf_adapter la) seg = Inr w" "rd (lf_adapter lb) w = Inr (lf_adapter lb, Some seg')"
    "same_segment seg seg'" using carries [OF assms] by blast
  obtain d la' where d: "LossyFdAdapter_should_drop rng config True la = (d, la')" by fastforce
  obtain e lb' where e: "LossyFdAdapter_should_drop rng config False lb = (e, lb')" by fastforce
  have keep: "lf_adapter la' = lf_adapter la" "lf_adapter lb' = lf_adapter lb"
    using d e by (auto simp: LossyFdAdapter_should_drop_def Let_def split: if_splits prod.splits)
  have sure: "fc_loss_rate_up (config (lf_adapter la)) = 0 \<Longrightarrow> \<not> d" "fc_loss_rate_dn (config (lf_adapter lb)) = 0 \<Longrightarrow> \<not> e"
    using d e by (auto simp: LossyFdAdapter_should_drop_def Let_def)
  have wr: "LossyFdAdapter_write rng config wr la seg = Inr (la', if d then None else Some w)"
    using d w(1) keep(1) by (simp add: LossyFdAdapter_write_def)
  have rd: "LossyFdAdapter_read rng config rd lb w = Inr (lb', if e then None else Some seg')"
    using e w(2) by (simp add: LossyFdAdapter_read_def)
  show ?thesis using wr rd keep sure w(3) by (cases d; cases e) auto
qed

end

section \<open>The link over IPv4\<close>

text \<open>A segment that fits into a datagram, header and all.\<close>

definition tcp_fits :: "TCPSegment \<Rightarrow> bool" where
  "tcp_fits seg \<longleftrightarrow> 5 \<le> unat (th_doff (seg_header seg)) \<and> unat (th_doff (seg_header seg)) < 16 \<and>
     20 + 4 * unat (th_doff (seg_header seg)) + length (Buffer_str (seg_payload seg)) < 65536"

text \<open>Two adapters set up for each other, and an adapter that listens on the port of the other's peer.\<close>

definition ip_peers :: "FdAdapterBase \<Rightarrow> FdAdapterBase \<Rightarrow> bool" where
  "ip_peers a b \<longleftrightarrow> (\<exists>ip port ip' port'.
     fc_source (fa_cfg a) = ipv4_address ip port \<and> fc_destination (fa_cfg a) = ipv4_address ip' port' \<and>
     fc_source (fa_cfg b) = ipv4_address ip' port' \<and> fc_destination (fa_cfg b) = ipv4_address ip port \<and> \<not> fa_listen b)"

lemma unat_add_le: "unat (x + y) \<le> unat x + unat (y :: 32 word)"
  by (simp add: unat_word_ariths)

lemma pseudo_cksum_bound: "unat (IPv4Header_pseudo_cksum h) \<le> 6 * 65535"
proof -
  have a: "unat (drop_bit 16 (x :: 32 word)) \<le> 65535" for x
  proof -
    have "unat (drop_bit 16 x) = unat x div 65536" by (simp add: drop_bit_eq_div unat_div)
    then show ?thesis using unsigned_less [of x, where 'a = nat] by simp
  qed
  have b: "unat ((x :: 32 word) AND 0xffff) \<le> 65535" for x
  proof -
    have "x AND 0xffff \<le> 0xffff" by (rule word_and_le1)
    then show ?thesis by (simp add: word_le_nat_alt)
  qed
  have c: "unat (ucast (p :: 8 word) :: 32 word) \<le> 65535" "unat (ucast (l :: 16 word) :: 32 word) \<le> 65535" for p l
    using unsigned_less [of p, where 'a = nat] unsigned_less [of l, where 'a = nat]
    by (simp_all add: unsigned_ucast_eq take_bit_eq_mod)
  define s where "s = drop_bit 16 (ih_src h) + (ih_src h AND 0xffff)"
  define d where "d = drop_bit 16 (ih_dst h) + (ih_dst h AND 0xffff)"
  have "unat s \<le> 2 * 65535" "unat d \<le> 2 * 65535"
    unfolding s_def d_def
    using unat_add_le [of "drop_bit 16 (ih_src h)" "ih_src h AND 0xffff"] a [of "ih_src h"] b [of "ih_src h"]
      unat_add_le [of "drop_bit 16 (ih_dst h)" "ih_dst h AND 0xffff"] a [of "ih_dst h"] b [of "ih_dst h"] by linarith+
  then show ?thesis
    unfolding IPv4Header_pseudo_cksum_def Let_def s_def [symmetric] d_def [symmetric]
    using unat_add_le [of "s + d + ucast (ih_proto h)" "ucast (IPv4Header_payload_length h)"]
      unat_add_le [of "s + d" "ucast (ih_proto h)"] unat_add_le [of s d] c(1) [of "ih_proto h"]
      c(2) [of "IPv4Header_payload_length h"] by linarith
qed

text \<open>The segment with the ports of the connection, and the bytes a write puts on the wire.\<close>

definition tcp_wire :: "TCPHeader \<Rightarrow> byte list \<Rightarrow> byte list" where
  "tcp_wire h d = header_wire h @ replicate (4 * unat (th_doff h) - 20) 0 @ d"

lemma tcp_serialize_wire:
  assumes "tcp_fits seg" and "unat c \<le> 6 * 65535"
  obtains v bl where "TCPSegment_serialize seg c = Inr bl"
    "BufferList_concatenate bl = tcp_wire ((seg_header seg)\<lparr>th_cksum := v\<rparr>) (Buffer_str (seg_payload seg))"
    "InternetChecksum_value (InternetChecksum_add (InternetChecksum_new c) (BufferList_concatenate bl)) = 0"
proof -
  have f: "5 \<le> unat (th_doff (seg_header seg))"
    "unat c + 65280 * (4 * unat (th_doff (seg_header seg)) + length (Buffer_str (seg_payload seg))) + 65535 < UINT_MOD"
    using assms by (simp_all add: tcp_fits_def)
  obtain v s where s: "TCPSegment_serialize seg c = Inr [Buffer_of s, seg_payload seg]"
    "s = header_wire ((seg_header seg)\<lparr>th_cksum := v\<rparr>) @ replicate (4 * unat (th_doff (seg_header seg)) - 20) 0"
    "InternetChecksum_value (InternetChecksum_add (InternetChecksum_new c) (s @ Buffer_str (seg_payload seg))) = 0"
    by (rule TCPSegment_serialize_ok [OF f])
  show ?thesis by (rule that [OF s(1), of v]) (use s(2,3) in \<open>simp_all add: BufferList_concatenate_eq tcp_wire_def\<close>)
qed

lemma tcp_parse_wire:
  assumes "InternetChecksum_value (InternetChecksum_add (InternetChecksum_new c) (tcp_wire h d)) = 0"
    and "5 \<le> unat (th_doff h)" and "unat (th_doff h) < 16" and "Buffer_inv b" and "Buffer_str b = tcp_wire h d"
  obtains pl where "TCPSegment_parse seg b c = Inr (seg\<lparr>seg_header := h, seg_payload := pl\<rparr>, NoError)" "Buffer_str pl = d"
  by (rule TCPSegment_parse_wire [OF assms(1) [unfolded tcp_wire_def] _ assms(2-4) assms(5) [unfolded tcp_wire_def], of seg])
    (simp_all add: that)

lemma length_tcp_wire: "5 \<le> unat (th_doff h) \<Longrightarrow> length (tcp_wire h d) = 4 * unat (th_doff h) + length d"
  by (simp add: tcp_wire_def)

lemma tun_write_bytes:
  assumes "numeric_resolver rs" and "tcp_fits seg"
    and "fc_source (fa_cfg a) = ipv4_address ip port" and "fc_destination (fa_cfg a) = ipv4_address ip' port'"
  obtains bl ih th where "TunFdAdapter_write rs a seg = Inr bl"
    "BufferList_concatenate bl = ip_wire ih @ tcp_wire th (Buffer_str (seg_payload seg))"
    "ip_fits ih" "ih_hlen ih = 5" "ih_src ih = ip" "ih_dst ih = ip'" "ih_proto ih = IPv4Header_PROTO_TCP"
    "unat (ih_len ih) = 20 + length (tcp_wire th (Buffer_str (seg_payload seg)))"
    "\<exists>v. th = (seg_header seg)\<lparr>th_sport := port, th_dport := port', th_cksum := v\<rparr>"
    "InternetChecksum_value (InternetChecksum_add (InternetChecksum_new (IPv4Header_pseudo_cksum ih))
       (tcp_wire th (Buffer_str (seg_payload seg)))) = 0"
proof -
  let ?seg = "seg\<lparr>seg_header := (seg_header seg)\<lparr>th_sport := port, th_dport := port'\<rparr>\<rparr>"
  define n where "n = 20 + 4 * unat (th_doff (seg_header seg)) + length (Buffer_str (seg_payload seg))"
  let ?h = "IPv4Header_default\<lparr>ih_src := ip, ih_dst := ip', ih_len := of_nat n\<rparr>"
  have fits: "tcp_fits ?seg" "n < 65536" "5 \<le> unat (th_doff (seg_header seg))"
    using assms(2) by (simp_all add: tcp_fits_def n_def)
  obtain v bl where bl: "TCPSegment_serialize ?seg (IPv4Header_pseudo_cksum ?h) = Inr bl"
    "BufferList_concatenate bl = tcp_wire ((seg_header ?seg)\<lparr>th_cksum := v\<rparr>) (Buffer_str (seg_payload ?seg))"
    "InternetChecksum_value (InternetChecksum_add (InternetChecksum_new (IPv4Header_pseudo_cksum ?h)) (BufferList_concatenate bl)) = 0"
    by (rule tcp_serialize_wire [OF fits(1) pseudo_cksum_bound])
  let ?th = "(seg_header seg)\<lparr>th_sport := port, th_dport := port', th_cksum := v\<rparr>"
  have c: "BufferList_concatenate bl = tcp_wire ?th (Buffer_str (seg_payload seg))" using bl(2) by simp
  have wrap: "wrap_tcp_in_ip rs a seg = Inr (?seg, \<lparr>dg_header = ?h, dg_payload = bl\<rparr>)"
    using bl(1) assms(1,3,4)
    by (simp add: wrap_tcp_in_ip_def Address_port_numeric Let_def IPv4Datagram_default_def IPv4Header_default_def
        IPv4Header_LENGTH_def Buffer_size_def mult.commute n_def)
  have h: "ip_fits ?h" "ih_hlen ?h = 5" by (simp_all add: ip_fits_def IPv4Header_default_def IPv4Header_LENGTH_def)
  have len: "unat (ih_len ?h) = 20 + length (tcp_wire ?th (Buffer_str (seg_payload seg)))"
    using fits(2,3) by (simp add: length_tcp_wire unat_of_nat) (simp add: n_def)
  obtain w s where s: "IPv4Datagram_serialize \<lparr>dg_header = ?h, dg_payload = bl\<rparr> = Inr (Buffer_of s # bl)"
    "s = ip_wire (?h\<lparr>ih_cksum := w\<rparr>) @ replicate (4 * unat (ih_hlen ?h) - 20) 0"
    by (rule IPv4Datagram_serialize_ok [of "\<lparr>dg_header = ?h, dg_payload = bl\<rparr>"]) (use h len c in simp_all)
  show ?thesis
  proof (rule that [of "Buffer_of s # bl" "?h\<lparr>ih_cksum := w\<rparr>" ?th])
    show "TunFdAdapter_write rs a seg = Inr (Buffer_of s # bl)" using wrap s(1) by (simp add: TunFdAdapter_write_def)
    show "BufferList_concatenate (Buffer_of s # bl) = ip_wire (?h\<lparr>ih_cksum := w\<rparr>) @ tcp_wire ?th (Buffer_str (seg_payload seg))"
      using s(2) h(2) c by (simp add: BufferList_concatenate_eq)
    show "InternetChecksum_value (InternetChecksum_add (InternetChecksum_new (IPv4Header_pseudo_cksum (?h\<lparr>ih_cksum := w\<rparr>)))
        (tcp_wire ?th (Buffer_str (seg_payload seg)))) = 0"
      using bl(3) c by (simp add: IPv4Header_pseudo_cksum_def IPv4Header_payload_length_def)
    show "ip_fits (?h\<lparr>ih_cksum := w\<rparr>)" using h(1) by simp
  qed (use h len in \<open>auto simp: IPv4Header_default_def\<close>)
qed

lemma tun_read_bytes:
  assumes "ip_fits ih" and "ih_hlen ih = 5" and "ih_proto ih = IPv4Header_PROTO_TCP"
    and "unat (ih_len ih) = 20 + length (tcp_wire th d)"
    and "5 \<le> unat (th_doff th)" and "unat (th_doff th) < 16"
    and "InternetChecksum_value (InternetChecksum_add (InternetChecksum_new (IPv4Header_pseudo_cksum ih)) (tcp_wire th d)) = 0"
  obtains ip_dgram payload seg where
    "TunFdAdapter_read rs b (ip_wire ih @ tcp_wire th d) = unwrap_tcp_in_ip rs b ip_dgram"
    "dg_header ip_dgram = ih" "BufferList_to_Buffer (dg_payload ip_dgram) = Inr payload"
    "TCPSegment_parse TCPSegment_default payload (IPv4Header_pseudo_cksum ih) = Inr (seg, NoError)"
    "seg_header seg = th" "Buffer_str (seg_payload seg) = d"
proof -
  have "length (tcp_wire th d) < 65536" using assms(4) unsigned_less [of "ih_len ih", where 'a = nat] by simp
  then have inv: "Buffer_inv (Buffer_of (ip_wire ih @ tcp_wire th d))" by simp
  obtain payload where p: "IPv4Datagram_parse IPv4Datagram_default (Buffer_of (ip_wire ih @ tcp_wire th d)) =
      Inr (IPv4Datagram_default\<lparr>dg_header := ih, dg_payload := [payload]\<rparr>, NoError)"
    "Buffer_inv payload" "Buffer_str payload = tcp_wire th d"
    by (rule IPv4Datagram_parse_wire [OF inv, of ih "[]" "tcp_wire th d" IPv4Datagram_default]) (use assms(1,2,4) in simp_all)
  obtain pl where pl: "TCPSegment_parse TCPSegment_default payload (IPv4Header_pseudo_cksum ih) =
      Inr (TCPSegment_default\<lparr>seg_header := th, seg_payload := pl\<rparr>, NoError)" "Buffer_str pl = d"
    by (rule tcp_parse_wire [OF assms(7,5,6) p(2,3)])
  show ?thesis
    by (rule that [of "IPv4Datagram_default\<lparr>dg_header := ih, dg_payload := [payload]\<rparr>" payload, OF _ _ _ pl(1)])
      (use p(1) pl(2) in \<open>simp_all add: TunFdAdapter_read_def BufferList_to_Buffer_def\<close>)
qed

lemma tun_carries:
  assumes "numeric_resolver rs" and "ip_peers a b" and "tcp_fits seg"
  shows "\<exists>bl seg'. TunFdAdapter_write rs a seg = Inr bl \<and>
    TunFdAdapter_read rs b (BufferList_concatenate bl) = Inr (b, Some seg') \<and> same_segment seg seg'"
proof -
  obtain ip port ip' port' where ab: "fc_source (fa_cfg a) = ipv4_address ip port"
    "fc_destination (fa_cfg a) = ipv4_address ip' port'" "fc_source (fa_cfg b) = ipv4_address ip' port'"
    "fc_destination (fa_cfg b) = ipv4_address ip port" "\<not> fa_listen b"
    using assms(2) by (auto simp: ip_peers_def)
  let ?d = "Buffer_str (seg_payload seg)"
  obtain bl ih th where w: "TunFdAdapter_write rs a seg = Inr bl" "BufferList_concatenate bl = ip_wire ih @ tcp_wire th ?d"
    "ip_fits ih" "ih_hlen ih = 5" "ih_src ih = ip" "ih_dst ih = ip'" "ih_proto ih = IPv4Header_PROTO_TCP"
    "unat (ih_len ih) = 20 + length (tcp_wire th ?d)"
    "\<exists>v. th = (seg_header seg)\<lparr>th_sport := port, th_dport := port', th_cksum := v\<rparr>"
    "InternetChecksum_value (InternetChecksum_add (InternetChecksum_new (IPv4Header_pseudo_cksum ih)) (tcp_wire th ?d)) = 0"
    by (rule tun_write_bytes [OF assms(1,3) ab(1,2)])
  have doff: "5 \<le> unat (th_doff th)" "unat (th_doff th) < 16" using w(9) assms(3) by (auto simp: tcp_fits_def)
  obtain ip_dgram payload seg' where r:
    "TunFdAdapter_read rs b (ip_wire ih @ tcp_wire th ?d) = unwrap_tcp_in_ip rs b ip_dgram"
    "dg_header ip_dgram = ih" "BufferList_to_Buffer (dg_payload ip_dgram) = Inr payload"
    "TCPSegment_parse TCPSegment_default payload (IPv4Header_pseudo_cksum ih) = Inr (seg', NoError)"
    "seg_header seg' = th" "Buffer_str (seg_payload seg') = ?d"
    by (rule tun_read_bytes [OF w(3,4,7,8) doff w(10), of rs b])
  have th: "th_sport th = port" "th_dport th = port'" using w(9) by auto
  have "unwrap_tcp_in_ip rs b ip_dgram = Inr (b, Some seg')"
    using r(2-5) w(5-7) th ab assms(1)
    by (simp add: unwrap_tcp_in_ip_def FdAdapterBase_listening_def Address_port_numeric tcp_from_peer_def Let_def)
  moreover have "same_segment seg seg'" using r(5,6) w(9) by (auto simp: same_segment_def)
  ultimately show ?thesis using w(1,2) r(1) by auto
qed

text \<open>The same with a listener, which learns both addresses from the SYN.\<close>

lemma tun_accepts:
  assumes "numeric_resolver rs" and "tcp_fits seg" and "fa_listen b"
    and "fc_source (fa_cfg a) = ipv4_address ip port" and "fc_destination (fa_cfg a) = ipv4_address ip' port'"
    and "fc_source (fa_cfg b) = ipv4_address any port'" and "th_syn (seg_header seg)" and "\<not> th_rst (seg_header seg)"
  obtains bl seg' b' where "TunFdAdapter_write rs a seg = Inr bl"
    "TunFdAdapter_read rs b (BufferList_concatenate bl) = Inr (b', Some seg')" "same_segment seg seg'" "ip_peers a b'"
proof -
  let ?d = "Buffer_str (seg_payload seg)"
  obtain bl ih th where w: "TunFdAdapter_write rs a seg = Inr bl" "BufferList_concatenate bl = ip_wire ih @ tcp_wire th ?d"
    "ip_fits ih" "ih_hlen ih = 5" "ih_src ih = ip" "ih_dst ih = ip'" "ih_proto ih = IPv4Header_PROTO_TCP"
    "unat (ih_len ih) = 20 + length (tcp_wire th ?d)"
    "\<exists>v. th = (seg_header seg)\<lparr>th_sport := port, th_dport := port', th_cksum := v\<rparr>"
    "InternetChecksum_value (InternetChecksum_add (InternetChecksum_new (IPv4Header_pseudo_cksum ih)) (tcp_wire th ?d)) = 0"
    by (rule tun_write_bytes [OF assms(1,2,4,5)])
  have doff: "5 \<le> unat (th_doff th)" "unat (th_doff th) < 16" using w(9) assms(2) by (auto simp: tcp_fits_def)
  obtain ip_dgram payload seg' where r:
    "TunFdAdapter_read rs b (ip_wire ih @ tcp_wire th ?d) = unwrap_tcp_in_ip rs b ip_dgram"
    "dg_header ip_dgram = ih" "BufferList_to_Buffer (dg_payload ip_dgram) = Inr payload"
    "TCPSegment_parse TCPSegment_default payload (IPv4Header_pseudo_cksum ih) = Inr (seg', NoError)"
    "seg_header seg' = th" "Buffer_str (seg_payload seg') = ?d"
    by (rule tun_read_bytes [OF w(3,4,7,8) doff w(10), of rs b])
  let ?b = "b\<lparr>fa_cfg := (fa_cfg b)\<lparr>fc_source := ipv4_address ip' port', fc_destination := ipv4_address ip port\<rparr>, fa_listen := False\<rparr>"
  have th: "th_sport th = port" "th_dport th = port'" "th_syn th" "\<not> th_rst th" using w(9) assms(7,8) by auto
  have "unwrap_tcp_in_ip rs b ip_dgram = Inr (?b, Some seg')"
    using r(2-5) w(5-7) th assms(1,3,6)
    by (simp add: unwrap_tcp_in_ip_def FdAdapterBase_listening_def FdAdapterBase_set_listening_def Address_port_numeric
        Address_of_ip_numeric tcp_from_peer_def Let_def)
  moreover have "same_segment seg seg'" using r(5,6) w(9) by (auto simp: same_segment_def)
  moreover have "ip_peers a ?b" using assms(4,5) by (auto simp: ip_peers_def)
  ultimately show ?thesis using w(1,2) r(1) by (intro that [of bl ?b seg']) auto
qed

section \<open>The link over UDP\<close>

text \<open>The datagram as the peer receives it, from the address \<open>src\<close> of the sending socket.\<close>

definition udp_deliver :: "Address \<Rightarrow> Address \<times> BufferList \<Rightarrow> received_datagram" where
  "udp_deliver src w = \<lparr>rd_source_address = src, rd_payload = BufferList_concatenate (snd w)\<rparr>"

definition udp_peers :: "Address \<Rightarrow> FdAdapterBase \<Rightarrow> FdAdapterBase \<Rightarrow> bool" where
  "udp_peers src a b \<longleftrightarrow> (\<exists>ip port ip' port'.
     fc_source (fa_cfg a) = ipv4_address ip port \<and> fc_destination (fa_cfg a) = ipv4_address ip' port') \<and>
     Address_eq src (fc_destination (fa_cfg b)) \<and> \<not> fa_listen b"

lemma udp_carries:
  assumes "numeric_resolver rs" and "udp_peers src a b" and "tcp_fits seg"
  shows "\<exists>w seg'. UDPSocketAdapter_write rs a seg = Inr w \<and>
    UDPSocketAdapter_read b (udp_deliver src w) = Inr (b, Some seg') \<and> same_segment seg seg'"
proof -
  obtain ip port ip' port' where ab: "fc_source (fa_cfg a) = ipv4_address ip port"
    "fc_destination (fa_cfg a) = ipv4_address ip' port'" "Address_eq src (fc_destination (fa_cfg b))" "\<not> fa_listen b"
    using assms(2) by (auto simp: udp_peers_def)
  let ?seg = "seg\<lparr>seg_header := (seg_header seg)\<lparr>th_sport := port, th_dport := port'\<rparr>\<rparr>" and ?d = "Buffer_str (seg_payload seg)"
  have fits: "tcp_fits ?seg" using assms(3) by (simp add: tcp_fits_def)
  obtain v bl where bl: "TCPSegment_serialize ?seg 0 = Inr bl"
    "BufferList_concatenate bl = tcp_wire ((seg_header ?seg)\<lparr>th_cksum := v\<rparr>) (Buffer_str (seg_payload ?seg))"
    "InternetChecksum_value (InternetChecksum_add (InternetChecksum_new 0) (BufferList_concatenate bl)) = 0"
    by (rule tcp_serialize_wire [OF fits, of 0]) simp_all
  let ?h = "(seg_header seg)\<lparr>th_sport := port, th_dport := port', th_cksum := v\<rparr>"
  have c: "BufferList_concatenate bl = tcp_wire ?h ?d" using bl(2) by simp
  have h: "5 \<le> unat (th_doff ?h)" "unat (th_doff ?h) < 16" "length (tcp_wire ?h ?d) < 65536"
    using assms(3) by (simp_all add: tcp_fits_def length_tcp_wire)
  then have inv: "Buffer_inv (Buffer_of (tcp_wire ?h ?d))" by simp
  obtain pl where pl: "TCPSegment_parse TCPSegment_default (Buffer_of (tcp_wire ?h ?d)) 0 =
      Inr (TCPSegment_default\<lparr>seg_header := ?h, seg_payload := pl\<rparr>, NoError)" "Buffer_str pl = ?d"
    by (rule tcp_parse_wire [OF bl(3) [unfolded c] h(1,2) inv]) simp_all
  have "UDPSocketAdapter_write rs a seg = Inr (ipv4_address ip' port', bl)"
    using bl(1) ab(1,2) assms(1) by (simp add: UDPSocketAdapter_write_def Address_port_numeric)
  moreover have "UDPSocketAdapter_read b (udp_deliver src (ipv4_address ip' port', bl)) =
      Inr (b, Some (TCPSegment_default\<lparr>seg_header := ?h, seg_payload := pl\<rparr>))"
    using pl(1) ab(3,4) by (simp add: UDPSocketAdapter_read_def udp_deliver_def c FdAdapterBase_listening_def)
  ultimately show ?thesis using pl(2) by (auto simp: same_segment_def)
qed

section \<open>Both adapters satisfy the contract\<close>

interpretation tun: segment_link "\<lambda>b bl. TunFdAdapter_read rs b (BufferList_concatenate bl)" "TunFdAdapter_write rs"
  fa_cfg "\<lambda>a b. numeric_resolver rs \<and> ip_peers a b" tcp_fits for rs
  by unfold_locales (blast intro: tun_carries)

interpretation udp: segment_link "\<lambda>b w. UDPSocketAdapter_read b (udp_deliver src w)" "UDPSocketAdapter_write rs"
  fa_cfg "\<lambda>a b. numeric_resolver rs \<and> udp_peers src a b" tcp_fits for rs src
  by unfold_locales (blast intro: udp_carries)

text \<open>
  C10. The link over a TUN device, with losses on both sides. For two IPv4 adapters
  set up for each other and a segment that fits into a datagram, a write never fails; it may be
  dropped, and otherwise the bytes it puts on the device are read on the other side, if not dropped there,
  as the same segment up to ports and checksum. With both loss rates zero the segment arrives.
\<close>

theorem tun_link_carries:
  assumes "numeric_resolver rs" and "ip_peers (lf_adapter la) (lf_adapter lb)" and "tcp_fits seg"
  shows "\<exists>la' ow. LossyFdAdapter_write rng fa_cfg (TunFdAdapter_write rs) la seg = Inr (la', ow) \<and> lf_adapter la' = lf_adapter la \<and>
    (\<forall>w. ow = Some w \<longrightarrow> (\<exists>lb' oseg.
       LossyFdAdapter_read rng fa_cfg (\<lambda>b bl. TunFdAdapter_read rs b (BufferList_concatenate bl)) lb w = Inr (lb', oseg) \<and>
       lf_adapter lb' = lf_adapter lb \<and> (\<forall>seg'. oseg = Some seg' \<longrightarrow> same_segment seg seg'))) \<and>
    (fc_loss_rate_up (fa_cfg (lf_adapter la)) = 0 \<and> fc_loss_rate_dn (fa_cfg (lf_adapter lb)) = 0 \<longrightarrow>
       (\<exists>w lb' seg'. ow = Some w \<and>
          LossyFdAdapter_read rng fa_cfg (\<lambda>b bl. TunFdAdapter_read rs b (BufferList_concatenate bl)) lb w = Inr (lb', Some seg') \<and>
          same_segment seg seg'))"
  using tun.lossy_carries [of rs la lb seg rng] assms by simp

definition loopback_adapter :: "16 word \<Rightarrow> 16 word \<Rightarrow> FdAdapterBase" where
  "loopback_adapter port port' =
     \<lparr>fa_cfg = \<lparr>fc_source = ipv4_address 0x7f000001 port, fc_destination = ipv4_address 0x7f000001 port',
        fc_loss_rate_dn = 0, fc_loss_rate_up = 0\<rparr>, fa_listen = False\<rparr>"

theorem tun_link_carries_witness:
  "\<exists>w lb' seg'. LossyFdAdapter_write (\<lambda>g. (g, g + 1)) fa_cfg (TunFdAdapter_write quad_resolver)
      \<lparr>lf_rand = 0, lf_adapter = loopback_adapter 80 90\<rparr> TCPSegment_default =
      Inr (\<lparr>lf_rand = 0, lf_adapter = loopback_adapter 80 90\<rparr>, Some w) \<and>
    LossyFdAdapter_read (\<lambda>g. (g, g + 1)) fa_cfg (\<lambda>b bl. TunFdAdapter_read quad_resolver b (BufferList_concatenate bl))
      \<lparr>lf_rand = 0, lf_adapter = loopback_adapter 90 80\<rparr> w = Inr (lb', Some seg') \<and> same_segment TCPSegment_default seg'"
proof -
  let ?la = "\<lparr>lf_rand = 0 :: 32 word, lf_adapter = loopback_adapter 80 90\<rparr>" and ?lb = "\<lparr>lf_rand = 0 :: 32 word, lf_adapter = loopback_adapter 90 80\<rparr>"
  have p: "ip_peers (lf_adapter ?la) (lf_adapter ?lb)" by (auto simp: ip_peers_def loopback_adapter_def)
  have f: "tcp_fits TCPSegment_default"
    by (simp add: tcp_fits_def TCPSegment_default_def TCPHeader_default_def TCPHeader_LENGTH_def)
  have z: "fc_loss_rate_up (fa_cfg (lf_adapter ?la)) = 0" "fc_loss_rate_dn (fa_cfg (lf_adapter ?lb)) = 0"
    by (simp_all add: loopback_adapter_def)
  have nd: "LossyFdAdapter_should_drop (\<lambda>g. (g, g + 1)) fa_cfg True ?la = (False, ?la)"
    using z(1) by (simp add: LossyFdAdapter_should_drop_def)
  show ?thesis
    using tun_link_carries [OF quad_resolver_numeric p f, of "\<lambda>g. (g, g + 1)"] z nd
    by (auto simp: LossyFdAdapter_write_def bindR_def split: sum.splits)
qed

text \<open>
  C11. A listening IPv4 adapter and its first segment. A SYN sent by any host to the port the
  adapter listens on is delivered, and leaves the adapter set up for exactly that peer and no
  longer listening, so that both directions of the link then carry segments.
\<close>

theorem tun_listener_learns_peer:
  assumes "numeric_resolver rs" and "tcp_fits seg" and "fa_listen b" and "\<not> fa_listen a"
    and "fc_source (fa_cfg a) = ipv4_address ip port" and "fc_destination (fa_cfg a) = ipv4_address ip' port'"
    and "fc_source (fa_cfg b) = ipv4_address any port'" and "th_syn (seg_header seg)" and "\<not> th_rst (seg_header seg)"
  shows "\<exists>bl seg' b'. TunFdAdapter_write rs a seg = Inr bl \<and>
    TunFdAdapter_read rs b (BufferList_concatenate bl) = Inr (b', Some seg') \<and> same_segment seg seg' \<and>
    ip_peers a b' \<and> ip_peers b' a"
proof -
  obtain bl seg' b' where "TunFdAdapter_write rs a seg = Inr bl"
    "TunFdAdapter_read rs b (BufferList_concatenate bl) = Inr (b', Some seg')" "same_segment seg seg'" "ip_peers a b'"
    by (rule tun_accepts [OF assms(1,2,3,5-9)])
  moreover from this(4) have "ip_peers b' a" using assms(4) unfolding ip_peers_def by blast
  ultimately show ?thesis by blast
qed

theorem tun_listener_learns_peer_witness:
  "\<exists>bl seg' b'.
    TunFdAdapter_write quad_resolver (loopback_adapter 80 90)
      (TCPSegment_default\<lparr>seg_header := TCPHeader_default\<lparr>th_syn := True\<rparr>\<rparr>) = Inr bl \<and>
    TunFdAdapter_read quad_resolver ((loopback_adapter 90 0)\<lparr>fa_listen := True\<rparr>) (BufferList_concatenate bl) = Inr (b', Some seg') \<and>
    ip_peers b' (loopback_adapter 80 90)"
proof -
  have "tcp_fits (TCPSegment_default\<lparr>seg_header := TCPHeader_default\<lparr>th_syn := True\<rparr>\<rparr>)"
    by (simp add: tcp_fits_def TCPSegment_default_def TCPHeader_default_def TCPHeader_LENGTH_def)
  from tun_listener_learns_peer [OF quad_resolver_numeric this, of "(loopback_adapter 90 0)\<lparr>fa_listen := True\<rparr>" "loopback_adapter 80 90"
      "0x7f000001" 80 "0x7f000001" 90 "0x7f000001"]
  show ?thesis by (force simp: loopback_adapter_def TCPHeader_default_def)
qed

end
