(* ===== verification/Wire_Delivery.thy ===== *)
theory Wire_Delivery
  imports Reliable_Delivery Connection_Invariants Datagram_Adapters
begin

text \<open>
  Two connections over IPv4 datagrams. An endpoint is a \<open>TCPConnection\<close> with its application and the adapter that turns
  segments into datagrams and back; what travels are the bytes of datagrams. The endpoints satisfy the contract
  \<open>stream_endpoint\<close> again, with bytes for segments.
\<close>

section \<open>Datagrams of a stream\<close>

lemma seg_of_same: "seg_of S i seg \<Longrightarrow> same_segment seg seg' \<Longrightarrow> seg_of S i seg'"
  by (auto simp: seg_of_def same_segment_def)

text \<open>The bytes of a datagram that carries a piece of the stream \<open>S\<close> numbered from \<open>i\<close>.\<close>

definition wire_of :: "byte list \<Rightarrow> WrappingInt32 \<Rightarrow> byte list \<Rightarrow> bool" where
  "wire_of S i w \<longleftrightarrow> (\<exists>ih th d. w = ip_wire ih @ tcp_wire th d \<and> ip_fits ih \<and> ih_hlen ih = 5 \<and>
     ih_proto ih = IPv4Header_PROTO_TCP \<and> unat (ih_len ih) = 20 + length (tcp_wire th d) \<and>
     5 \<le> unat (th_doff th) \<and> unat (th_doff th) < 16 \<and>
     InternetChecksum_value (InternetChecksum_add (InternetChecksum_new (IPv4Header_pseudo_cksum ih)) (tcp_wire th d)) = 0 \<and>
     (\<forall>seg. seg_header seg = th \<and> Buffer_str (seg_payload seg) = d \<longrightarrow> seg_of S i seg))"

definition ip_adapter :: "FdAdapterBase \<Rightarrow> bool" where
  "ip_adapter a \<longleftrightarrow> (\<exists>ip port ip' port'. fc_source (fa_cfg a) = ipv4_address ip port \<and> fc_destination (fa_cfg a) = ipv4_address ip' port')"

lemma write_wire_of:
  assumes "numeric_resolver rs" and "ip_adapter a" and "small_segment seg" and "seg_of S i seg"
  shows "\<exists>bl. TunFdAdapter_write rs a seg = Inr bl \<and> wire_of S i (BufferList_concatenate bl)"
proof -
  obtain ip port ip' port' where a: "fc_source (fa_cfg a) = ipv4_address ip port" "fc_destination (fa_cfg a) = ipv4_address ip' port'"
    using assms(2) by (auto simp: ip_adapter_def)
  have f: "tcp_fits seg" using assms(3) by (simp add: tcp_fits_def small_segment_def TCPConfig_MAX_PAYLOAD_SIZE_def)
  let ?d = "Buffer_str (seg_payload seg)"
  obtain bl ih th where w: "TunFdAdapter_write rs a seg = Inr bl" "BufferList_concatenate bl = ip_wire ih @ tcp_wire th ?d"
    "ip_fits ih" "ih_hlen ih = 5" "ih_src ih = ip" "ih_dst ih = ip'" "ih_proto ih = IPv4Header_PROTO_TCP"
    "unat (ih_len ih) = 20 + length (tcp_wire th ?d)"
    "\<exists>v. th = (seg_header seg)\<lparr>th_sport := port, th_dport := port', th_cksum := v\<rparr>"
    "InternetChecksum_value (InternetChecksum_add (InternetChecksum_new (IPv4Header_pseudo_cksum ih)) (tcp_wire th ?d)) = 0"
    by (rule tun_write_bytes [OF assms(1) f a])
  have "5 \<le> unat (th_doff th)" "unat (th_doff th) < 16" using w(9) f by (auto simp: tcp_fits_def)
  moreover have "seg_of S i seg'" if "seg_header seg' = th" "Buffer_str (seg_payload seg') = ?d" for seg'
    by (rule seg_of_same [OF assms(4)]) (use that w(9) in \<open>auto simp: same_segment_def\<close>)
  ultimately show ?thesis unfolding wire_of_def using w(1-4,7,8,10) by blast
qed

lemma unwrap_any:
  assumes "numeric_resolver rs" and "ip_adapter a"
    and "BufferList_to_Buffer (dg_payload ip_dgram) = Inr payload"
    and "TCPSegment_parse TCPSegment_default payload (IPv4Header_pseudo_cksum (dg_header ip_dgram)) = Inr (seg, NoError)"
  shows "\<exists>a' seg'. unwrap_tcp_in_ip rs a ip_dgram = Inr (a', seg') \<and> ip_adapter a' \<and> (seg' = None \<or> seg' = Some seg)"
proof -
  obtain ip port ip' port' where a: "fc_source (fa_cfg a) = ipv4_address ip port" "fc_destination (fa_cfg a) = ipv4_address ip' port'"
    using assms(2) by (auto simp: ip_adapter_def)
  note N = Address_port_numeric [OF assms(1)] Address_of_ip_numeric [OF assms(1)]
  define Q where "Q x \<longleftrightarrow> (\<exists>a' seg'. x = Inr (a', seg') \<and> ip_adapter a' \<and> (seg' = None \<or> seg' = Some seg))" for x :: "(FdAdapterBase \<times> TCPSegment option) res"
  have Q: "Q (Inr (a', s)) \<longleftrightarrow> ip_adapter a' \<and> (s = None \<or> s = Some seg)" for a' s by (auto simp: Q_def)
  have set: "ip_adapter (a\<lparr>fa_cfg := (fa_cfg a)\<lparr>fc_source := ipv4_address x p, fc_destination := ipv4_address y q\<rparr>, fa_listen := b\<rparr>)" for x p y q b
    unfolding ip_adapter_def by simp blast
  have "Q (unwrap_tcp_in_ip rs a ip_dgram)"
    using assms(2-4) a
    by (simp add: unwrap_tcp_in_ip_def tcp_from_peer_def FdAdapterBase_listening_def FdAdapterBase_set_listening_def N Q set Let_def)
  then show ?thesis unfolding Q_def .
qed

lemma read_wire_of:
  assumes "numeric_resolver rs" and "ip_adapter a" and "wire_of S i w"
  shows "\<exists>a' seg. TunFdAdapter_read rs a w = Inr (a', seg) \<and> ip_adapter a' \<and> (\<forall>s. seg = Some s \<longrightarrow> seg_of S i s)"
proof -
  obtain ih th d where w: "w = ip_wire ih @ tcp_wire th d" "ip_fits ih" "ih_hlen ih = 5" "ih_proto ih = IPv4Header_PROTO_TCP"
    "unat (ih_len ih) = 20 + length (tcp_wire th d)" "5 \<le> unat (th_doff th)" "unat (th_doff th) < 16"
    "InternetChecksum_value (InternetChecksum_add (InternetChecksum_new (IPv4Header_pseudo_cksum ih)) (tcp_wire th d)) = 0"
    "\<forall>seg. seg_header seg = th \<and> Buffer_str (seg_payload seg) = d \<longrightarrow> seg_of S i seg"
    using assms(3) unfolding wire_of_def by blast
  obtain ip_dgram payload seg where r:
    "TunFdAdapter_read rs a (ip_wire ih @ tcp_wire th d) = unwrap_tcp_in_ip rs a ip_dgram" "dg_header ip_dgram = ih"
    "BufferList_to_Buffer (dg_payload ip_dgram) = Inr payload"
    "TCPSegment_parse TCPSegment_default payload (IPv4Header_pseudo_cksum ih) = Inr (seg, NoError)"
    "seg_header seg = th" "Buffer_str (seg_payload seg) = d"
    by (rule tun_read_bytes [OF w(2-8)])
  show ?thesis using unwrap_any [OF assms(1,2) r(3), of seg] r w(1,9) by auto
qed

section \<open>The endpoint\<close>

type_synonym wire_endpoint = "endpoint \<times> FdAdapterBase"

definition wire_app :: "byte list \<Rightarrow> ep_op \<Rightarrow> wire_endpoint \<Rightarrow> wire_endpoint" where
  "wire_app S x e = (ep_app S x (fst e), snd e)"

definition wire_rcv :: "resolver \<Rightarrow> wire_endpoint \<Rightarrow> byte list \<Rightarrow> wire_endpoint res" where
  "wire_rcv rs e w =
     bindR (TunFdAdapter_read rs (snd e) w) (\<lambda>(a, seg).
       case seg of None \<Rightarrow> Inr (fst e, a) | Some seg \<Rightarrow> bindR (ep_rcv (fst e) seg) (\<lambda>e. Inr (e, a)))"

definition wire_out :: "resolver \<Rightarrow> wire_endpoint \<Rightarrow> byte list list" where
  "wire_out rs e = concat (map (\<lambda>seg. case TunFdAdapter_write rs (snd e) seg of Inl _ \<Rightarrow> [] | Inr bl \<Rightarrow> [BufferList_concatenate bl])
     (ep_out (fst e)))"

definition wire_inv :: "resolver \<Rightarrow> byte list \<Rightarrow> byte list \<Rightarrow> WrappingInt32 \<Rightarrow> WrappingInt32 \<Rightarrow> wire_endpoint \<Rightarrow> bool" where
  "wire_inv rs S R i j e \<longleftrightarrow> numeric_resolver rs \<and> ip_adapter (snd e) \<and> sends_small (fst (fst e)) \<and> EP_of S R i j (fst e)"

lemma ep_app_small: "sends_small (fst e) \<Longrightarrow> sends_small (fst (ep_app S x e))"
  by (cases "(S, x, e)" rule: ep_app.cases)
    (auto simp: small.connect_keeps sends_small_write sends_small_end small.tick_keeps small.receiver Let_def case_prod_beta sends_small_take)

interpretation wire: stream_endpoint "wire_inv rs" wire_app "wire_rcv rs" "wire_out rs" "snd \<circ> fst" "ep_fin \<circ> fst" 4294967294 wire_of for rs
proof unfold_locales
  fix S R i j and e :: wire_endpoint and x
  assume "wire_inv rs S R i j e" "length S < 4294967294" "length R < 4294967294"
  then show "wire_inv rs S R i j (wire_app S x e)" using tcp.app_keeps ep_app_small by (simp add: wire_inv_def wire_app_def)
next
  fix S R i j and e :: wire_endpoint and w
  assume e: "wire_inv rs S R i j e" "length S < 4294967294" "length R < 4294967294" "wire_of R j w"
  then obtain a seg where r: "TunFdAdapter_read rs (snd e) w = Inr (a, seg)" "ip_adapter a" "\<forall>s. seg = Some s \<longrightarrow> seg_of R j s"
    using read_wire_of [of rs "snd e" R j w] by (auto simp: wire_inv_def)
  show "\<exists>e'. wire_rcv rs e w = Inr e' \<and> wire_inv rs S R i j e'"
  proof (cases seg)
    case None
    then show ?thesis using r e(1) by (simp add: wire_rcv_def wire_inv_def)
  next
    case (Some s)
    then obtain e' where "ep_rcv (fst e) s = Inr e'" "EP_of S R i j e'"
      using tcp.rcv_keeps [of S R i j "fst e" s] r(3) e by (auto simp: wire_inv_def)
    moreover from this(1) have "sends_small (fst e')"
      using small.segment_received_keeps [of "fst (fst e)" s] e(1) by (auto simp: ep_rcv_def wire_inv_def)
    ultimately show ?thesis using r e(1) Some by (simp add: wire_rcv_def wire_inv_def)
  qed
next
  fix S R i j and e :: wire_endpoint and w
  assume e: "wire_inv rs S R i j e" "w \<in> set (wire_out rs e)"
  then obtain seg bl where s: "seg \<in> set (ep_out (fst e))" "TunFdAdapter_write rs (snd e) seg = Inr bl" "w = BufferList_concatenate bl"
    by (auto simp: wire_out_def split: sum.splits) (metis)
  have "small_segment seg" "seg_of S i seg"
    using s(1) e(1) tcp.emits [of S R i j "fst e" seg] by (auto simp: wire_inv_def sends_small_def ep_out_def)
  then show "wire_of S i w" using write_wire_of [of rs "snd e" seg S i] e(1) s(2,3) by (auto simp: wire_inv_def)
next
  fix S R i j and e :: wire_endpoint
  assume e: "wire_inv rs S R i j e"
  then show "(snd \<circ> fst) e = take (length ((snd \<circ> fst) e)) R" using tcp.delivers [of S R i j "fst e"] by (simp add: wire_inv_def)
  assume "length R < 4294967294" "(ep_fin \<circ> fst) e"
  then show "(snd \<circ> fst) e = R" using tcp.finishes [of S R i j "fst e"] e by (simp add: wire_inv_def)
qed

section \<open>Reliable delivery over datagrams\<close>

text \<open>
  C2. Reliable delivery, byte for byte on the wire. Two connections whose segments are serialized into IPv4 datagrams,
  carried by a network that loses, duplicates, delays and reorders them, and parsed on the other side: what
  each application has read is a prefix of what the other one has written, and all of it when its inbound stream has
  ended; every segment a connection wants to send can be written; and no datagram
  on the wire makes its receiver throw. A side may be listening for its peer.
\<close>

theorem wire_delivery:
  assumes "net_reach wire_app (wire_rcv rs) (wire_out rs) A B
      ((TCPConnection_new cfga ra, []), fa) ((TCPConnection_new cfgb rb, []), fb) ((a, gota), fa') ((b, gotb), fb') ab ba"
    and "numeric_resolver rs" and "ip_adapter fa" and "ip_adapter fb"
    and "length A < 4294967294" and "length B < 4294967294"
    and "cfg_recv_capacity cfga < 2147483648" and "cfg_send_capacity cfga < SIZE_MOD"
    and "cfg_recv_capacity cfgb < 2147483648" and "cfg_send_capacity cfgb < SIZE_MOD"
  shows "(\<exists>rest. B = gota @ rest) \<and> (\<exists>rest. A = gotb @ rest) \<and>
    (ByteStream_eof (TCPConnection_inbound_stream a) \<longrightarrow> gota = B) \<and>
    (ByteStream_eof (TCPConnection_inbound_stream b) \<longrightarrow> gotb = A) \<and>
    (\<forall>seg \<in> set (cn_segments_out a). \<exists>bl. TunFdAdapter_write rs fa' seg = Inr bl) \<and>
    (\<forall>w \<in> set ba. \<exists>e. wire_rcv rs ((a, gota), fa') w = Inr e) \<and>
    (\<forall>w \<in> set ab. \<exists>e. wire_rcv rs ((b, gotb), fb') w = Inr e)"
proof -
  let ?i = "sn_isn (cn_sender (TCPConnection_new cfga ra))" and ?j = "sn_isn (cn_sender (TCPConnection_new cfgb rb))"
  have "wire_inv rs A B ?i ?j ((TCPConnection_new cfga ra, []), fa)" "wire_inv rs B A ?j ?i ((TCPConnection_new cfgb rb, []), fb)"
    using EP_of_new [OF assms(7,8)] EP_of_new [OF assms(9,10)] assms(2-4) by (simp_all add: wire_inv_def sends_small_new)
  note d = wire.network_delivery [OF assms(1) this assms(5,6)] and I = wire.network_invariant [OF assms(1) this assms(5,6)]
  have "\<exists>rest. B = gota @ rest" "\<exists>rest. A = gotb @ rest" using d(1,2) by (simp_all, metis append_take_drop_id)+
  moreover have "\<exists>bl. TunFdAdapter_write rs fa' seg = Inr bl" if "seg \<in> set (cn_segments_out a)" for seg
  proof -
    have "wire_inv rs A B ?i ?j ((a, gota), fa')" using I by blast
    then show ?thesis
      using write_wire_of [of rs fa' seg A ?i] tcp.emits [of A B ?i ?j "(a, gota)" seg] that
      by (auto simp: wire_inv_def sends_small_def ep_out_def)
  qed
  ultimately show ?thesis using d(3-6) by (simp add: ep_fin_def)
qed

text \<open>A SYN that has travelled as a datagram to a listening host, which has answered it.\<close>

theorem wire_delivery_witness:
  "\<exists>a b ab ba. net_reach wire_app (wire_rcv quad_resolver) (wire_out quad_resolver) [7] []
      ((TCPConnection_new TCPConfig_default 5, []), loopback_adapter 80 90)
      ((TCPConnection_new TCPConfig_default 9, []), (loopback_adapter 90 0)\<lparr>fa_listen := True\<rparr>) a b ab ba \<and>
    ab \<noteq> [] \<and> ep_out (fst b) \<noteq> [] \<and> \<not> fa_listen (snd b) \<and> (\<exists>rest. [7] = snd (fst b) @ rest)"
proof -
  let ?a = "TCPConnection_new TCPConfig_default 5" and ?b = "TCPConnection_new TCPConfig_default 9"
    and ?fa = "loopback_adapter 80 90" and ?fb = "(loopback_adapter 90 0)\<lparr>fa_listen := True\<rparr>"
  let ?c = "TCPConnection_connect ?a"
  let ?reach = "net_reach wire_app (wire_rcv quad_resolver) (wire_out quad_resolver) [7] [] ((?a, []), ?fa) ((?b, []), ?fb)"
  have cap: "cfg_recv_capacity TCPConfig_default < 2147483648" "cfg_send_capacity TCPConfig_default < SIZE_MOD"
    "cfg_recv_capacity TCPConfig_default < ULLONG_MAX" by (simp_all add: TCPConfig_default_def TCPConfig_DEFAULT_CAPACITY_def)
  have ip: "ip_adapter ?fa" "ip_adapter ?fb" unfolding ip_adapter_def loopback_adapter_def by simp_all blast+
  obtain syn where syn: "cn_segments_out ?c = [syn]" "sent_syn (cn_sender ?c) syn"
    "th_seqno (seg_header syn) = sn_isn (cn_sender ?a)" "\<not> th_ack (seg_header syn)" "\<not> th_rst (seg_header syn)"
    by (rule connect_new [OF refl])
  have s: "th_syn (seg_header syn)" "\<not> th_fin (seg_header syn)" "Buffer_str (seg_payload syn) = []"
    using syn(2) by (simp_all add: sent_syn_def)
  have "sends_small ?c" by (rule small.connect_keeps [OF sends_small_new])
  then have f: "tcp_fits syn" using syn(1) by (simp add: sends_small_def small_segment_def tcp_fits_def TCPConfig_MAX_PAYLOAD_SIZE_def)
  obtain bl seg fb' where w: "TunFdAdapter_write quad_resolver ?fa syn = Inr bl"
    "TunFdAdapter_read quad_resolver ?fb (BufferList_concatenate bl) = Inr (fb', Some seg)" "same_segment syn seg" "ip_peers ?fa fb'"
    by (rule tun_accepts [OF quad_resolver_numeric f, of ?fb ?fa "0x7f000001" 80 "0x7f000001" 90 "0x7f000001"])
      (use s syn in \<open>simp_all add: loopback_adapter_def\<close>)
  have seg: "th_syn (seg_header seg)" "\<not> th_fin (seg_header seg)" "\<not> th_rst (seg_header seg)" "Buffer_str (seg_payload seg) = []"
    using w(3) s syn(5) by (auto simp: same_segment_def)
  obtain b synack where b: "TCPConnection_segment_received ?b seg = Inr b" "cn_segments_out b = [synack]"
    by (rule listen_syn [OF refl cap(3) seg])
  have "?reach ((?c, []), ?fa) ((?b, []), ?fb) [] []"
    using net_reach.local_a [OF net_reach.start, of wire_app "wire_rcv quad_resolver" "wire_out quad_resolver" "[7]" "[]"
        "((?a, []), ?fa)" "((?b, []), ?fb)" Ep_connect] by (simp add: wire_app_def)
  from net_reach.emit_a [OF this, of "BufferList_concatenate bl"]
  have "?reach ((?c, []), ?fa) ((?b, []), ?fb) [BufferList_concatenate bl] []" using syn(1) w(1) by (simp add: wire_out_def ep_out_def)
  from net_reach.arrive_b [OF this, of "BufferList_concatenate bl" "((b, []), fb')"]
  have r: "?reach ((?c, []), ?fa) ((b, []), fb') [BufferList_concatenate bl] []" using w(2) b(1) by (simp add: wire_rcv_def ep_rcv_def)
  have "\<exists>rest. [7 :: byte] = [] @ rest"
    using wire_delivery [OF r quad_resolver_numeric ip _ _ cap(1,2) cap(1,2)] by simp
  then show ?thesis using r b(2) w(4)
    by (intro exI [of _ "((?c, []), ?fa)"] exI [of _ "((b, []), fb')"] exI [of _ "[BufferList_concatenate bl]"] exI [of _ "[]"])
      (auto simp: ep_out_def ip_peers_def)
qed

end
