(* ===== verification/File_Descriptor.thy ===== *)
theory File_Descriptor
  imports Net_Address
begin

text \<open>
  \<open>SystemCall\<close> (\<open>util.cc\<close>) and \<open>FileDescriptor\<close> (\<open>file_descriptor.hh\<close>, \<open>file_descriptor.cc\<close>). The kernel is an argument
  \<open>K\<close> of every operation: it answers a system call with a return value, an \<open>errno\<close> and what the call
  writes to memory. A \<open>FileDescriptor\<close> is the address of a shared \<open>FDWrapper\<close> in the store
  \<open>wd_heap\<close>, so that all duplicates of a descriptor see the same flags and counters.
\<close>

unbundle bit_operations_syntax

section \<open>System calls\<close>

datatype sys_call =
    Sys_close int
  | Sys_read int size_t
  | Sys_writev int "byte list list"
  | Sys_getfl int
  | Sys_setfl int int
  | Sys_shutdown int int
  | Sys_poll "(int \<times> 16 word) list" int
  | Sys_recvfrom int size_t
  | Sys_sendmsg int "(byte list \<times> size_t) option" "byte list list"
  | Sys_socket int int
  | Sys_getsockopt int int int
  | Sys_setsockopt int int int int
  | Sys_getsockname int
  | Sys_getpeername int
  | Sys_bind int "byte list" size_t
  | Sys_connect int "byte list" size_t
  | Sys_listen int int
  | Sys_accept int
  | Sys_open string int
  | Sys_tunsetiff int "16 word" string
  | Sys_socketpair int
  | Sys_clock

record sys_result =
  sr_ret :: "32 word"
  sr_errno :: int
  sr_data :: "byte list"
  sr_addr :: "byte list"
  sr_len :: size_t
  sr_value :: int
  sr_fds :: "int \<times> int"
  sr_revents :: "16 word list"
  sr_time :: nat

type_synonym 'k kernel = "sys_call \<Rightarrow> 'k \<Rightarrow> sys_result \<times> 'k"

text \<open>The return value of the call is read as a signed \<open>int\<close>.\<close>

definition SystemCall :: "string \<Rightarrow> sys_result \<Rightarrow> int \<Rightarrow> int res" where
  "SystemCall attempt r errno_mask =
     (if sint (sr_ret r) \<ge> 0 \<or> sr_errno r = errno_mask then Inr (sint (sr_ret r))
      else Inl (tagged_error ''system_category'' attempt (sr_errno r)))"

section \<open>FileDescriptor\<close>

record FDWrapper =
  fw_fd :: int
  fw_eof :: bool
  fw_closed :: bool
  fw_read_count :: "32 word"
  fw_write_count :: "32 word"

type_synonym FileDescriptor = nat

record 'k world =
  wd_kernel :: 'k
  wd_heap :: "nat \<Rightarrow> FDWrapper"
  wd_next :: nat

definition syscall :: "'k kernel \<Rightarrow> sys_call \<Rightarrow> ('k, 'z) world_scheme \<Rightarrow> sys_result \<times> ('k, 'z) world_scheme" where
  "syscall K c w = (let (r, k) = K c (wd_kernel w) in (r, w\<lparr>wd_kernel := k\<rparr>))"

definition fd_update :: "FileDescriptor \<Rightarrow> (FDWrapper \<Rightarrow> FDWrapper) \<Rightarrow> ('k, 'z) world_scheme \<Rightarrow> ('k, 'z) world_scheme" where
  "fd_update fd f w = w\<lparr>wd_heap := (wd_heap w)(fd := f (wd_heap w fd))\<rparr>"

definition fd_num :: "('k, 'z) world_scheme \<Rightarrow> FileDescriptor \<Rightarrow> int" where
  "fd_num w fd = fw_fd (wd_heap w fd)"

definition fd_eof :: "('k, 'z) world_scheme \<Rightarrow> FileDescriptor \<Rightarrow> bool" where
  "fd_eof w fd = fw_eof (wd_heap w fd)"

definition fd_closed :: "('k, 'z) world_scheme \<Rightarrow> FileDescriptor \<Rightarrow> bool" where
  "fd_closed w fd = fw_closed (wd_heap w fd)"

definition fd_read_count :: "('k, 'z) world_scheme \<Rightarrow> FileDescriptor \<Rightarrow> 32 word" where
  "fd_read_count w fd = fw_read_count (wd_heap w fd)"

definition fd_write_count :: "('k, 'z) world_scheme \<Rightarrow> FileDescriptor \<Rightarrow> 32 word" where
  "fd_write_count w fd = fw_write_count (wd_heap w fd)"

definition register_read :: "FileDescriptor \<Rightarrow> ('k, 'z) world_scheme \<Rightarrow> ('k, 'z) world_scheme" where
  "register_read fd w = fd_update fd (\<lambda>f. f\<lparr>fw_read_count := fw_read_count f + 1\<rparr>) w"

definition register_write :: "FileDescriptor \<Rightarrow> ('k, 'z) world_scheme \<Rightarrow> ('k, 'z) world_scheme" where
  "register_write fd w = fd_update fd (\<lambda>f. f\<lparr>fw_write_count := fw_write_count f + 1\<rparr>) w"

definition FDWrapper_new :: "int \<Rightarrow> FDWrapper res" where
  "FDWrapper_new fd =
     (if fd < 0 then Inl (runtime_error (''invalid fd number:-'' @ dec_string (nat (- fd))))
      else Inr \<lparr>fw_fd = fd, fw_eof = False, fw_closed = False, fw_read_count = 0, fw_write_count = 0\<rparr>)"

definition FileDescriptor_new :: "int \<Rightarrow> ('k, 'z) world_scheme \<Rightarrow> (FileDescriptor \<times> ('k, 'z) world_scheme) res" where
  "FileDescriptor_new fd w =
     bindR (FDWrapper_new fd) (\<lambda>f.
       Inr (wd_next w, w\<lparr>wd_heap := (wd_heap w)(wd_next w := f), wd_next := wd_next w + 1\<rparr>))"

definition FileDescriptor_duplicate :: "FileDescriptor \<Rightarrow> FileDescriptor" where
  "FileDescriptor_duplicate fd = fd"

definition FDWrapper_close :: "'k kernel \<Rightarrow> FileDescriptor \<Rightarrow> ('k, 'z) world_scheme \<Rightarrow> ('k, 'z) world_scheme res" where
  "FDWrapper_close K fd w =
     (let (r, w) = syscall K (Sys_close (fd_num w fd)) w
      in bindR (SystemCall ''close'' r 0) (\<lambda>_. Inr (fd_update fd (\<lambda>f. f\<lparr>fw_closed := True, fw_eof := True\<rparr>) w)))"

text \<open>The destructor of the last reference; it swallows an error of \<open>close\<close>.\<close>

definition FDWrapper_destroy :: "'k kernel \<Rightarrow> FileDescriptor \<Rightarrow> ('k, 'z) world_scheme \<Rightarrow> ('k, 'z) world_scheme" where
  "FDWrapper_destroy K fd w =
     (if fd_closed w fd then w
      else case FDWrapper_close K fd w of
          Inl e \<Rightarrow> snd (syscall K (Sys_close (fd_num w fd)) w)
        | Inr w \<Rightarrow> w)"

abbreviation BUFFER_SIZE :: size_t where
  "BUFFER_SIZE \<equiv> 1048576"

definition FileDescriptor_read ::
  "'k kernel \<Rightarrow> FileDescriptor \<Rightarrow> size_t \<Rightarrow> ('k, 'z) world_scheme \<Rightarrow> (byte list \<times> ('k, 'z) world_scheme) res" where
  "FileDescriptor_read K fd limit w =
     (let size_to_read = min BUFFER_SIZE limit;
          (r, w) = syscall K (Sys_read (fd_num w fd) size_to_read) w;
          str = resize (sr_data r) size_to_read
      in bindR (SystemCall ''read'' r 0) (\<lambda>bytes_read.
         let w = (if limit > 0 \<and> bytes_read = 0 then fd_update fd (\<lambda>f. f\<lparr>fw_eof := True\<rparr>) w else w)
         in if bytes_read > int size_to_read then Inl (runtime_error ''read() read more than requested'')
            else if bytes_read < 0 then Inl (length_error ''basic_string::resize'')
            else Inr (resize str (nat bytes_read), register_read fd w)))"

text \<open>The conversions between \<open>size_t\<close> and \<open>ssize_t\<close>.\<close>

definition to_ssize :: "size_t \<Rightarrow> int" where
  "to_ssize n = (if n < 2 ^ 63 then int n else int n - 2 ^ 64)"

definition to_size :: "int \<Rightarrow> size_t" where
  "to_size i = nat (i mod 2 ^ 64)"

lemma remove_prefix_shorter:
  assumes "BufferViewList_remove_prefix buffer n = Inr rest"
  shows "concat rest = drop n (concat buffer)" "n \<le> length (concat buffer)"
proof -
  show "n \<le> length (concat buffer)"
    using assms BufferViewList_remove_prefix_throws [of buffer n] by (metis Inl_Inr_False not_le_imp_less)
  then show "concat rest = drop n (concat buffer)" using assms BufferViewList_remove_prefix_ok by fastforce
qed

lemma to_size_nz: "sint (r :: 32 word) \<noteq> 0 \<Longrightarrow> to_size (sint r) \<noteq> 0"
proof -
  assume nz: "sint r \<noteq> 0"
  have b: "- (2 ^ 31) \<le> sint r" "sint r < 2 ^ 31" using sint_greater_eq [of r] sint_less [of r] by simp_all
  have "sint r mod 2 ^ 64 = (if sint r < 0 then sint r + 2 ^ 64 else sint r)"
  proof (cases "sint r < 0")
    case True
    have "(sint r + 2 ^ 64) mod 2 ^ 64 = sint r + 2 ^ 64" using b True by (intro mod_pos_pos_trivial) simp_all
    then show ?thesis using True by (simp only: mod_add_self2 if_True)
  next
    case False
    then show ?thesis using b by (simp add: mod_pos_pos_trivial)
  qed
  then show ?thesis using nz b by (auto simp: to_size_def)
qed

function FileDescriptor_write_loop ::
  "'k kernel \<Rightarrow> FileDescriptor \<Rightarrow> bool \<Rightarrow> BufferViewList \<Rightarrow> size_t \<Rightarrow> ('k, 'z) world_scheme \<Rightarrow>
   (size_t \<times> ('k, 'z) world_scheme) res" where
  "FileDescriptor_write_loop K fd write_all buffer n0 w =
     (let (r, w1) = syscall K (Sys_writev (fd_num w fd) (BufferViewList_as_iovecs buffer)) w
      in bindR (SystemCall ''writev'' r 0) (\<lambda>bytes_written.
         if bytes_written = 0 \<and> BufferViewList_size buffer \<noteq> 0
         then Inl (runtime_error ''write returned 0 given non-empty input buffer'')
         else if bytes_written > to_ssize (BufferViewList_size buffer)
         then Inl (runtime_error ''write wrote more than length of input buffer'')
         else bindR (BufferViewList_remove_prefix buffer (to_size bytes_written)) (\<lambda>rest.
           if write_all \<and> BufferViewList_size rest \<noteq> 0
           then FileDescriptor_write_loop K fd write_all rest (add64 n0 (to_size bytes_written)) (register_write fd w1)
           else Inr (add64 n0 (to_size bytes_written), register_write fd w1))))"
  by pat_completeness auto
termination
proof (relation "measure (\<lambda>(K, fd, write_all, buffer, n0, w). length (concat buffer))", goal_cases)
  case (2 K fd write_all buffer n0 w p r w1 n rest)
  then have n: "n = sint (sr_ret r)" and nz: "n = 0 \<longrightarrow> BufferViewList_size buffer = 0"
    by (auto simp: SystemCall_def split: if_splits)
  have rest: "concat rest = drop (to_size n) (concat buffer)" using 2 remove_prefix_shorter by blast
  have "n \<noteq> 0"
  proof
    assume "n = 0"
    then have "concat rest = concat buffer" "BufferViewList_size buffer = 0" using rest nz by (simp_all add: to_size_def)
    then show False using 2 by (simp add: BufferViewList_size_eq)
  qed
  then have "to_size n \<noteq> 0" using to_size_nz n by simp
  moreover have "concat rest \<noteq> []"
  proof
    assume "concat rest = []"
    then have "BufferViewList_size rest = 0" by (simp only: BufferViewList_size_eq list.size mod_0)
    then show False using 2 by blast
  qed
  ultimately show ?case using rest by auto
qed simp

declare FileDescriptor_write_loop.simps [simp del]

definition FileDescriptor_write ::
  "'k kernel \<Rightarrow> FileDescriptor \<Rightarrow> BufferViewList \<Rightarrow> bool \<Rightarrow> ('k, 'z) world_scheme \<Rightarrow> (size_t \<times> ('k, 'z) world_scheme) res" where
  "FileDescriptor_write K fd buffer write_all w = FileDescriptor_write_loop K fd write_all buffer 0 w"

abbreviation O_NONBLOCK :: int where "O_NONBLOCK \<equiv> 2048"

definition FileDescriptor_set_blocking ::
  "'k kernel \<Rightarrow> FileDescriptor \<Rightarrow> bool \<Rightarrow> ('k, 'z) world_scheme \<Rightarrow> ('k, 'z) world_scheme res" where
  "FileDescriptor_set_blocking K fd blocking_state w =
     (let (r, w) = syscall K (Sys_getfl (fd_num w fd)) w
      in bindR (SystemCall ''fcntl'' r 0) (\<lambda>flags.
         let flags = (if blocking_state then flags XOR (flags AND O_NONBLOCK) else flags OR O_NONBLOCK);
             (r, w) = syscall K (Sys_setfl (fd_num w fd) flags) w
         in bindR (SystemCall ''fcntl'' r 0) (\<lambda>_. Inr w)))"

section \<open>What an operation touches\<close>

text \<open>
  An operation on a descriptor changes the kernel and the descriptor's own wrapper, whose number stays; in
  particular it leaves alone what a client keeps beside them.
\<close>

definition touches :: "FileDescriptor \<Rightarrow> ('k, 'z) world_scheme \<Rightarrow> ('k, 'z) world_scheme \<Rightarrow> bool" where
  "touches fd w w' \<longleftrightarrow>
     (\<exists>k f. w' = w\<lparr>wd_kernel := k, wd_heap := (wd_heap w)(fd := f)\<rparr> \<and> fw_fd f = fw_fd (wd_heap w fd))"

lemma touches_trans: "touches fd w w' \<Longrightarrow> touches fd w' w'' \<Longrightarrow> touches fd w w''"
  by (auto simp: touches_def) blast

lemma touches_kernel: "touches fd w (w\<lparr>wd_kernel := k\<rparr>)"
  unfolding touches_def by (rule exI [of _ k], rule exI [of _ "wd_heap w fd"]) simp

lemma touches_fields [simp]:
  assumes "touches fd w w'"
  shows "wd_next w' = wd_next w" "fd_num w' fd' = fd_num w fd'" "world.more w' = world.more w"
    "fd' \<noteq> fd \<Longrightarrow> wd_heap w' fd' = wd_heap w fd'"
  using assms by (auto simp: touches_def fd_num_def)

lemma syscall_touches: "syscall K c w = (r, w') \<Longrightarrow> touches fd w w'"
  by (auto simp: syscall_def touches_kernel split: prod.splits)

lemma syscall_heap [simp]: "syscall K c w = (r, w') \<Longrightarrow> wd_heap w' = wd_heap w"
  by (auto simp: syscall_def split: prod.splits)

lemma fd_update_touches: "fw_fd (f (wd_heap w fd)) = fw_fd (wd_heap w fd) \<Longrightarrow> touches fd w (fd_update fd f w)"
  unfolding touches_def fd_update_def by (rule exI [of _ "wd_kernel w"], rule exI [of _ "f (wd_heap w fd)"]) simp

lemma register_touches: "touches fd w (register_read fd w)" "touches fd w (register_write fd w)"
  by (simp_all add: register_read_def register_write_def fd_update_touches)

lemma FileDescriptor_read_effect:
  assumes "FileDescriptor_read K fd limit w = Inr (str, w')"
  obtains r k where "K (Sys_read (fd_num w fd) (min BUFFER_SIZE limit)) (wd_kernel w) = (r, k)"
    "SystemCall ''read'' r 0 = Inr (int (length str))" "length str \<le> min BUFFER_SIZE limit"
    "str = resize (resize (sr_data r) (min BUFFER_SIZE limit)) (length str)" "wd_kernel w' = k" "touches fd w w'"
    "fd_eof w' fd \<longleftrightarrow> fd_eof w fd \<or> (limit > 0 \<and> str = [])" "fd_closed w' fd = fd_closed w fd"
    "fd_read_count w' fd = fd_read_count w fd + 1"
    "fd_write_count w' fd = fd_write_count w fd"
proof -
  obtain r k where rk: "K (Sys_read (fd_num w fd) (min BUFFER_SIZE limit)) (wd_kernel w) = (r, k)" by fastforce
  obtain n where n: "SystemCall ''read'' r 0 = Inr n" "n \<le> int (min BUFFER_SIZE limit)" "0 \<le> n"
    and str: "str = resize (resize (sr_data r) (min BUFFER_SIZE limit)) (nat n)"
    and w': "w' = register_read fd (if limit > 0 \<and> n = 0 then fd_update fd (\<lambda>f. f\<lparr>fw_eof := True\<rparr>) (w\<lparr>wd_kernel := k\<rparr>) else w\<lparr>wd_kernel := k\<rparr>)"
    using assms rk by (auto simp: FileDescriptor_read_def syscall_def Let_def split: if_splits)
  have len: "length str = nat n" using str by simp
  have "touches fd w w'"
    unfolding w' by (rule touches_trans [OF _ register_touches(1)]) (auto intro: touches_trans [OF touches_kernel fd_update_touches] touches_kernel)
  note t = this
  have n': "n = int (length str)" and nil: "n = 0 \<longleftrightarrow> str = []" using len n(3) by auto
  have "str = resize (resize (sr_data r) (min BUFFER_SIZE limit)) (length str)" unfolding len by (rule str)
  moreover have "wd_kernel w' = k" "fd_eof w' fd \<longleftrightarrow> fd_eof w fd \<or> (limit > 0 \<and> n = 0)" "fd_closed w' fd = fd_closed w fd"
    "fd_read_count w' fd = fd_read_count w fd + 1" "fd_write_count w' fd = fd_write_count w fd"
    by (auto simp: w' register_read_def fd_update_def fd_eof_def fd_closed_def fd_read_count_def fd_write_count_def)
  moreover have "length str \<le> min BUFFER_SIZE limit" using n(2) n' by linarith
  ultimately show ?thesis using that [OF rk n(1) [unfolded n'] _ _ _ t] unfolding nil by blast
qed

lemma FDWrapper_close_effect:
  assumes "FDWrapper_close K fd w = Inr w'"
  shows "touches fd w w' \<and> fd_closed w' fd \<and> fd_eof w' fd \<and> fd_read_count w' fd = fd_read_count w fd \<and>
    fd_write_count w' fd = fd_write_count w fd \<and> (\<exists>r. K (Sys_close (fd_num w fd)) (wd_kernel w) = (r, wd_kernel w'))"
proof -
  obtain r k where k: "K (Sys_close (fd_num w fd)) (wd_kernel w) = (r, k)"
    "w' = fd_update fd (\<lambda>f. f\<lparr>fw_closed := True, fw_eof := True\<rparr>) (w\<lparr>wd_kernel := k\<rparr>)"
    using assms by (auto simp: FDWrapper_close_def syscall_def split: prod.splits)
  have "touches fd w w'" unfolding k(2) by (rule touches_trans [OF touches_kernel fd_update_touches]) simp
  then show ?thesis using k by (auto simp: fd_update_def fd_eof_def fd_closed_def fd_read_count_def fd_write_count_def)
qed

lemma write_loop_touches:
  "FileDescriptor_write_loop K fd write_all buffer n0 w = Inr (n, w') \<Longrightarrow> touches fd w w'"
proof (induction K fd write_all buffer n0 w rule: FileDescriptor_write_loop.induct)
  case (1 K fd write_all buffer n0 w)
  obtain r w1 where r: "syscall K (Sys_writev (fd_num w fd) buffer) w = (r, w1)" by fastforce
  have t: "touches fd w (register_write fd w1)" by (rule touches_trans [OF syscall_touches [OF r] register_touches(2)])
  note step = 1(2) [unfolded FileDescriptor_write_loop.simps [of K fd write_all buffer n0 w], simplified r BufferViewList_as_iovecs_eq]
  then obtain m rest where m: "SystemCall ''writev'' r 0 = Inr m" "\<not> (m = 0 \<and> BufferViewList_size buffer \<noteq> 0)"
    "\<not> m > to_ssize (BufferViewList_size buffer)" "BufferViewList_remove_prefix buffer (to_size m) = Inr rest"
    by (auto split: if_splits)
  show ?case
  proof (cases "write_all \<and> BufferViewList_size rest \<noteq> 0")
    case True
    then have "FileDescriptor_write_loop K fd write_all rest (add64 n0 (to_size m)) (register_write fd w1) = Inr (n, w')"
      using step m by (auto split: if_splits)
    from 1(1) [of "(r, w1)" r w1 m rest, unfolded BufferViewList_as_iovecs_eq, OF r [symmetric] refl m True this]
    show ?thesis by (rule touches_trans [OF t])
  next
    case False
    then show ?thesis using step m t by (auto split: if_splits)
  qed
qed

lemma FileDescriptor_write_touches: "FileDescriptor_write K fd buffer write_all w = Inr (n, w') \<Longrightarrow> touches fd w w'"
  unfolding FileDescriptor_write_def by (rule write_loop_touches)

text \<open>A write that need not write everything is one call.\<close>

lemma FileDescriptor_write_once:
  assumes "FileDescriptor_write K fd buffer False w = Inr (n, w')"
  obtains r k m where "K (Sys_writev (fd_num w fd) buffer) (wd_kernel w) = (r, k)" "SystemCall ''writev'' r 0 = Inr m"
    "n = to_size m" "m \<le> to_ssize (BufferViewList_size buffer)" "w' = register_write fd (w\<lparr>wd_kernel := k\<rparr>)"
proof -
  obtain r k where rk: "K (Sys_writev (fd_num w fd) buffer) (wd_kernel w) = (r, k)" by fastforce
  have sys: "syscall K (Sys_writev (fd_num w fd) buffer) w = (r, w\<lparr>wd_kernel := k\<rparr>)" using rk by (simp add: syscall_def)
  note step = assms [unfolded FileDescriptor_write_def FileDescriptor_write_loop.simps [of K fd False buffer 0 w],
      simplified sys BufferViewList_as_iovecs_eq]
  then obtain m where m: "SystemCall ''writev'' r 0 = Inr m" by auto
  then have m': "n = add64 0 (to_size m)" "m \<le> to_ssize (BufferViewList_size buffer)"
    "w' = register_write fd (w\<lparr>wd_kernel := k\<rparr>)"
    using step by (auto split: if_splits)
  have "to_size m < 2 ^ 64"
    unfolding to_size_def by (simp add: nat_less_iff)
  then have "n = to_size m" using m'(1) by (simp add: add64_def)
  with that rk m m' show ?thesis by blast
qed

section \<open>What a write writes\<close>

text \<open>
  \<open>out k fd\<close> is what has been written to the descriptor number \<open>fd\<close> so far. \<open>writev_appends\<close> states
  of \<open>writev(2)\<close> that it appends to it as many bytes as it reports, from the front of its argument, and nothing
  when it fails; \<open>writev_accepts\<close> that it does not fail on a state of the kernel and takes something if given something.
\<close>

definition writev_appends :: "'k kernel \<Rightarrow> ('k \<Rightarrow> int \<Rightarrow> byte list) \<Rightarrow> bool" where
  "writev_appends K out \<longleftrightarrow> (\<forall>k fd iov r k'. K (Sys_writev fd iov) k = (r, k') \<longrightarrow>
     (if 0 \<le> sint (sr_ret r)
      then nat (sint (sr_ret r)) \<le> length (concat iov) \<and> out k' = (out k)(fd := out k fd @ take (nat (sint (sr_ret r))) (concat iov))
      else out k' = out k \<and> sr_errno r \<noteq> 0))"

definition writev_accepts :: "'k kernel \<Rightarrow> bool" where
  "writev_accepts K \<longleftrightarrow> (\<forall>k fd iov r k'. K (Sys_writev fd iov) k = (r, k') \<longrightarrow>
     0 \<le> sint (sr_ret r) \<and> (concat iov \<noteq> [] \<longrightarrow> sint (sr_ret r) \<noteq> 0))"

definition only_writes :: "FileDescriptor \<Rightarrow> ('k, 'z) world_scheme \<Rightarrow> ('k, 'z) world_scheme \<Rightarrow> bool" where
  "only_writes fd w w' \<longleftrightarrow> (\<exists>k n. w' = fd_update fd (\<lambda>f. f\<lparr>fw_write_count := fw_write_count f + n\<rparr>) (w\<lparr>wd_kernel := k\<rparr>))"

lemma only_writes_trans: "only_writes fd w w' \<Longrightarrow> only_writes fd w' w'' \<Longrightarrow> only_writes fd w w''"
proof -
  assume "only_writes fd w w'" "only_writes fd w' w''"
  then obtain k n k' n' where
    "w' = fd_update fd (\<lambda>f. f\<lparr>fw_write_count := fw_write_count f + n\<rparr>) (w\<lparr>wd_kernel := k\<rparr>)"
    "w'' = fd_update fd (\<lambda>f. f\<lparr>fw_write_count := fw_write_count f + n'\<rparr>) (w'\<lparr>wd_kernel := k'\<rparr>)"
    unfolding only_writes_def by blast
  then have "w'' = fd_update fd (\<lambda>f. f\<lparr>fw_write_count := fw_write_count f + (n + n')\<rparr>) (w\<lparr>wd_kernel := k'\<rparr>)"
    by (simp add: fd_update_def add.assoc)
  then show ?thesis unfolding only_writes_def by blast
qed

lemma only_writes_step: "only_writes fd w (register_write fd (w\<lparr>wd_kernel := k\<rparr>))"
  by (auto simp: only_writes_def register_write_def)

lemma only_writes_fd_num [simp]: "only_writes fd w w' \<Longrightarrow> fd_num w' fd' = fd_num w fd'"
  by (auto simp: only_writes_def fd_update_def fd_num_def)

text \<open>One call of \<open>writev\<close> and the bookkeeping around it.\<close>

lemma write_call:
  assumes "writev_appends K out" and "length (concat buffer) < 2 ^ 63"
    and "syscall K (Sys_writev (fd_num w fd) buffer) w = (r, w1)" and "SystemCall ''writev'' r 0 = Inr n"
  obtains rest m where "n = int m" "m \<le> length (concat buffer)" "to_size n = m" "to_ssize (BufferViewList_size buffer) = int (length (concat buffer))"
    "BufferViewList_remove_prefix buffer m = Inr rest" "concat rest = drop m (concat buffer)"
    "BufferViewList_size rest = length (concat rest)" "BufferViewList_size buffer = length (concat buffer)"
    "only_writes fd w (register_write fd w1)" "fd_num (register_write fd w1) fd = fd_num w fd"
    "out (wd_kernel (register_write fd w1)) =
       (out (wd_kernel w))(fd_num w fd := out (wd_kernel w) (fd_num w fd) @ take m (concat buffer))"
proof -
  obtain k where k: "K (Sys_writev (fd_num w fd) buffer) (wd_kernel w) = (r, k)" "w1 = w\<lparr>wd_kernel := k\<rparr>"
    using assms(3) by (auto simp: syscall_def split: prod.splits)
  have n: "n = sint (sr_ret r)" "0 \<le> n"
    using assms(4) assms(1) k(1) by (auto simp: SystemCall_def writev_appends_def split: if_splits) (metis not_le)
  have m: "nat n \<le> length (concat buffer)"
    "out k = (out (wd_kernel w))(fd_num w fd := out (wd_kernel w) (fd_num w fd) @ take (nat n) (concat buffer))"
    using assms(1) k(1) n unfolding writev_appends_def by metis+
  obtain rest where rest: "BufferViewList_remove_prefix buffer (nat n) = Inr rest" "concat rest = drop (nat n) (concat buffer)"
    using BufferViewList_remove_prefix_ok [OF m(1)] by blast
  have len: "length (concat buffer) mod SIZE_MOD = length (concat buffer)" "length (concat rest) mod SIZE_MOD = length (concat rest)"
    using assms(2) rest(2) by simp_all
  have size: "BufferViewList_size rest = length (concat rest)" "BufferViewList_size buffer = length (concat buffer)"
    by (simp_all only: BufferViewList_size_eq len)
  have "to_size n = nat n" using n(2) m(1) assms(2) by (simp add: to_size_def zmod_trivial_iff)
  then show ?thesis
    using that [of "nat n" rest] n m rest size assms(2) k(2) only_writes_step [of fd w k]
    by (simp add: to_ssize_def register_write_def fd_update_def fd_num_def)
qed

lemma write_loop_writes:
  assumes "writev_appends K out" and "length (concat buffer) + n0 < 2 ^ 63"
    and "FileDescriptor_write_loop K fd write_all buffer n0 w = Inr (n, w')"
  shows "\<exists>m. n = n0 + m \<and> m \<le> length (concat buffer) \<and> (write_all \<longrightarrow> m = length (concat buffer)) \<and>
    (concat buffer \<noteq> [] \<longrightarrow> m \<noteq> 0) \<and> only_writes fd w w' \<and>
    out (wd_kernel w') = (out (wd_kernel w))(fd_num w fd := out (wd_kernel w) (fd_num w fd) @ take m (concat buffer))"
  using assms
proof (induction K fd write_all buffer n0 w rule: FileDescriptor_write_loop.induct)
  case (1 K fd write_all buffer n0 w)
  obtain r w1 where r: "syscall K (Sys_writev (fd_num w fd) buffer) w = (r, w1)" by fastforce
  note step = 1(4) [unfolded FileDescriptor_write_loop.simps [of K fd write_all buffer n0 w], simplified r BufferViewList_as_iovecs_eq]
  then obtain m' where m': "SystemCall ''writev'' r 0 = Inr m'" by auto
  obtain rest m where c: "m' = int m" "m \<le> length (concat buffer)" "to_size m' = m" "to_ssize (BufferViewList_size buffer) = int (length (concat buffer))"
    "BufferViewList_remove_prefix buffer m = Inr rest" "concat rest = drop m (concat buffer)"
    "BufferViewList_size rest = length (concat rest)" "BufferViewList_size buffer = length (concat buffer)"
    "only_writes fd w (register_write fd w1)" "fd_num (register_write fd w1) fd = fd_num w fd"
    "out (wd_kernel (register_write fd w1)) =
       (out (wd_kernel w))(fd_num w fd := out (wd_kernel w) (fd_num w fd) @ take m (concat buffer))"
    by (rule write_call [OF 1(2) _ r m']) (use 1(3) in simp)
  have nz: "concat buffer \<noteq> [] \<longrightarrow> m \<noteq> 0" using step m' c(1,8) by (auto split: if_splits)
  have add: "add64 n0 m = n0 + m" using c(2) 1(3) by (simp add: size_simps)
  show ?case
  proof (cases "write_all \<and> BufferViewList_size rest \<noteq> 0")
    case True
    then have go: "FileDescriptor_write_loop K fd write_all rest (n0 + m) (register_write fd w1) = Inr (n, w')"
      using step m' c(1-5,8) nz add by (auto split: if_splits)
    have "\<exists>l. n = n0 + m + l \<and> l \<le> length (concat rest) \<and> (write_all \<longrightarrow> l = length (concat rest)) \<and>
        (concat rest \<noteq> [] \<longrightarrow> l \<noteq> 0) \<and> only_writes fd (register_write fd w1) w' \<and>
        out (wd_kernel w') = (out (wd_kernel (register_write fd w1)))(fd_num (register_write fd w1) fd :=
          out (wd_kernel (register_write fd w1)) (fd_num (register_write fd w1) fd) @ take l (concat rest))"
      by (rule 1(1) [of "(r, w1)" r w1 m' rest, unfolded c(3) add BufferViewList_as_iovecs_eq])
        (use r m' c True nz 1(2,3) go in \<open>auto split: if_splits\<close>)
    then obtain l where l: "n = n0 + m + l" "l \<le> length (concat rest)" "l = length (concat rest)"
        "only_writes fd (register_write fd w1) w'"
        "out (wd_kernel w') = (out (wd_kernel (register_write fd w1)))(fd_num (register_write fd w1) fd :=
          out (wd_kernel (register_write fd w1)) (fd_num (register_write fd w1) fd) @ take l (concat rest))"
      using True by blast
    have "m + l = length (concat buffer)" using l(3) c(2,6) by simp
    moreover have "only_writes fd w w'" using only_writes_trans [OF c(9) l(4)] .
    moreover have "out (wd_kernel w') = (out (wd_kernel w))(fd_num w fd := out (wd_kernel w) (fd_num w fd) @ concat buffer)"
      using l(3,5) c(6,10,11) by simp
    ultimately show ?thesis using l(1) nz by (intro exI [of _ "m + l"]) auto
  next
    case False
    then have "n = n0 + m" "w' = register_write fd w1"
      using step m' c(1-5,8) nz add by (auto split: if_splits)
    moreover have "write_all \<longrightarrow> m = length (concat buffer)" using False c(2,6,7) by auto
    ultimately show ?thesis using c(2,9,11) nz by (intro exI [of _ m]) auto
  qed
qed

lemma write_loop_returns:
  assumes "writev_appends K out" and "writev_accepts K" and "length (concat buffer) + n0 < 2 ^ 63"
  shows "\<exists>n w'. FileDescriptor_write_loop K fd write_all buffer n0 w = Inr (n, w')"
  using assms
proof (induction K fd write_all buffer n0 w rule: FileDescriptor_write_loop.induct)
  case (1 K fd write_all buffer n0 w)
  obtain r w1 where r: "syscall K (Sys_writev (fd_num w fd) buffer) w = (r, w1)" by fastforce
  have ret: "0 \<le> sint (sr_ret r)" "concat buffer \<noteq> [] \<longrightarrow> sint (sr_ret r) \<noteq> 0"
  proof -
    obtain k where "K (Sys_writev (fd_num w fd) buffer) (wd_kernel w) = (r, k)"
      using r by (auto simp: syscall_def split: prod.splits)
    then show "0 \<le> sint (sr_ret r)" "concat buffer \<noteq> [] \<longrightarrow> sint (sr_ret r) \<noteq> 0"
      using 1(3) unfolding writev_accepts_def by blast+
  qed
  let ?m = "sint (sr_ret r)"
  have m': "SystemCall ''writev'' r 0 = Inr ?m" using ret(1) by (simp add: SystemCall_def)
  obtain rest m where c: "?m = int m" "m \<le> length (concat buffer)" "to_size ?m = m"
    "to_ssize (BufferViewList_size buffer) = int (length (concat buffer))"
    "BufferViewList_remove_prefix buffer m = Inr rest" "concat rest = drop m (concat buffer)"
    "BufferViewList_size rest = length (concat rest)" "BufferViewList_size buffer = length (concat buffer)"
    "only_writes fd w (register_write fd w1)" "fd_num (register_write fd w1) fd = fd_num w fd"
    "out (wd_kernel (register_write fd w1)) =
       (out (wd_kernel w))(fd_num w fd := out (wd_kernel w) (fd_num w fd) @ take m (concat buffer))"
    by (rule write_call [OF 1(2) _ r m']) (use 1(4) in simp)
  have add: "add64 n0 m = n0 + m" using c(2) 1(4) by (simp add: size_simps)
  have "\<exists>n w'. FileDescriptor_write_loop K fd write_all rest (n0 + m) (register_write fd w1) = Inr (n, w')"
    if "write_all \<and> BufferViewList_size rest \<noteq> 0"
    by (rule 1(1) [of "(r, w1)" r w1 ?m rest, unfolded c(3) add BufferViewList_as_iovecs_eq])
      (use that r m' c 1(2-4) ret in auto)
  then show ?case
    using r m' c(1-5,8) ret(2) add unfolding FileDescriptor_write_loop.simps [of K fd write_all buffer n0 w]
    by (auto simp del: concat_eq_Nil_conv)
qed

text \<open>
  The kernel as its clients see it: \<open>inp k fd\<close> is what has been read from a descriptor number so far and \<open>out k fd\<close>
  what has been written. A read hands out the bytes it adds to \<open>inp\<close>, and only reads and writes add any.
\<close>

definition kernel_streams :: "'k kernel \<Rightarrow> ('k \<Rightarrow> int \<Rightarrow> byte list) \<Rightarrow> ('k \<Rightarrow> int \<Rightarrow> byte list) \<Rightarrow> bool" where
  "kernel_streams K inp out \<longleftrightarrow> writev_appends K out \<and>
     (\<forall>k fd n r k'. K (Sys_read fd n) k = (r, k') \<longrightarrow> out k' = out k \<and>
        (if 0 \<le> sint (sr_ret r)
         then nat (sint (sr_ret r)) \<le> length (sr_data r) \<and> length (sr_data r) \<le> n \<and>
           inp k' = (inp k)(fd := inp k fd @ take (nat (sint (sr_ret r))) (sr_data r))
         else inp k' = inp k \<and> sr_errno r \<noteq> 0)) \<and>
     (\<forall>k fd iov. inp (snd (K (Sys_writev fd iov) k)) = inp k) \<and>
     (\<forall>k c. (\<forall>fd n. c \<noteq> Sys_read fd n) \<longrightarrow> (\<forall>fd iov. c \<noteq> Sys_writev fd iov) \<longrightarrow>
        inp (snd (K c k)) = inp k \<and> out (snd (K c k)) = out k)"

lemma kernel_streams_other:
  assumes "kernel_streams K inp out" and "syscall K c w = (r, w')" and "\<forall>fd n. c \<noteq> Sys_read fd n" and "\<forall>fd iov. c \<noteq> Sys_writev fd iov"
  shows "inp (wd_kernel w') = inp (wd_kernel w) \<and> out (wd_kernel w') = out (wd_kernel w)"
proof -
  have "w' = w\<lparr>wd_kernel := snd (K c (wd_kernel w))\<rparr>" using assms(2) by (auto simp: syscall_def split: prod.splits)
  then show ?thesis using assms(1,3,4) by (simp add: kernel_streams_def)
qed

lemma FileDescriptor_read_stream:
  assumes "kernel_streams K inp out" and "FileDescriptor_read K fd limit w = Inr (str, w')"
  shows "inp (wd_kernel w') = (inp (wd_kernel w))(fd_num w fd := inp (wd_kernel w) (fd_num w fd) @ str) \<and>
    out (wd_kernel w') = out (wd_kernel w) \<and> length str \<le> limit"
proof -
  obtain r k where r: "K (Sys_read (fd_num w fd) (min BUFFER_SIZE limit)) (wd_kernel w) = (r, k)"
    "SystemCall ''read'' r 0 = Inr (int (length str))" "length str \<le> min BUFFER_SIZE limit"
    "str = resize (resize (sr_data r) (min BUFFER_SIZE limit)) (length str)" "wd_kernel w' = k"
    by (rule FileDescriptor_read_effect [OF assms(2)])
  have ret: "sint (sr_ret r) = int (length str)" using r(2) by (auto simp: SystemCall_def split: if_splits)
  have k: "out k = out (wd_kernel w)" "length str \<le> length (sr_data r)" "length (sr_data r) \<le> min BUFFER_SIZE limit"
    "inp k = (inp (wd_kernel w))(fd_num w fd := inp (wd_kernel w) (fd_num w fd) @ take (length str) (sr_data r))"
    using assms(1) r(1) ret unfolding kernel_streams_def by (metis nat_int of_nat_0_le_iff)+
  have "resize (sr_data r) (min BUFFER_SIZE limit) = sr_data r @ replicate (min BUFFER_SIZE limit - length (sr_data r)) 0"
    using k(3) by (rule resize_longer)
  then have "str = take (length str) (sr_data r)"
    using r(4) k(2) by (simp add: resize_def)
  then show ?thesis using k r(3,5) by simp
qed

lemma FileDescriptor_write_stream:
  assumes "kernel_streams K inp out" and "length (concat buffer) < 2 ^ 63"
    and "FileDescriptor_write K fd buffer False w = Inr (n, w')"
  shows "n \<le> length (concat buffer) \<and> inp (wd_kernel w') = inp (wd_kernel w) \<and>
    out (wd_kernel w') = (out (wd_kernel w))(fd_num w fd := out (wd_kernel w) (fd_num w fd) @ take n (concat buffer)) \<and>
    touches fd w w' \<and> fd_write_count w' fd = fd_write_count w fd + 1 \<and> fd_read_count w' fd = fd_read_count w fd \<and>
    fd_eof w' fd = fd_eof w fd"
proof -
  obtain r k m where r: "K (Sys_writev (fd_num w fd) buffer) (wd_kernel w) = (r, k)" "w' = register_write fd (w\<lparr>wd_kernel := k\<rparr>)"
    by (rule FileDescriptor_write_once [OF assms(3)])
  have "n \<le> length (concat buffer) \<and>
      out (wd_kernel w') = (out (wd_kernel w))(fd_num w fd := out (wd_kernel w) (fd_num w fd) @ take n (concat buffer))"
    using write_loop_writes [of K out buffer 0 fd False w n w'] assms unfolding kernel_streams_def FileDescriptor_write_def by auto
  moreover have "inp k = inp (wd_kernel w)" using assms(1) r(1) unfolding kernel_streams_def by (metis snd_conv)
  ultimately show ?thesis
    using r(2) touches_trans [OF touches_kernel register_touches(2)]
    by (simp add: register_write_def fd_update_def fd_write_count_def fd_read_count_def fd_eof_def)
qed

text \<open>
  Someone writes \<open>S\<close> into the other end of a descriptor and then shuts it down: reads return the bytes of \<open>S\<close> in order,
  and an empty read comes only after all of them.
\<close>

definition stream_source :: "'k kernel \<Rightarrow> ('k \<Rightarrow> int \<Rightarrow> byte list) \<Rightarrow> int \<Rightarrow> byte list \<Rightarrow> bool" where
  "stream_source K inp n S \<longleftrightarrow> (\<forall>k. \<exists>rest. S = inp k n @ rest) \<and>
     (\<forall>k l r k'. K (Sys_read n l) k = (r, k') \<longrightarrow> sint (sr_ret r) = 0 \<longrightarrow> l > 0 \<longrightarrow> inp k n = S)"

lemma stream_read_end:
  assumes "stream_source K inp n S" and "fd_num w fd = n" and "FileDescriptor_read K fd limit w = Inr ([], w')" and "limit > 0"
  shows "inp (wd_kernel w) n = S"
proof -
  obtain r k where e: "K (Sys_read (fd_num w fd) (min BUFFER_SIZE limit)) (wd_kernel w) = (r, k)" "SystemCall ''read'' r 0 = Inr (int (length ([] :: byte list)))"
    by (rule FileDescriptor_read_effect [OF assms(3)])
  then have "sint (sr_ret r) = 0" by (auto simp: SystemCall_def split: if_splits)
  moreover have "min BUFFER_SIZE limit > 0" using assms(4) by simp
  ultimately show ?thesis using assms(1,2) e(1) unfolding stream_source_def by blast
qed

lemma write_loop_inp:
  assumes "kernel_streams K inp out" and "FileDescriptor_write_loop K fd write_all buffer n0 w = Inr (n, w')"
  shows "inp (wd_kernel w') = inp (wd_kernel w)"
  using assms
proof (induction K fd write_all buffer n0 w rule: FileDescriptor_write_loop.induct)
  case (1 K fd write_all buffer n0 w)
  obtain r w1 where r: "syscall K (Sys_writev (fd_num w fd) buffer) w = (r, w1)" by fastforce
  then have i1: "inp (wd_kernel (register_write fd w1)) = inp (wd_kernel w)"
    using 1(2) by (auto simp: kernel_streams_def syscall_def register_write_def fd_update_def split: prod.splits) (metis snd_conv)
  note step = 1(3) [unfolded FileDescriptor_write_loop.simps [of K fd write_all buffer n0 w], simplified r BufferViewList_as_iovecs_eq]
  then obtain m rest where m: "SystemCall ''writev'' r 0 = Inr m" "BufferViewList_remove_prefix buffer (to_size m) = Inr rest"
    "m = 0 \<longrightarrow> BufferViewList_size buffer = 0" "\<not> to_ssize (BufferViewList_size buffer) < m"
    by (auto split: if_splits)
  show ?case
  proof (cases "write_all \<and> BufferViewList_size rest \<noteq> 0")
    case True
    then have "FileDescriptor_write_loop K fd write_all rest (add64 n0 (to_size m)) (register_write fd w1) = Inr (n, w')"
      using step m by (simp split: if_splits)
    then have "inp (wd_kernel w') = inp (wd_kernel (register_write fd w1))"
      by (intro 1(1) [of "(r, w1)" r w1 m rest, unfolded BufferViewList_as_iovecs_eq]) (use r m True 1(2) in auto)
    then show ?thesis using i1 by simp
  next
    case False
    then have "w' = register_write fd w1" using step m by (auto split: if_splits)
    then show ?thesis using i1 by simp
  qed
qed

text \<open>
  C15. A write of everything ends. Whatever the kernel does, the loop of \<open>FileDescriptor::write\<close> ends;
  if it returns, the whole buffer has been written to the descriptor, in order and once, however the kernel
  splits it, and only the descriptor's write counter has changed; and it returns if
  the kernel keeps taking bytes.
\<close>

theorem write_all_terminates:
  assumes "writev_appends K out" and "length (concat buffer) < 2 ^ 63"
  shows "(\<forall>n w'. FileDescriptor_write K fd buffer True w = Inr (n, w') \<longrightarrow>
      n = length (concat buffer) \<and> only_writes fd w w' \<and>
      out (wd_kernel w') = (out (wd_kernel w))(fd_num w fd := out (wd_kernel w) (fd_num w fd) @ concat buffer)) \<and>
    (writev_accepts K \<longrightarrow> (\<exists>n w'. FileDescriptor_write K fd buffer True w = Inr (n, w')))"
proof -
  have len: "length (concat buffer) + 0 < 2 ^ 63" using assms(2) by simp
  show ?thesis
    using write_loop_writes [OF assms(1) len, of fd True w] write_loop_returns [OF assms(1) _ len, of fd True w]
    unfolding FileDescriptor_write_def by fastforce
qed

text \<open>A kernel that takes one byte at a time.\<close>

definition sys_ok :: "32 word \<Rightarrow> sys_result" where
  "sys_ok ret = \<lparr>sr_ret = ret, sr_errno = 0, sr_data = [], sr_addr = [], sr_len = 0, sr_value = 0, sr_fds = (0, 0),
     sr_revents = [], sr_time = 0\<rparr>"

fun slow_kernel :: "(int \<Rightarrow> byte list) kernel" where
  "slow_kernel (Sys_writev fd iov) k =
     (if concat iov = [] then (sys_ok 0, k) else (sys_ok 1, k(fd := k fd @ [hd (concat iov)])))"
| "slow_kernel c k = (sys_ok 0, k)"

theorem write_all_terminates_witness:
  "\<exists>w'. FileDescriptor_write slow_kernel 0 [[1, 2], [3]] True
      \<lparr>wd_kernel = (\<lambda>_. []), wd_heap = (\<lambda>_. \<lparr>fw_fd = 4, fw_eof = False, fw_closed = False, fw_read_count = 0, fw_write_count = 0\<rparr>),
       wd_next = 1\<rparr> = Inr (3, w') \<and> wd_kernel w' 4 = [1, 2, 3]"
proof -
  have a: "writev_appends slow_kernel (\<lambda>k. k)"
    by (auto simp: writev_appends_def sys_ok_def hd_conv_nth take_Suc simp del: concat_eq_Nil_conv)
      (metis hd_conv_nth length_greater_0_conv less_eq_Suc_le)+
  have b: "writev_accepts slow_kernel" by (auto simp: writev_accepts_def sys_ok_def)
  show ?thesis
    using write_all_terminates [OF a, of "[[1, 2], [3]]" 0 "\<lparr>wd_kernel = (\<lambda>_. []),
        wd_heap = (\<lambda>_. \<lparr>fw_fd = 4, fw_eof = False, fw_closed = False, fw_read_count = 0, fw_write_count = 0\<rparr>), wd_next = 1\<rparr>"] b
    by (fastforce simp: fd_num_def)
qed

end
