(* ===== verification/Event_Loop.thy ===== *)
theory Event_Loop
  imports File_Descriptor
begin

text \<open>
  \<open>EventLoop\<close> (\<open>libsponge/util/eventloop.hh\<close>, \<open>eventloop.cc\<close>): the rules with their callbacks as
  functions on the world, and the two passes of \<open>wait_next_event\<close> around \<open>poll\<close>.
\<close>

unbundle bit_operations_syntax

section \<open>Rules\<close>

datatype Direction = Dir_In | Dir_Out

abbreviation POLLIN :: "16 word" where "POLLIN \<equiv> 1"
abbreviation POLLOUT :: "16 word" where "POLLOUT \<equiv> 4"
abbreviation POLLERR :: "16 word" where "POLLERR \<equiv> 8"
abbreviation POLLHUP :: "16 word" where "POLLHUP \<equiv> 16"
abbreviation POLLNVAL :: "16 word" where "POLLNVAL \<equiv> 32"
abbreviation EINTR :: int where "EINTR \<equiv> 4"

fun direction_events :: "Direction \<Rightarrow> 16 word" where
  "direction_events Dir_In = POLLIN"
| "direction_events Dir_Out = POLLOUT"

record 'w Rule =
  ru_fd :: FileDescriptor
  ru_direction :: Direction
  ru_callback :: "'w \<Rightarrow> 'w res"
  ru_interest :: "'w \<Rightarrow> bool"
  ru_cancel :: "'w \<Rightarrow> 'w res"

definition service_count :: "('k, 'z) world_scheme Rule \<Rightarrow> ('k, 'z) world_scheme \<Rightarrow> 32 word" where
  "service_count r w = (case ru_direction r of Dir_In \<Rightarrow> fd_read_count w (ru_fd r) | Dir_Out \<Rightarrow> fd_write_count w (ru_fd r))"

datatype Result = Success | Timeout | Exit

definition add_rule ::
  "'w Rule list \<Rightarrow> FileDescriptor \<Rightarrow> Direction \<Rightarrow> ('w \<Rightarrow> 'w res) \<Rightarrow> ('w \<Rightarrow> bool) \<Rightarrow> ('w \<Rightarrow> 'w res) \<Rightarrow> 'w Rule list" where
  "add_rule rules fd direction callback interest cancel =
     rules @ [\<lparr>ru_fd = FileDescriptor_duplicate fd, ru_direction = direction, ru_callback = callback,
       ru_interest = interest, ru_cancel = cancel\<rparr>]"

section \<open>wait_next_event\<close>

record pollfd =
  pf_fd :: int
  pf_events :: "16 word"
  pf_revents :: "16 word"

text \<open>The first pass: the rules that stay, their entries for \<open>poll\<close> and whether there is something to poll.\<close>

fun setup_pollfds ::
  "('k, 'z) world_scheme Rule list \<Rightarrow> ('k, 'z) world_scheme \<Rightarrow>
   (('k, 'z) world_scheme Rule list \<times> pollfd list \<times> bool \<times> ('k, 'z) world_scheme) res" where
  "setup_pollfds [] w = Inr ([], [], False, w)"
| "setup_pollfds (this_rule # rules) w =
     (if ru_direction this_rule = Dir_In \<and> fd_eof w (ru_fd this_rule)
      then bindR (ru_cancel this_rule w) (setup_pollfds rules)
      else if fd_closed w (ru_fd this_rule)
      then bindR (ru_cancel this_rule w) (setup_pollfds rules)
      else
        let fdn = fd_num w (ru_fd this_rule); wants = ru_interest this_rule w;
            events = (if wants then direction_events (ru_direction this_rule) else 0)
        in bindR (setup_pollfds rules w) (\<lambda>(kept, pollfds, something_to_poll, w).
             Inr (this_rule # kept, \<lparr>pf_fd = fdn, pf_events = events, pf_revents = 0\<rparr> # pollfds, wants \<or> something_to_poll, w)))"

text \<open>The call of a ready rule and the test for a busy wait.\<close>

abbreviation busy_wait :: cpp_exn where
  "busy_wait \<equiv> runtime_error ''EventLoop: busy wait detected: callback did not read/write fd and is still interested''"

definition service_rule :: "('k, 'z) world_scheme Rule \<Rightarrow> ('k, 'z) world_scheme \<Rightarrow> ('k, 'z) world_scheme res" where
  "service_rule this_rule w =
     (let count_before = service_count this_rule w
      in bindR (ru_callback this_rule w) (\<lambda>w.
         if count_before = service_count this_rule w \<and> ru_interest this_rule w then Inl busy_wait else Inr w))"

text \<open>
  The second pass. The passes walk the same list, so that there is an entry for every rule; reading past
  them would be undefined, and is an error here.
\<close>

fun poll_results ::
  "('k, 'z) world_scheme Rule list \<Rightarrow> pollfd list \<Rightarrow> ('k, 'z) world_scheme \<Rightarrow>
   (('k, 'z) world_scheme Rule list \<times> ('k, 'z) world_scheme) res" where
  "poll_results [] pollfds w = Inr ([], w)"
| "poll_results (this_rule # rules) [] w = Inl (out_of_range ''pollfds'')"
| "poll_results (this_rule # rules) (this_pollfd # pollfds) w =
     (if pf_revents this_pollfd AND (POLLERR OR POLLNVAL) \<noteq> 0
      then Inl (runtime_error ''EventLoop: error on polled file descriptor'')
      else
        let poll_ready = (pf_revents this_pollfd AND pf_events this_pollfd \<noteq> 0);
            poll_hup = (pf_revents this_pollfd AND POLLHUP \<noteq> 0)
        in if poll_hup \<and> pf_events this_pollfd \<noteq> 0 \<and> \<not> poll_ready
           then bindR (ru_cancel this_rule w) (poll_results rules pollfds)
           else
             bindR (if poll_ready then service_rule this_rule w else Inr w) (\<lambda>w.
             bindR (poll_results rules pollfds w) (\<lambda>(kept, w). Inr (this_rule # kept, w))))"

text \<open>What \<open>poll\<close> stores into the entries; it stores nothing when it fails.\<close>

definition store_revents :: "pollfd list \<Rightarrow> 16 word list \<Rightarrow> pollfd list" where
  "store_revents pollfds revents = map (\<lambda>(p, r). p\<lparr>pf_revents := r\<rparr>) (zip pollfds (revents @ replicate (length pollfds) 0))"

definition wait_next_event ::
  "'k kernel \<Rightarrow> int \<Rightarrow> ('k, 'z) world_scheme Rule list \<Rightarrow> ('k, 'z) world_scheme \<Rightarrow>
   (Result \<times> ('k, 'z) world_scheme Rule list \<times> ('k, 'z) world_scheme) res" where
  "wait_next_event K timeout_ms rules w =
     bindR (setup_pollfds rules w) (\<lambda>(rules, pollfds, something_to_poll, w).
       if \<not> something_to_poll then Inr (Exit, rules, w)
       else
         let (r, w) = syscall K (Sys_poll (map (\<lambda>p. (pf_fd p, pf_events p)) pollfds) timeout_ms) w;
             pollfds = store_revents pollfds (if sint (sr_ret r) < 0 then [] else sr_revents r);
             results = bindR (poll_results rules pollfds w) (\<lambda>(rules, w). Inr (Success, rules, w))
         in case SystemCall ''poll'' r 0 of
             Inr n \<Rightarrow> if n = 0 then Inr (Timeout, rules, w) else results
           | Inl e \<Rightarrow> if sr_errno r = EINTR then Inr (Exit, rules, w) else results)"

section \<open>The contract of a client\<close>

text \<open>
  A client of the loop: an invariant that \<open>poll\<close> and every callback and cancellation keep, and
  callbacks that serve their descriptor or lose interest. The rules may only be dropped: at the end of the
  input, when the descriptor has been closed, or, for the rules that \<open>hangs_up\<close> names, on a hang-up.
\<close>

definition hup_unready :: "16 word \<Rightarrow> 16 word \<Rightarrow> bool" where
  "hup_unready events revents \<longleftrightarrow> revents AND POLLHUP \<noteq> 0 \<and> events \<noteq> 0 \<and> revents AND events = 0"

definition cancels :: "(('k, 'z) world_scheme Rule \<Rightarrow> bool) \<Rightarrow> ('k, 'z) world_scheme Rule \<Rightarrow> ('k, 'z) world_scheme \<Rightarrow> bool" where
  "cancels hangs_up r w \<longleftrightarrow> ru_direction r = Dir_In \<and> fd_eof w (ru_fd r) \<or> fd_closed w (ru_fd r) \<or> hangs_up r"

locale event_client =
  fixes K :: "'k kernel" and Inv :: "('k, 'z) world_scheme \<Rightarrow> bool" and rules :: "('k, 'z) world_scheme Rule list"
    and hangs_up :: "('k, 'z) world_scheme Rule \<Rightarrow> bool" and fails :: "cpp_exn \<Rightarrow> bool"
  assumes poll_keeps: "Inv w \<Longrightarrow> syscall K (Sys_poll ps t) w = (ret, w') \<Longrightarrow> Inv w'"
    and poll_hangs: "r \<in> set rules \<Longrightarrow> Inv w \<Longrightarrow> Inv w0 \<Longrightarrow> syscall K (Sys_poll ps t) w = (ret, w') \<Longrightarrow>
      ((fd_num w0 (ru_fd r), direction_events (ru_direction r)), re) \<in> set (zip ps (sr_revents ret)) \<Longrightarrow>
      hup_unready (direction_events (ru_direction r)) re \<Longrightarrow> hangs_up r"
    and callback_keeps: "r \<in> set rules \<Longrightarrow> Inv w \<Longrightarrow> ru_callback r w = Inr w' \<Longrightarrow>
      Inv w' \<and> (service_count r w' \<noteq> service_count r w \<or> \<not> ru_interest r w')"
    and callback_fails: "r \<in> set rules \<Longrightarrow> Inv w \<Longrightarrow> ru_callback r w = Inl e \<Longrightarrow> fails e"
    and cancel_keeps: "r \<in> set rules \<Longrightarrow> Inv w \<Longrightarrow> cancels hangs_up r w \<Longrightarrow> ru_cancel r w = Inr w' \<Longrightarrow> Inv w'"
    and cancel_fails: "r \<in> set rules \<Longrightarrow> Inv w \<Longrightarrow> ru_cancel r w = Inl e \<Longrightarrow> fails e"
begin

text \<open>An entry asks for nothing or for what its rule waits for; after the poll only some rules have hung up.\<close>

definition entry_of :: "('k, 'z) world_scheme Rule \<Rightarrow> pollfd \<Rightarrow> bool" where
  "entry_of r p \<longleftrightarrow> (\<exists>w0. Inv w0 \<and> pf_fd p = fd_num w0 (ru_fd r)) \<and> (pf_events p = 0 \<or> pf_events p = direction_events (ru_direction r))"

definition hup_ok :: "('k, 'z) world_scheme Rule \<Rightarrow> pollfd \<Rightarrow> bool" where
  "hup_ok r p \<longleftrightarrow> hup_unready (pf_events p) (pf_revents p) \<longrightarrow> hangs_up r"

lemma setup_keeps:
  assumes "set rs \<subseteq> set rules" and "Inv w" and "setup_pollfds rs w = Inr (kept, ps, b, w')"
  shows "Inv w' \<and> set kept \<subseteq> set rs \<and> list_all2 entry_of kept ps"
  using assms
proof (induction rs arbitrary: w kept ps b)
  case (Cons r rs)
  show ?case
  proof (cases "ru_direction r = Dir_In \<and> fd_eof w (ru_fd r) \<or> fd_closed w (ru_fd r)")
    case True
    then obtain w1 where w1: "ru_cancel r w = Inr w1" "setup_pollfds rs w1 = Inr (kept, ps, b, w')"
      using Cons.prems(3) by (auto split: if_splits)
    have "Inv w1" using cancel_keeps [OF _ Cons.prems(2) _ w1(1)] Cons.prems(1) True by (auto simp: cancels_def)
    then show ?thesis using Cons.IH [OF _ _ w1(2)] Cons.prems(1) by auto
  next
    case False
    then obtain kept' ps' b' where k: "setup_pollfds rs w = Inr (kept', ps', b', w')" "kept = r # kept'"
      "ps = \<lparr>pf_fd = fd_num w (ru_fd r), pf_events = (if ru_interest r w then direction_events (ru_direction r) else 0), pf_revents = 0\<rparr> # ps'"
      using Cons.prems(3) by (auto simp: Let_def split: if_splits)
    have "entry_of r (hd ps)" using Cons.prems(2) by (auto simp: k(3) entry_of_def)
    then show ?thesis using Cons.IH [OF _ Cons.prems(2) k(1)] Cons.prems(1) by (auto simp: k(2,3))
  qed
qed simp

lemma setup_fails:
  assumes "set rs \<subseteq> set rules" and "Inv w" and "setup_pollfds rs w = Inl e"
  shows "fails e"
  using assms
proof (induction rs arbitrary: w)
  case (Cons r rs)
  then show ?case
    using cancel_keeps [of r w] cancel_fails [of r w] by (auto simp: Let_def bindR_eq_Inl cancels_def split: if_splits)
qed simp

lemma service_keeps: "r \<in> set rules \<Longrightarrow> Inv w \<Longrightarrow> service_rule r w = Inr w' \<Longrightarrow> Inv w'"
  using callback_keeps by (auto simp: service_rule_def Let_def split: if_splits)

lemma service_fails:
  assumes "r \<in> set rules" and "Inv w" and "service_rule r w = Inl e"
  shows "fails e"
  using assms callback_keeps [OF assms(1,2)] callback_fails [OF assms(1,2)]
  by (auto simp: service_rule_def Let_def bindR_eq_Inl split: if_splits)

lemma results_keep:
  assumes "set rs \<subseteq> set rules" and "Inv w" and "list_all2 hup_ok rs ps" and "poll_results rs ps w = Inr (kept, w')"
  shows "Inv w' \<and> set kept \<subseteq> set rs"
  using assms
proof (induction rs arbitrary: ps w kept)
  case (Cons r rs)
  then obtain p ps' where ps: "ps = p # ps'" "hup_ok r p" "list_all2 hup_ok rs ps'" by (cases ps) auto
  show ?case
  proof (cases "hup_unready (pf_events p) (pf_revents p)")
    case True
    then obtain w1 where "ru_cancel r w = Inr w1" "poll_results rs ps' w1 = Inr (kept, w')"
      using Cons.prems(4) by (auto simp: ps(1) hup_unready_def split: if_splits)
    moreover have "cancels hangs_up r w" using ps(2) True by (simp add: hup_ok_def cancels_def)
    ultimately show ?thesis using Cons.IH [of w1 ps' kept] Cons.prems(1,2) cancel_keeps [of r w w1] ps(3) by auto
  next
    case False
    then obtain w1 kept' where w1: "(if pf_revents p AND pf_events p \<noteq> 0 then service_rule r w else Inr w) = Inr w1"
      "poll_results rs ps' w1 = Inr (kept', w')" "kept = r # kept'"
      using Cons.prems(4) by (auto simp: ps(1) hup_unready_def split: if_splits)
    then have "Inv w1" using Cons.prems(1,2) service_keeps [of r w w1] by (auto split: if_splits)
    then show ?thesis using Cons.IH [of w1 ps' kept'] Cons.prems(1) w1(2,3) ps by auto
  qed
qed simp

lemma results_fail:
  assumes "set rs \<subseteq> set rules" and "Inv w" and "list_all2 hup_ok rs ps" and "poll_results rs ps w = Inl e"
  shows "fails e \<or> e = runtime_error ''EventLoop: error on polled file descriptor''"
  using assms
proof (induction rs arbitrary: ps w)
  case (Cons r rs)
  then obtain p ps' where ps: "ps = p # ps'" "hup_ok r p" "list_all2 hup_ok rs ps'" by (cases ps) auto
  have later: "fails e \<or> e = runtime_error ''EventLoop: error on polled file descriptor''"
    if "Inv w1" "poll_results rs ps' w1 = Inl e" for w1
    using Cons.IH [of w1 ps'] Cons.prems(1) that ps(3) by simp
  show ?case
  proof (cases "hup_unready (pf_events p) (pf_revents p)")
    case True
    then have "cancels hangs_up r w" using ps(2) by (simp add: hup_ok_def cancels_def)
    with True show ?thesis
      using Cons.prems later cancel_keeps [of r w] cancel_fails [of r w]
      by (auto simp: ps(1) hup_unready_def bindR_eq_Inl split: if_splits)
  next
    case False
    then show ?thesis
      using Cons.prems later service_keeps [of r w] service_fails [of r w]
      by (auto simp: ps(1) hup_unready_def bindR_eq_Inl split: if_splits)
  qed
qed simp

lemma polled_ok:
  assumes "list_all2 entry_of kept ps" and "set kept \<subseteq> set rules" and "Inv w"
    and "syscall K (Sys_poll (map (\<lambda>p. (pf_fd p, pf_events p)) ps) t) w = (ret, w')"
  shows "list_all2 hup_ok kept (store_revents ps (if b then [] else sr_revents ret))"
proof (rule list_all2_all_nthI)
  let ?es = "if b then [] else sr_revents ret"
  show len: "length kept = length (store_revents ps ?es)"
    using list_all2_lengthD [OF assms(1)] by (simp add: store_revents_def)
  fix m
  assume m: "m < length kept"
  let ?p = "ps ! m" and ?e = "(?es @ replicate (length ps) 0) ! m"
  have mp: "m < length ps" using m list_all2_lengthD [OF assms(1)] by simp
  then have p: "store_revents ps ?es ! m = ?p\<lparr>pf_revents := ?e\<rparr>" by (simp add: store_revents_def)
  have e: "entry_of (kept ! m) ?p" using assms(1) m by (rule list_all2_nthD)
  have "hangs_up (kept ! m)" if h: "hup_unready (pf_events ?p) ?e"
  proof -
    have "?e \<noteq> 0" using h by (auto simp: hup_unready_def)
    then have in_range: "\<not> b" "m < length (sr_revents ret)" using mp by (auto simp: nth_append split: if_splits)
    then have "((pf_fd ?p, pf_events ?p), ?e) \<in> set (zip (map (\<lambda>p. (pf_fd p, pf_events p)) ps) (sr_revents ret))"
      using mp by (auto simp: set_zip nth_append intro!: exI [of _ m])
    moreover obtain w0 where "Inv w0" "pf_fd ?p = fd_num w0 (ru_fd (kept ! m))" "pf_events ?p = direction_events (ru_direction (kept ! m))"
      using e h by (auto simp: entry_of_def hup_unready_def)
    moreover have "kept ! m \<in> set rules" using assms(2) m by (simp add: subset_iff)
    ultimately show ?thesis using poll_hangs [OF _ assms(3) _ assms(4), of "kept ! m" w0 ?e] h by simp
  qed
  then show "hup_ok (kept ! m) (store_revents ps ?es ! m)" by (simp add: p hup_ok_def)
qed

text \<open>A round of the loop keeps the invariant and can fail only as a callback does, or on a polled descriptor.\<close>

lemma wait_keeps:
  assumes "set rs \<subseteq> set rules" and "Inv w" and "wait_next_event K t rs w = Inr (res, rs', w')"
  shows "Inv w' \<and> set rs' \<subseteq> set rs"
proof -
  obtain kept ps b w1 where s: "setup_pollfds rs w = Inr (kept, ps, b, w1)" using assms(3) by (auto simp: wait_next_event_def)
  note k = setup_keeps [OF assms(1,2) s]
  obtain r w2 where p: "syscall K (Sys_poll (map (\<lambda>p. (pf_fd p, pf_events p)) ps) t) w1 = (r, w2)" by fastforce
  have i: "Inv w2" using poll_keeps [OF _ p] k by blast
  have "rs' = kept \<and> (w' = w1 \<or> w' = w2) \<or>
      poll_results kept (store_revents ps (if sint (sr_ret r) < 0 then [] else sr_revents r)) w2 = Inr (rs', w')"
    using assms(3) s p by (auto simp: wait_next_event_def Let_def split: if_splits sum.splits)
  moreover have sub: "set kept \<subseteq> set rules" using k assms(1) by blast
  moreover have "list_all2 hup_ok kept (store_revents ps (if sint (sr_ret r) < 0 then [] else sr_revents r))"
    using polled_ok [OF _ sub _ p] k by blast
  ultimately show ?thesis using k i results_keep [OF sub i, of _ rs' w'] by blast
qed

lemma wait_fails:
  assumes "set rs \<subseteq> set rules" and "Inv w" and "wait_next_event K t rs w = Inl e"
  shows "fails e \<or> e = runtime_error ''EventLoop: error on polled file descriptor''"
proof (cases "setup_pollfds rs w")
  case (Inl e')
  then show ?thesis using assms setup_fails by (simp add: wait_next_event_def)
next
  case (Inr x)
  then obtain kept ps b w1 where s: "setup_pollfds rs w = Inr (kept, ps, b, w1)" by (cases x) auto
  note k = setup_keeps [OF assms(1,2) s]
  obtain r w2 where p: "syscall K (Sys_poll (map (\<lambda>p. (pf_fd p, pf_events p)) ps) t) w1 = (r, w2)" by fastforce
  have i: "Inv w2" using poll_keeps [OF _ p] k by blast
  have "poll_results kept (store_revents ps (if sint (sr_ret r) < 0 then [] else sr_revents r)) w2 = Inl e"
    using assms(3) s p by (auto simp: wait_next_event_def Let_def bindR_eq_Inl split: if_splits sum.splits)
  moreover have sub: "set kept \<subseteq> set rules" using k assms(1) by blast
  moreover have "list_all2 hup_ok kept (store_revents ps (if sint (sr_ret r) < 0 then [] else sr_revents r))"
    using polled_ok [OF _ sub _ p] k by blast
  ultimately show ?thesis using results_fail [OF sub i] by blast
qed

end

section \<open>Leaving the loop\<close>

text \<open>
  When nothing is left to poll, every remaining rule has turned down; what the cancellations do not change
  is as the rule saw it.
\<close>

lemma setup_idle:
  assumes "\<And>r w w'. r \<in> set rs \<Longrightarrow> ru_cancel r w = Inr w' \<Longrightarrow> Q w' = Q w"
    and "setup_pollfds rs w = Inr (kept, ps, False, w')" and "r \<in> set kept"
  shows "Q w' = Q w \<and> (\<exists>w0. Q w0 = Q w \<and> \<not> ru_interest r w0)"
  using assms
proof (induction rs arbitrary: w kept ps)
  case (Cons r' rs)
  have stable: "\<And>r w w'. r \<in> set rs \<Longrightarrow> ru_cancel r w = Inr w' \<Longrightarrow> Q w' = Q w"
    by (rule Cons.prems(1)) simp_all
  have all: "Q w2 = Q w1" if "setup_pollfds rs w1 = Inr (k, p, b, w2)" for w1 w2 k p b
    using that stable by (induction rs arbitrary: w1 k p b) (fastforce simp: Let_def split: if_splits)+
  show ?case
  proof (cases "ru_direction r' = Dir_In \<and> fd_eof w (ru_fd r') \<or> fd_closed w (ru_fd r')")
    case True
    then obtain w1 where w1: "ru_cancel r' w = Inr w1" "setup_pollfds rs w1 = Inr (kept, ps, False, w')"
      using Cons.prems(2) by (auto split: if_splits)
    then show ?thesis using Cons.IH [OF stable w1(2) Cons.prems(3)] Cons.prems(1) [OF _ w1(1)] by simp
  next
    case False
    then obtain kept' ps' where k: "setup_pollfds rs w = Inr (kept', ps', False, w')" "kept = r' # kept'" "\<not> ru_interest r' w"
      using Cons.prems(2) by (auto simp: Let_def split: if_splits)
    then show ?thesis using Cons.IH [OF stable k(1)] all [OF k(1)] Cons.prems(3) by auto
  qed
qed simp

lemma wait_exit:
  assumes "wait_next_event K t rules w = Inr (Exit, rules', w')"
  shows "(\<exists>ps. setup_pollfds rules w = Inr (rules', ps, False, w')) \<or>
    (\<exists>ps w1 r. syscall K (Sys_poll ps t) w1 = (r, w') \<and> sr_errno r = EINTR)"
proof -
  obtain kept ps b w1 where s: "setup_pollfds rules w = Inr (kept, ps, b, w1)" using assms by (auto simp: wait_next_event_def)
  obtain r w2 where p: "syscall K (Sys_poll (map (\<lambda>p. (pf_fd p, pf_events p)) ps) t) w1 = (r, w2)" by fastforce
  show ?thesis
  proof (cases b)
    case True
    have "w' = w2" "sr_errno r = EINTR"
      using assms s p True by (auto simp: wait_next_event_def Let_def split: if_splits sum.splits)
    then show ?thesis using p by blast
  next
    case False
    then show ?thesis using assms s by (auto simp: wait_next_event_def)
  qed
qed

section \<open>Errors of poll\<close>

lemma poll_results_quiet: "\<forall>p \<in> set ps. pf_revents p = 0 \<Longrightarrow> length rs \<le> length ps \<Longrightarrow> poll_results rs ps w = Inr (rs, w)"
proof (induction rs arbitrary: ps)
  case (Cons r rs)
  then show ?case by (cases ps) simp_all
qed simp

lemma setup_lengths: "setup_pollfds rs w = Inr (kept, ps, b, w') \<Longrightarrow> length ps = length kept \<and> (\<forall>p \<in> set ps. pf_revents p = 0)"
  by (induction rs arbitrary: w kept ps b) (fastforce simp: Let_def split: if_splits)+

lemma store_nothing: "\<forall>p \<in> set ps. pf_revents p = 0 \<Longrightarrow> store_revents ps [] = ps"
  by (auto simp: store_revents_def intro!: nth_equalityI)

text \<open>
  C37. When \<open>poll\<close> fails with anything but an interrupt, \<open>wait_next_event\<close> does not throw: it goes on to look at entries
  that \<open>poll\<close> has not filled in, calls no callback and reports success, so that the caller polls again at once.
\<close>

theorem poll_error_ignored:
  assumes "setup_pollfds rules w = Inr (kept, pollfds, True, w1)"
    and "syscall K (Sys_poll (map (\<lambda>p. (pf_fd p, pf_events p)) pollfds) timeout_ms) w1 = (r, w2)"
    and "sint (sr_ret r) < 0" and "sr_errno r \<noteq> EINTR"
  shows "wait_next_event K timeout_ms rules w = Inr (Success, kept, w2)"
proof -
  note s = setup_lengths [OF assms(1)]
  have "poll_results kept pollfds w2 = Inr (kept, w2)" using s by (intro poll_results_quiet) simp_all
  then show ?thesis
    using assms s by (simp add: wait_next_event_def store_nothing SystemCall_def split: sum.splits)
qed

definition deaf_kernel :: "nat kernel" where
  "deaf_kernel c k = ((sys_ok (- 1))\<lparr>sr_errno := 22\<rparr>, k + 1)"

theorem poll_error_ignored_witness:
  "let fw = \<lparr>fw_fd = 0, fw_eof = False, fw_closed = False, fw_read_count = 0, fw_write_count = 0\<rparr>;
       w = \<lparr>wd_kernel = 0, wd_heap = (\<lambda>_. fw), wd_next = 1\<rparr>;
       rule = \<lparr>ru_fd = 0, ru_direction = Dir_In, ru_callback = (\<lambda>w. Inl (runtime_error ''called'')), ru_interest = (\<lambda>_. True), ru_cancel = Inr\<rparr>
   in wait_next_event deaf_kernel 10 [rule] w = Inr (Success, [rule], w\<lparr>wd_kernel := 1\<rparr>)"
proof -
  let ?fw = "\<lparr>fw_fd = 0, fw_eof = False, fw_closed = False, fw_read_count = 0, fw_write_count = 0\<rparr>"
  let ?w = "\<lparr>wd_kernel = 0 :: nat, wd_heap = (\<lambda>_. ?fw), wd_next = 1\<rparr>"
  let ?rule = "\<lparr>ru_fd = 0, ru_direction = Dir_In, ru_callback = (\<lambda>w. Inl (runtime_error ''called'')), ru_interest = (\<lambda>_. True), ru_cancel = Inr\<rparr>"
  have s: "setup_pollfds [?rule] ?w = Inr ([?rule], [\<lparr>pf_fd = 0, pf_events = POLLIN, pf_revents = 0\<rparr>], True, ?w)"
    by (simp add: fd_eof_def fd_closed_def fd_num_def)
  have p: "syscall deaf_kernel c ?w = ((sys_ok (- 1))\<lparr>sr_errno := 22\<rparr>, ?w\<lparr>wd_kernel := 1\<rparr>)" for c
    by (simp add: syscall_def deaf_kernel_def)
  show ?thesis unfolding Let_def by (rule poll_error_ignored [OF s p]) (simp_all add: sys_ok_def)
qed

end
