(* ===== verification/Net_Socket.thy ===== *)
theory Net_Socket
  imports File_Descriptor Datagram_Adapters
begin

text \<open>
  The socket classes (\<open>socket.hh\<close>, \<open>socket.cc\<close>), \<open>TunTapFD\<close> (\<open>tun.cc\<close>) and the datagram adapters
  joined with the descriptor they read and write, as the record of operations \<open>AdaptT\<close> that
  the template \<open>TCPSpongeSocket\<close> uses.
\<close>

unbundle bit_operations_syntax

section \<open>Sockets\<close>

abbreviation AF_UNIX :: int where "AF_UNIX \<equiv> 1"
abbreviation SOCK_STREAM :: int where "SOCK_STREAM \<equiv> 1"
abbreviation SOCK_DGRAM :: int where "SOCK_DGRAM \<equiv> 2"
abbreviation SOL_SOCKET :: int where "SOL_SOCKET \<equiv> 1"
abbreviation SO_REUSEADDR :: int where "SO_REUSEADDR \<equiv> 2"
abbreviation SO_TYPE :: int where "SO_TYPE \<equiv> 3"
abbreviation SO_DOMAIN :: int where "SO_DOMAIN \<equiv> 39"
abbreviation SHUT_RD :: int where "SHUT_RD \<equiv> 0"
abbreviation SHUT_WR :: int where "SHUT_WR \<equiv> 1"
abbreviation SHUT_RDWR :: int where "SHUT_RDWR \<equiv> 2"

definition Socket_new ::
  "'k kernel \<Rightarrow> int \<Rightarrow> int \<Rightarrow> ('k, 'z) world_scheme \<Rightarrow> (FileDescriptor \<times> ('k, 'z) world_scheme) res" where
  "Socket_new K domn ty w =
     (let (r, w) = syscall K (Sys_socket domn ty) w
      in bindR (SystemCall ''socket'' r 0) (\<lambda>fd. FileDescriptor_new fd w))"

definition Socket_of_fd ::
  "'k kernel \<Rightarrow> FileDescriptor \<Rightarrow> int \<Rightarrow> int \<Rightarrow> ('k, 'z) world_scheme \<Rightarrow> (FileDescriptor \<times> ('k, 'z) world_scheme) res" where
  "Socket_of_fd K fd domn ty w =
     (let (r, w) = syscall K (Sys_getsockopt (fd_num w fd) SOL_SOCKET SO_DOMAIN) w
      in bindR (SystemCall ''getsockopt'' r 0) (\<lambda>_.
         if sr_len r \<noteq> 4 \<or> sr_value r \<noteq> domn then Inl (runtime_error ''socket domain mismatch'')
         else
           let (r, w) = syscall K (Sys_getsockopt (fd_num w fd) SOL_SOCKET SO_TYPE) w
           in bindR (SystemCall ''getsockopt'' r 0) (\<lambda>_.
              if sr_len r \<noteq> 4 \<or> sr_value r \<noteq> ty then Inl (runtime_error ''socket type mismatch'')
              else Inr (fd, w))))"

definition Socket_get_address ::
  "'k kernel \<Rightarrow> string \<Rightarrow> (int \<Rightarrow> sys_call) \<Rightarrow> FileDescriptor \<Rightarrow> ('k, 'z) world_scheme \<Rightarrow> (Address \<times> ('k, 'z) world_scheme) res" where
  "Socket_get_address K name_of_function call fd w =
     (let (r, w) = syscall K (call (fd_num w fd)) w
      in bindR (SystemCall name_of_function r 0) (\<lambda>_.
         bindR (Address_of_sockaddr (resize (sr_addr r) sizeof_sockaddr_storage) (sr_len r)) (\<lambda>a. Inr (a, w))))"

definition Socket_local_address where
  "Socket_local_address K fd w = Socket_get_address K ''getsockname'' Sys_getsockname fd w"

definition Socket_peer_address where
  "Socket_peer_address K fd w = Socket_get_address K ''getpeername'' Sys_getpeername fd w"

definition Socket_bind :: "'k kernel \<Rightarrow> FileDescriptor \<Rightarrow> Address \<Rightarrow> ('k, 'z) world_scheme \<Rightarrow> ('k, 'z) world_scheme res" where
  "Socket_bind K fd address w =
     (let (r, w) = syscall K (Sys_bind (fd_num w fd) (addr_storage address) (addr_size address)) w
      in bindR (SystemCall ''bind'' r 0) (\<lambda>_. Inr w))"

definition Socket_connect :: "'k kernel \<Rightarrow> FileDescriptor \<Rightarrow> Address \<Rightarrow> ('k, 'z) world_scheme \<Rightarrow> ('k, 'z) world_scheme res" where
  "Socket_connect K fd address w =
     (let (r, w) = syscall K (Sys_connect (fd_num w fd) (addr_storage address) (addr_size address)) w
      in bindR (SystemCall ''connect'' r 0) (\<lambda>_. Inr w))"

definition Socket_shutdown :: "'k kernel \<Rightarrow> FileDescriptor \<Rightarrow> int \<Rightarrow> ('k, 'z) world_scheme \<Rightarrow> ('k, 'z) world_scheme res" where
  "Socket_shutdown K fd how w =
     (let (r, w) = syscall K (Sys_shutdown (fd_num w fd) how) w
      in bindR (SystemCall ''shutdown'' r 0) (\<lambda>_.
         if how = SHUT_RD then Inr (register_read fd w)
         else if how = SHUT_WR then Inr (register_write fd w)
         else if how = SHUT_RDWR then Inr (register_write fd (register_read fd w))
         else Inl (runtime_error ''Socket::shutdown() called with invalid `how`'')))"

definition Socket_setsockopt ::
  "'k kernel \<Rightarrow> FileDescriptor \<Rightarrow> int \<Rightarrow> int \<Rightarrow> int \<Rightarrow> ('k, 'z) world_scheme \<Rightarrow> ('k, 'z) world_scheme res" where
  "Socket_setsockopt K fd level opt option_value w =
     (let (r, w) = syscall K (Sys_setsockopt (fd_num w fd) level opt option_value) w
      in bindR (SystemCall ''setsockopt'' r 0) (\<lambda>_. Inr w))"

definition Socket_set_reuseaddr where
  "Socket_set_reuseaddr K fd w = Socket_setsockopt K fd SOL_SOCKET SO_REUSEADDR 1 w"

section \<open>UDP, TCP and local sockets\<close>

definition UDPSocket_new where
  "UDPSocket_new K w = Socket_new K (int AF_INET) SOCK_DGRAM w"

definition UDPSocket_of_fd where
  "UDPSocket_of_fd K fd w = Socket_of_fd K fd (int AF_INET) SOCK_DGRAM w"

text \<open>
  \<open>recvfrom\<close> fills at most \<open>mtu\<close> bytes and, with \<open>MSG_TRUNC\<close>, returns the length of the datagram.
\<close>

definition UDPSocket_recv_into ::
  "'k kernel \<Rightarrow> FileDescriptor \<Rightarrow> received_datagram \<Rightarrow> size_t \<Rightarrow> ('k, 'z) world_scheme \<Rightarrow>
   (received_datagram \<times> ('k, 'z) world_scheme) res" where
  "UDPSocket_recv_into K fd datagram mtu w =
     (let (r, w) = syscall K (Sys_recvfrom (fd_num w fd) mtu) w;
          payload = resize (sr_data r) mtu
      in bindR (SystemCall ''recvfrom'' r 0) (\<lambda>recv_len.
         if recv_len > to_ssize mtu then Inl (runtime_error ''recvfrom (oversized datagram)'')
         else
           let w = register_read fd w
           in bindR (Address_of_sockaddr (resize (sr_addr r) sizeof_sockaddr_storage) (sr_len r)) (\<lambda>source.
              if recv_len < 0 then Inl (length_error ''basic_string::resize'')
              else Inr (datagram\<lparr>rd_source_address := source, rd_payload := resize payload (nat recv_len)\<rparr>, w))))"

definition UDPSocket_recv ::
  "'k kernel \<Rightarrow> FileDescriptor \<Rightarrow> size_t \<Rightarrow> ('k, 'z) world_scheme \<Rightarrow> (received_datagram \<times> ('k, 'z) world_scheme) res" where
  "UDPSocket_recv K fd mtu w =
     bindR (Address_of_sockaddr [] 0) (\<lambda>a. UDPSocket_recv_into K fd \<lparr>rd_source_address = a, rd_payload = []\<rparr> mtu w)"

definition sendmsg_helper ::
  "'k kernel \<Rightarrow> int \<Rightarrow> (byte list \<times> size_t) option \<Rightarrow> BufferViewList \<Rightarrow> ('k, 'z) world_scheme \<Rightarrow> ('k, 'z) world_scheme res" where
  "sendmsg_helper K fdn destination payload w =
     (let (r, w) = syscall K (Sys_sendmsg fdn destination (BufferViewList_as_iovecs payload)) w
      in bindR (SystemCall ''sendmsg'' r 0) (\<lambda>bytes_sent.
         if to_size bytes_sent \<noteq> BufferViewList_size payload
         then Inl (runtime_error ''datagram payload too big for sendmsg()'') else Inr w))"

definition UDPSocket_sendto ::
  "'k kernel \<Rightarrow> FileDescriptor \<Rightarrow> Address \<Rightarrow> BufferViewList \<Rightarrow> ('k, 'z) world_scheme \<Rightarrow> ('k, 'z) world_scheme res" where
  "UDPSocket_sendto K fd destination payload w =
     bindR (sendmsg_helper K (fd_num w fd) (Some (addr_storage destination, addr_size destination)) payload w) (\<lambda>w.
       Inr (register_write fd w))"

definition UDPSocket_send :: "'k kernel \<Rightarrow> FileDescriptor \<Rightarrow> BufferViewList \<Rightarrow> ('k, 'z) world_scheme \<Rightarrow> ('k, 'z) world_scheme res" where
  "UDPSocket_send K fd payload w =
     bindR (sendmsg_helper K (fd_num w fd) None payload w) (\<lambda>w. Inr (register_write fd w))"

definition TCPSocket_new where
  "TCPSocket_new K w = Socket_new K (int AF_INET) SOCK_STREAM w"

definition TCPSocket_of_fd where
  "TCPSocket_of_fd K fd w = Socket_of_fd K fd (int AF_INET) SOCK_STREAM w"

definition TCPSocket_listen :: "'k kernel \<Rightarrow> FileDescriptor \<Rightarrow> int \<Rightarrow> ('k, 'z) world_scheme \<Rightarrow> ('k, 'z) world_scheme res" where
  "TCPSocket_listen K fd backlog w =
     (let (r, w) = syscall K (Sys_listen (fd_num w fd) backlog) w
      in bindR (SystemCall ''listen'' r 0) (\<lambda>_. Inr w))"

definition TCPSocket_accept ::
  "'k kernel \<Rightarrow> FileDescriptor \<Rightarrow> ('k, 'z) world_scheme \<Rightarrow> (FileDescriptor \<times> ('k, 'z) world_scheme) res" where
  "TCPSocket_accept K fd w =
     (let (r, w) = syscall K (Sys_accept (fd_num w fd)) (register_read fd w)
      in bindR (SystemCall ''accept'' r 0) (\<lambda>new_fd.
         bindR (FileDescriptor_new new_fd w) (\<lambda>(fd, w). TCPSocket_of_fd K fd w)))"

definition LocalStreamSocket_of_fd where
  "LocalStreamSocket_of_fd K fd w = Socket_of_fd K fd AF_UNIX SOCK_STREAM w"

definition socket_pair_helper ::
  "'k kernel \<Rightarrow> int \<Rightarrow> ('k, 'z) world_scheme \<Rightarrow> ((FileDescriptor \<times> FileDescriptor) \<times> ('k, 'z) world_scheme) res" where
  "socket_pair_helper K ty w =
     (let (r, w) = syscall K (Sys_socketpair ty) w
      in bindR (SystemCall ''socketpair'' r 0) (\<lambda>_.
         bindR (FileDescriptor_new (fst (sr_fds r)) w) (\<lambda>(fd0, w).
         bindR (FileDescriptor_new (snd (sr_fds r)) w) (\<lambda>(fd1, w). Inr ((fd0, fd1), w)))))"

section \<open>TUN devices\<close>

abbreviation CLONEDEV :: string where "CLONEDEV \<equiv> ''/dev/net/tun''"
abbreviation O_RDWR :: int where "O_RDWR \<equiv> 2"
abbreviation IFNAMSIZ :: nat where "IFNAMSIZ \<equiv> 16"

definition TunTapFD_new ::
  "'k kernel \<Rightarrow> string \<Rightarrow> bool \<Rightarrow> ('k, 'z) world_scheme \<Rightarrow> (FileDescriptor \<times> ('k, 'z) world_scheme) res" where
  "TunTapFD_new K devname is_tun w =
     (let (r, w) = syscall K (Sys_open CLONEDEV O_RDWR) w
      in bindR (SystemCall ''open'' r 0) (\<lambda>n.
         bindR (FileDescriptor_new n w) (\<lambda>(fd, w).
           let flags = (if is_tun then 1 else 2) OR 0x1000;
               ifr_name = take (IFNAMSIZ - 1) devname;
               (r, w) = syscall K (Sys_tunsetiff (fd_num w fd) flags ifr_name) w
           in bindR (SystemCall ''ioctl'' r 0) (\<lambda>_. Inr (fd, w)))))"

definition TunFD_new where
  "TunFD_new K devname w = TunTapFD_new K devname True w"

definition TapFD_new where
  "TapFD_new K devname w = TunTapFD_new K devname False w"

section \<open>Adapters on descriptors\<close>

text \<open>
  What the template \<open>TCPSpongeSocket\<close> asks of its adapter type. The adapters over a UDP socket and over a TUN device
  are a descriptor and the state \<open>FdAdapterBase\<close>; the lossy adapter wraps another one.
\<close>

record ('a, 'w) AdaptT =
  ad_fd :: "'a \<Rightarrow> FileDescriptor"
  ad_read :: "'a \<Rightarrow> 'w \<Rightarrow> (('a \<times> TCPSegment option) \<times> 'w) res"
  ad_write :: "'a \<Rightarrow> TCPSegment \<Rightarrow> 'w \<Rightarrow> ('a \<times> 'w) res"
  ad_config :: "'a \<Rightarrow> FdAdapterConfig"
  ad_config_mut :: "'a \<Rightarrow> FdAdapterConfig \<Rightarrow> 'a"
  ad_set_listening :: "'a \<Rightarrow> bool \<Rightarrow> 'a"
  ad_tick :: "'a \<Rightarrow> size_t \<Rightarrow> 'a"

definition TCPOverUDPSocketAdapter ::
  "resolver \<Rightarrow> 'k kernel \<Rightarrow> (FileDescriptor \<times> FdAdapterBase, ('k, 'z) world_scheme) AdaptT" where
  "TCPOverUDPSocketAdapter rs K =
     \<lparr>ad_fd = fst,
      ad_read = (\<lambda>(sock, a) w. bindR (UDPSocket_recv K sock 65536 w) (\<lambda>(datagram, w).
        bindR (UDPSocketAdapter_read a datagram) (\<lambda>(a, seg). Inr (((sock, a), seg), w)))),
      ad_write = (\<lambda>(sock, a) seg w. bindR (UDPSocketAdapter_write rs a seg) (\<lambda>(destination, payload).
        bindR (UDPSocket_sendto K sock destination (BufferViewList_of_list payload) w) (\<lambda>w. Inr ((sock, a), w)))),
      ad_config = (\<lambda>(sock, a). fa_cfg a),
      ad_config_mut = (\<lambda>(sock, a) cfg. (sock, FdAdapterBase_config_mut a cfg)),
      ad_set_listening = (\<lambda>(sock, a) l. (sock, FdAdapterBase_set_listening a l)),
      ad_tick = (\<lambda>(sock, a) ms. (sock, FdAdapterBase_tick a ms))\<rparr>"

definition TCPOverIPv4OverTunFdAdapter ::
  "resolver \<Rightarrow> 'k kernel \<Rightarrow> (FileDescriptor \<times> FdAdapterBase, ('k, 'z) world_scheme) AdaptT" where
  "TCPOverIPv4OverTunFdAdapter rs K =
     \<lparr>ad_fd = fst,
      ad_read = (\<lambda>(tun, a) w. bindR (FileDescriptor_read K tun ULLONG_MAX w) (\<lambda>(data, w).
        bindR (TunFdAdapter_read rs a data) (\<lambda>(a, seg). Inr (((tun, a), seg), w)))),
      ad_write = (\<lambda>(tun, a) seg w. bindR (TunFdAdapter_write rs a seg) (\<lambda>bl.
        bindR (FileDescriptor_write K tun (BufferViewList_of_list bl) True w) (\<lambda>(n, w). Inr ((tun, a), w)))),
      ad_config = (\<lambda>(tun, a). fa_cfg a),
      ad_config_mut = (\<lambda>(tun, a) cfg. (tun, FdAdapterBase_config_mut a cfg)),
      ad_set_listening = (\<lambda>(tun, a) l. (tun, FdAdapterBase_set_listening a l)),
      ad_tick = (\<lambda>(tun, a) ms. (tun, FdAdapterBase_tick a ms))\<rparr>"

definition LossyAdapter :: "('g \<Rightarrow> 32 word \<times> 'g) \<Rightarrow> ('a, 'w) AdaptT \<Rightarrow> (('a, 'g) LossyFdAdapter, 'w) AdaptT" where
  "LossyAdapter rng A =
     \<lparr>ad_fd = (\<lambda>l. ad_fd A (lf_adapter l)),
      ad_read = (\<lambda>l w. bindR (LossyFdAdapter_read rng (\<lambda>(a, w). ad_config A a)
          (\<lambda>(a, w) _. bindR (ad_read A a w) (\<lambda>((a, seg), w). Inr ((a, w), seg)))
          \<lparr>lf_rand = lf_rand l, lf_adapter = (lf_adapter l, w)\<rparr> ())
        (\<lambda>(l, seg). Inr ((\<lparr>lf_rand = lf_rand l, lf_adapter = fst (lf_adapter l)\<rparr>, seg), snd (lf_adapter l)))),
      ad_write = (\<lambda>l seg w. bindR (LossyFdAdapter_write rng (ad_config A) (\<lambda>a seg. ad_write A a seg w) l seg)
        (\<lambda>(l, written). case written of None \<Rightarrow> Inr (l, w) | Some (a, w) \<Rightarrow> Inr (l\<lparr>lf_adapter := a\<rparr>, w))),
      ad_config = (\<lambda>l. ad_config A (lf_adapter l)),
      ad_config_mut = (\<lambda>l cfg. l\<lparr>lf_adapter := ad_config_mut A (lf_adapter l) cfg\<rparr>),
      ad_set_listening = (\<lambda>l b. LossyFdAdapter_set_listening l (ad_set_listening A) b),
      ad_tick = (\<lambda>l ms. LossyFdAdapter_tick l (ad_tick A) ms)\<rparr>"

text \<open>
  The contract with the descriptor: a read is counted and touches only the adapter's descriptor, whatever
  comes of the datagram; a write touches nothing else; neither gives the adapter another descriptor.
\<close>

locale fd_adapter =
  fixes A :: "('a, ('k, 'z) world_scheme) AdaptT"
  assumes read_serves: "ad_read A a w = Inr ((a', seg), w') \<Longrightarrow>
      touches (ad_fd A a) w w' \<and> ad_fd A a' = ad_fd A a \<and> fd_read_count w' (ad_fd A a) = fd_read_count w (ad_fd A a) + 1"
    and write_serves: "ad_write A a s w = Inr (a', w') \<Longrightarrow> touches (ad_fd A a) w w' \<and> ad_fd A a' = ad_fd A a"
    and same_fd: "ad_fd A (ad_tick A a ms) = ad_fd A a" "ad_fd A (ad_config_mut A a cfg) = ad_fd A a"
      "ad_fd A (ad_set_listening A a b) = ad_fd A a"
begin

lemma lossy_same_fd:
  "ad_fd (LossyAdapter rng A) (ad_tick (LossyAdapter rng A) l ms) = ad_fd (LossyAdapter rng A) l"
  "ad_fd (LossyAdapter rng A) (ad_config_mut (LossyAdapter rng A) l cfg) = ad_fd (LossyAdapter rng A) l"
  "ad_fd (LossyAdapter rng A) (ad_set_listening (LossyAdapter rng A) l b) = ad_fd (LossyAdapter rng A) l"
  by (simp_all add: LossyAdapter_def LossyFdAdapter_tick_def LossyFdAdapter_set_listening_def same_fd)

lemma lossy_read_serves:
  assumes "ad_read (LossyAdapter rng A) l w = Inr ((l', seg), w')"
  shows "touches (ad_fd (LossyAdapter rng A) l) w w' \<and> ad_fd (LossyAdapter rng A) l' = ad_fd (LossyAdapter rng A) l \<and>
    fd_read_count w' (ad_fd (LossyAdapter rng A) l) = fd_read_count w (ad_fd (LossyAdapter rng A) l) + 1"
  using assms read_serves [of "lf_adapter l" w]
  by (auto simp: LossyAdapter_def LossyFdAdapter_read_def LossyFdAdapter_should_drop_def Let_def split: prod.splits if_splits)

lemma lossy_write_serves:
  assumes "ad_write (LossyAdapter rng A) l s w = Inr (l', w')"
  shows "touches (ad_fd (LossyAdapter rng A) l) w w' \<and> ad_fd (LossyAdapter rng A) l' = ad_fd (LossyAdapter rng A) l"
  using assms write_serves [of "lf_adapter l" s w] touches_kernel [of "ad_fd A (lf_adapter l)" w "wd_kernel w"]
  by (auto simp: LossyAdapter_def LossyFdAdapter_write_def LossyFdAdapter_should_drop_def Let_def split: prod.splits if_splits option.splits)

end

lemma UDPSocket_recv_effect:
  assumes "UDPSocket_recv K fd mtu w = Inr (datagram, w')"
  shows "touches fd w w' \<and> fd_read_count w' fd = fd_read_count w fd + 1"
proof -
  obtain r w1 where r: "syscall K (Sys_recvfrom (fd_num w fd) mtu) w = (r, w1)" by fastforce
  then have "w' = register_read fd w1"
    using assms by (auto simp: UDPSocket_recv_def UDPSocket_recv_into_def Let_def split: if_splits)
  then show ?thesis
    using touches_trans [OF syscall_touches [OF r] register_touches(1)] syscall_heap [OF r]
    by (simp add: register_read_def fd_update_def fd_read_count_def)
qed

lemma UDPSocket_sendto_effect:
  assumes "UDPSocket_sendto K fd destination payload w = Inr w'"
  shows "touches fd w w'"
proof -
  let ?c = "Sys_sendmsg (fd_num w fd) (Some (addr_storage destination, addr_size destination)) payload"
  obtain r w1 where r: "syscall K ?c w = (r, w1)" by fastforce
  then have "w' = register_write fd w1"
    using assms by (auto simp: UDPSocket_sendto_def sendmsg_helper_def Let_def split: if_splits)
  then show ?thesis using touches_trans [OF syscall_touches [OF r] register_touches(2)] by simp
qed

lemma FileDescriptor_read_counts:
  assumes "FileDescriptor_read K fd limit w = Inr (str, w')"
  shows "touches fd w w' \<and> fd_read_count w' fd = fd_read_count w fd + 1"
proof -
  obtain r k where "touches fd w w'" "fd_read_count w' fd = fd_read_count w fd + 1" by (rule FileDescriptor_read_effect [OF assms])
  then show ?thesis by blast
qed

interpretation udp_fd: fd_adapter "TCPOverUDPSocketAdapter rs K" for rs K
  by unfold_locales
    (auto simp: TCPOverUDPSocketAdapter_def dest: UDPSocket_recv_effect UDPSocket_sendto_effect)

interpretation tun_fd: fd_adapter "TCPOverIPv4OverTunFdAdapter rs K" for rs K
  by unfold_locales
    (auto simp: TCPOverIPv4OverTunFdAdapter_def dest: FileDescriptor_read_counts FileDescriptor_write_touches)

interpretation lossy_udp_fd: fd_adapter "LossyAdapter rng (TCPOverUDPSocketAdapter rs K)" for rng rs K
  by unfold_locales (fact udp_fd.lossy_read_serves udp_fd.lossy_write_serves udp_fd.lossy_same_fd)+

interpretation lossy_tun_fd: fd_adapter "LossyAdapter rng (TCPOverIPv4OverTunFdAdapter rs K)" for rng rs K
  by unfold_locales (fact tun_fd.lossy_read_serves tun_fd.lossy_write_serves tun_fd.lossy_same_fd)+

end
