(* ===== verification/Stream_Copy.thy ===== *)
theory Stream_Copy
  imports Event_Loop Net_Socket Byte_Stream
begin

text \<open>
  \<open>bidirectional_stream_copy\<close> (\<open>apps/bidirectional_stream_copy.cc\<close>): the loop of the command-line programs that
  copies standard input to a socket and the socket to standard output. The locals that the four rules capture are
  fields beside the world.
\<close>

section \<open>The rules\<close>

record 'k copy_world = "'k world" +
  cp_socket :: FileDescriptor
  cp_input :: FileDescriptor
  cp_output :: FileDescriptor
  cp_outbound :: ByteStream
  cp_inbound :: ByteStream
  cp_outbound_shutdown :: bool
  cp_inbound_shutdown :: bool

abbreviation max_copy_length :: size_t where "max_copy_length \<equiv> 65536"
abbreviation buffer_size :: size_t where "buffer_size \<equiv> 1048576"
abbreviation STDIN_FILENO :: int where "STDIN_FILENO \<equiv> 0"
abbreviation STDOUT_FILENO :: int where "STDOUT_FILENO \<equiv> 1"

definition copy_rule1_callback :: "'k kernel \<Rightarrow> 'k copy_world \<Rightarrow> 'k copy_world res" where
  "copy_rule1_callback K w =
     bindR (FileDescriptor_read K (cp_input w) (ByteStream_remaining_capacity (cp_outbound w)) w) (\<lambda>(data, w).
       let w = w\<lparr>cp_outbound := fst (ByteStream_write (cp_outbound w) data)\<rparr>
       in Inr (if fd_eof w (cp_input w) then w\<lparr>cp_outbound := ByteStream_end_input (cp_outbound w)\<rparr> else w))"

definition copy_rule1_interest :: "'k copy_world \<Rightarrow> bool" where
  "copy_rule1_interest w \<longleftrightarrow> \<not> bs_error (cp_outbound w) \<and> ByteStream_remaining_capacity (cp_outbound w) > 0 \<and> \<not> bs_error (cp_inbound w)"

definition copy_end_outbound :: "'k copy_world \<Rightarrow> 'k copy_world res" where
  "copy_end_outbound w = Inr (w\<lparr>cp_outbound := ByteStream_end_input (cp_outbound w)\<rparr>)"

definition copy_rule2_callback :: "'k kernel \<Rightarrow> 'k copy_world \<Rightarrow> 'k copy_world res" where
  "copy_rule2_callback K w =
     (let bytes_to_write = min max_copy_length (ByteStream_buffer_size (cp_outbound w))
      in bindR (FileDescriptor_write K (cp_socket w)
           (BufferViewList_of_string (ByteStream_peek_output (cp_outbound w) bytes_to_write)) False w) (\<lambda>(bytes_written, w).
         let w = w\<lparr>cp_outbound := ByteStream_pop_output (cp_outbound w) bytes_written\<rparr>
         in if ByteStream_eof (cp_outbound w)
            then bindR (Socket_shutdown K (cp_socket w) SHUT_WR w) (\<lambda>w. Inr (w\<lparr>cp_outbound_shutdown := True\<rparr>))
            else Inr w))"

definition copy_rule2_interest :: "'k copy_world \<Rightarrow> bool" where
  "copy_rule2_interest w \<longleftrightarrow>
     \<not> ByteStream_buffer_empty (cp_outbound w) \<or> (ByteStream_eof (cp_outbound w) \<and> \<not> cp_outbound_shutdown w)"

definition copy_rule3_callback :: "'k kernel \<Rightarrow> 'k copy_world \<Rightarrow> 'k copy_world res" where
  "copy_rule3_callback K w =
     bindR (FileDescriptor_read K (cp_socket w) (ByteStream_remaining_capacity (cp_inbound w)) w) (\<lambda>(data, w).
       let w = w\<lparr>cp_inbound := fst (ByteStream_write (cp_inbound w) data)\<rparr>
       in Inr (if fd_eof w (cp_socket w) then w\<lparr>cp_inbound := ByteStream_end_input (cp_inbound w)\<rparr> else w))"

definition copy_rule3_interest :: "'k copy_world \<Rightarrow> bool" where
  "copy_rule3_interest w \<longleftrightarrow> \<not> bs_error (cp_inbound w) \<and> ByteStream_remaining_capacity (cp_inbound w) > 0 \<and> \<not> bs_error (cp_outbound w)"

definition copy_end_inbound :: "'k copy_world \<Rightarrow> 'k copy_world res" where
  "copy_end_inbound w = Inr (w\<lparr>cp_inbound := ByteStream_end_input (cp_inbound w)\<rparr>)"

definition copy_rule4_callback :: "'k kernel \<Rightarrow> 'k copy_world \<Rightarrow> 'k copy_world res" where
  "copy_rule4_callback K w =
     (let bytes_to_write = min max_copy_length (ByteStream_buffer_size (cp_inbound w))
      in bindR (FileDescriptor_write K (cp_output w)
           (BufferViewList_of_string (ByteStream_peek_output (cp_inbound w) bytes_to_write)) False w) (\<lambda>(bytes_written, w).
         let w = w\<lparr>cp_inbound := ByteStream_pop_output (cp_inbound w) bytes_written\<rparr>
         in if ByteStream_eof (cp_inbound w)
            then bindR (FDWrapper_close K (cp_output w) w) (\<lambda>w. Inr (w\<lparr>cp_inbound_shutdown := True\<rparr>))
            else Inr w))"

definition copy_rule4_interest :: "'k copy_world \<Rightarrow> bool" where
  "copy_rule4_interest w \<longleftrightarrow>
     \<not> ByteStream_buffer_empty (cp_inbound w) \<or> (ByteStream_eof (cp_inbound w) \<and> \<not> cp_inbound_shutdown w)"

definition copy_rules :: "'k kernel \<Rightarrow> FileDescriptor \<Rightarrow> FileDescriptor \<Rightarrow> FileDescriptor \<Rightarrow> 'k copy_world Rule list" where
  "copy_rules K socket input outfd =
     (let rules = add_rule [] input Dir_In (copy_rule1_callback K) copy_rule1_interest copy_end_outbound;
          rules = add_rule rules socket Dir_Out (copy_rule2_callback K) copy_rule2_interest copy_end_outbound;
          rules = add_rule rules socket Dir_In (copy_rule3_callback K) copy_rule3_interest copy_end_inbound
      in add_rule rules outfd Dir_Out (copy_rule4_callback K) copy_rule4_interest copy_end_inbound)"

text \<open>Everything before the loop.\<close>

definition copy_start :: "'k kernel \<Rightarrow> FileDescriptor \<Rightarrow> 'k copy_world \<Rightarrow> ('k copy_world Rule list \<times> 'k copy_world) res" where
  "copy_start K socket w =
     bindR (FileDescriptor_new STDIN_FILENO w) (\<lambda>(input, w).
     bindR (FileDescriptor_new STDOUT_FILENO w) (\<lambda>(outfd, w).
       let w = w\<lparr>cp_socket := socket, cp_input := input, cp_output := outfd, cp_outbound := ByteStream_new buffer_size,
         cp_inbound := ByteStream_new buffer_size, cp_outbound_shutdown := False, cp_inbound_shutdown := False\<rparr>
       in bindR (FileDescriptor_set_blocking K socket False w) (\<lambda>w.
          bindR (FileDescriptor_set_blocking K input False w) (\<lambda>w.
          bindR (FileDescriptor_set_blocking K outfd False w) (\<lambda>w.
            Inr (copy_rules K socket input outfd, w))))))"

text \<open>The loop runs as long as there is something to wait for, so that not returning is \<open>None\<close>.\<close>

partial_function (option) copy_loop :: "'k kernel \<Rightarrow> 'k copy_world Rule list \<Rightarrow> 'k copy_world \<Rightarrow> 'k copy_world res option" where
  "copy_loop K rules w =
     (case wait_next_event K (- 1) rules w of
        Inl e \<Rightarrow> Some (Inl e)
      | Inr (ret, rules, w) \<Rightarrow> if ret = Exit then Some (Inr w) else copy_loop K rules w)"

definition bidirectional_stream_copy :: "'k kernel \<Rightarrow> FileDescriptor \<Rightarrow> 'k copy_world \<Rightarrow> 'k copy_world res option" where
  "bidirectional_stream_copy K socket w =
     (case copy_start K socket w of Inl e \<Rightarrow> Some (Inl e) | Inr (rules, w) \<Rightarrow> copy_loop K rules w)"

section \<open>Conservation\<close>

lemma touches_copy [simp]:
  assumes "touches fd w (w' :: 'k copy_world)"
  shows "cp_socket w' = cp_socket w" "cp_input w' = cp_input w" "cp_output w' = cp_output w" "cp_outbound w' = cp_outbound w"
    "cp_inbound w' = cp_inbound w" "cp_outbound_shutdown w' = cp_outbound_shutdown w" "cp_inbound_shutdown w' = cp_inbound_shutdown w"
  using assms by (auto simp: touches_def)

lemma fd_copy_updates [simp]:
  fixes w :: "'k copy_world"
  shows "fd_num (w\<lparr>cp_outbound := s\<rparr>) = fd_num w" "fd_num (w\<lparr>cp_inbound := s\<rparr>) = fd_num w"
    "fd_num (w\<lparr>cp_outbound_shutdown := b\<rparr>) = fd_num w" "fd_num (w\<lparr>cp_inbound_shutdown := b\<rparr>) = fd_num w"
    "fd_read_count (w\<lparr>cp_outbound := s\<rparr>) = fd_read_count w" "fd_read_count (w\<lparr>cp_inbound := s\<rparr>) = fd_read_count w"
    "fd_write_count (w\<lparr>cp_outbound := s\<rparr>) = fd_write_count w" "fd_write_count (w\<lparr>cp_inbound := s\<rparr>) = fd_write_count w"
    "fd_write_count (w\<lparr>cp_outbound_shutdown := b\<rparr>) = fd_write_count w" "fd_write_count (w\<lparr>cp_inbound_shutdown := b\<rparr>) = fd_write_count w"
  by (simp_all add: fun_eq_iff fd_num_def fd_read_count_def fd_write_count_def)

text \<open>
  What the loop keeps: everything read on one side has been written to the other or is in the buffer
  between them, in order, and each buffer is a stream in good standing.
\<close>

definition copy_inv ::
  "('k \<Rightarrow> int \<Rightarrow> byte list) \<Rightarrow> ('k \<Rightarrow> int \<Rightarrow> byte list) \<Rightarrow> FileDescriptor \<Rightarrow> FileDescriptor \<Rightarrow> FileDescriptor \<Rightarrow> 'k copy_world \<Rightarrow> bool" where
  "copy_inv inp out socket input outfd w \<longleftrightarrow>
     cp_socket w = socket \<and> cp_input w = input \<and> cp_output w = outfd \<and> distinct [socket, input, outfd] \<and>
     fd_num w input = STDIN_FILENO \<and> fd_num w outfd = STDOUT_FILENO \<and> fd_num w socket > 1 \<and>
     ByteStream_inv (cp_outbound w) \<and> bs_capacity (cp_outbound w) = buffer_size \<and>
     ByteStream_inv (cp_inbound w) \<and> bs_capacity (cp_inbound w) = buffer_size \<and>
     inp (wd_kernel w) STDIN_FILENO = out (wd_kernel w) (fd_num w socket) @ bs_buff (cp_outbound w) \<and>
     inp (wd_kernel w) (fd_num w socket) = out (wd_kernel w) STDOUT_FILENO @ bs_buff (cp_inbound w)"

lemma copy_inv_shutdown [simp]:
  "copy_inv inp out socket input outfd (w\<lparr>cp_outbound_shutdown := b\<rparr>) = copy_inv inp out socket input outfd w"
  "copy_inv inp out socket input outfd (w\<lparr>cp_inbound_shutdown := b\<rparr>) = copy_inv inp out socket input outfd w"
  by (simp_all add: copy_inv_def)

lemma copy_inv_touches:
  assumes "copy_inv inp out socket input outfd w" and "touches fd w w'"
    and "inp (wd_kernel w') = inp (wd_kernel w)" and "out (wd_kernel w') = out (wd_kernel w)"
  shows "copy_inv inp out socket input outfd w'"
  using assms(1) unfolding copy_inv_def touches_copy [OF assms(2)] touches_fields [OF assms(2)] assms(3,4) .

lemma copy_inv_fields: "copy_inv inp out socket input outfd w \<Longrightarrow> cp_socket w = socket \<and> cp_input w = input \<and> cp_output w = outfd"
  unfolding copy_inv_def by blast

lemma write_all_fits:
  assumes "ByteStream_inv s" and "length d \<le> ByteStream_remaining_capacity s"
  shows "bs_buff (fst (ByteStream_write s d)) = bs_buff s @ d" "ByteStream_inv (fst (ByteStream_write s d))"
  using assms by (simp_all add: ByteStream_write_buff ByteStream_write_inv ByteStream_room)

lemma copy_rule1_keeps:
  assumes "kernel_streams K inp out" and "copy_inv inp out socket input outfd w" and "copy_rule1_callback K w = Inr w'"
  shows "copy_inv inp out socket input outfd w' \<and> fd_read_count w' input = fd_read_count w input + 1"
proof -
  obtain data w1 where rd: "FileDescriptor_read K input (ByteStream_remaining_capacity (cp_outbound w)) w = Inr (data, w1)"
    and w': "w' = (let w = w1\<lparr>cp_outbound := fst (ByteStream_write (cp_outbound w1) data)\<rparr>
       in if fd_eof w (cp_input w) then w\<lparr>cp_outbound := ByteStream_end_input (cp_outbound w)\<rparr> else w)"
    using assms(2,3) by (auto simp: copy_rule1_callback_def copy_inv_def Let_def)
  note s = FileDescriptor_read_stream [OF assms(1) rd]
  obtain r k where e: "touches input w w1" "fd_read_count w1 input = fd_read_count w input + 1"
    by (rule FileDescriptor_read_effect [OF rd])
  have fits: "bs_buff (fst (ByteStream_write (cp_outbound w) data)) = bs_buff (cp_outbound w) @ data"
    "ByteStream_inv (fst (ByteStream_write (cp_outbound w) data))"
    using assms(2) s write_all_fits [of "cp_outbound w" data] by (simp_all add: copy_inv_def)
  show ?thesis
    using assms(2) s e fits
    by (auto simp: w' Let_def copy_inv_def) (simp_all add: ByteStream_end_input_def)
qed

lemma copy_rule3_keeps:
  assumes "kernel_streams K inp out" and "copy_inv inp out socket input outfd w" and "copy_rule3_callback K w = Inr w'"
  shows "copy_inv inp out socket input outfd w' \<and> fd_read_count w' socket = fd_read_count w socket + 1"
proof -
  obtain data w1 where rd: "FileDescriptor_read K socket (ByteStream_remaining_capacity (cp_inbound w)) w = Inr (data, w1)"
    and w': "w' = (let w = w1\<lparr>cp_inbound := fst (ByteStream_write (cp_inbound w1) data)\<rparr>
       in if fd_eof w (cp_socket w) then w\<lparr>cp_inbound := ByteStream_end_input (cp_inbound w)\<rparr> else w)"
    using assms(2,3) by (auto simp: copy_rule3_callback_def copy_inv_def Let_def)
  note s = FileDescriptor_read_stream [OF assms(1) rd]
  obtain r k where e: "touches socket w w1" "fd_read_count w1 socket = fd_read_count w socket + 1"
    by (rule FileDescriptor_read_effect [OF rd])
  have fits: "bs_buff (fst (ByteStream_write (cp_inbound w) data)) = bs_buff (cp_inbound w) @ data"
    "ByteStream_inv (fst (ByteStream_write (cp_inbound w) data))"
    using assms(2) s write_all_fits [of "cp_inbound w" data] by (simp_all add: copy_inv_def)
  show ?thesis
    using assms(2) s e fits
    by (auto simp: w' Let_def copy_inv_def) (simp_all add: ByteStream_end_input_def)
qed

text \<open>What a write rule moves from the front of its stream to a descriptor.\<close>

lemma peek_pop:
  assumes "ByteStream_inv s" and "n \<le> length (ByteStream_peek_output s m)"
  shows "take n (ByteStream_peek_output s m) @ bs_buff (ByteStream_pop_output s n) = bs_buff s"
    "ByteStream_inv (ByteStream_pop_output s n)" "bs_capacity (ByteStream_pop_output s n) = bs_capacity s"
proof -
  have "n \<le> length (bs_buff s)" "n \<le> m" using assms(2) by (auto simp: ByteStream_peek_output_def Let_def)
  then show "take n (ByteStream_peek_output s m) @ bs_buff (ByteStream_pop_output s n) = bs_buff s"
    by (simp add: ByteStream_peek_output_def ByteStream_pop_output_def Let_def min_def)
  show "ByteStream_inv (ByteStream_pop_output s n)" using assms(1) by (rule ByteStream_pop_inv)
  show "bs_capacity (ByteStream_pop_output s n) = bs_capacity s" by (simp add: ByteStream_pop_output_def Let_def)
qed

lemma copy_peek_small: "copy_inv inp out socket input outfd w \<Longrightarrow> length (ByteStream_peek_output (cp_outbound w) m) < 2 ^ 63 \<and>
    length (ByteStream_peek_output (cp_inbound w) m) < 2 ^ 63"
  using ByteStream_len [of "cp_outbound w"] ByteStream_len [of "cp_inbound w"]
  by (auto simp: copy_inv_def ByteStream_peek_output_def Let_def)

lemma Socket_shutdown_effect:
  assumes "Socket_shutdown K fd SHUT_WR w = Inr w'"
  obtains r w1 where "syscall K (Sys_shutdown (fd_num w fd) SHUT_WR) w = (r, w1)" "w' = register_write fd w1" "touches fd w w'"
proof -
  obtain r w1 where r: "syscall K (Sys_shutdown (fd_num w fd) SHUT_WR) w = (r, w1)" by fastforce
  then have "w' = register_write fd w1" using assms by (auto simp: Socket_shutdown_def)
  with r that touches_trans [OF syscall_touches [OF r] register_touches(2)] show ?thesis by blast
qed

lemma copy_rule2_keeps:
  assumes "kernel_streams K inp out" and "copy_inv inp out socket input outfd w" and "copy_rule2_callback K w = Inr w'"
  shows "copy_inv inp out socket input outfd w' \<and> fd_write_count w' socket \<noteq> fd_write_count w socket"
proof -
  let ?d = "ByteStream_peek_output (cp_outbound w) (min max_copy_length (ByteStream_buffer_size (cp_outbound w)))"
  obtain n w1 where wr: "FileDescriptor_write K socket [?d] False w = Inr (n, w1)"
    and w': "(let w = w1\<lparr>cp_outbound := ByteStream_pop_output (cp_outbound w1) n\<rparr>
       in if ByteStream_eof (cp_outbound w)
          then bindR (Socket_shutdown K (cp_socket w) SHUT_WR w) (\<lambda>w. Inr (w\<lparr>cp_outbound_shutdown := True\<rparr>)) else Inr w) = Inr w'"
    using assms(3) copy_inv_fields [OF assms(2)] unfolding copy_rule2_callback_def BufferViewList_of_string_def Let_def by auto
  have s: "n \<le> length ?d \<and> inp (wd_kernel w1) = inp (wd_kernel w) \<and>
      out (wd_kernel w1) = (out (wd_kernel w))(fd_num w socket := out (wd_kernel w) (fd_num w socket) @ take n ?d) \<and>
      touches socket w w1 \<and> fd_write_count w1 socket = fd_write_count w socket + 1"
    using FileDescriptor_write_stream [OF assms(1) _ wr] copy_peek_small [OF assms(2)] by simp
  let ?w2 = "w1\<lparr>cp_outbound := ByteStream_pop_output (cp_outbound w1) n\<rparr>"
  have pp: "take n ?d @ bs_buff (ByteStream_pop_output (cp_outbound w) n) = bs_buff (cp_outbound w)"
    "ByteStream_inv (ByteStream_pop_output (cp_outbound w) n)" "bs_capacity (ByteStream_pop_output (cp_outbound w) n) = buffer_size"
    using peek_pop [OF _ conjunct1 [OF s]] assms(2) by (simp_all add: copy_inv_def)
  have moved: "inp (wd_kernel w) STDIN_FILENO = out (wd_kernel w) (fd_num w socket) @ take n ?d @ bs_buff (ByteStream_pop_output (cp_outbound w) n)"
    using assms(2) unfolding copy_inv_def pp(1) by simp
  note t = conjunct1 [OF conjunct2 [OF conjunct2 [OF conjunct2 [OF s]]]]
  have "copy_inv inp out socket input outfd ?w2"
    using assms(2) s pp(2,3) moved unfolding copy_inv_def
    by (simp add: touches_copy [OF t] touches_fields [OF t])
  moreover have "fd_write_count ?w2 socket = fd_write_count w socket + 1" using s by simp
  ultimately have i: "copy_inv inp out socket input outfd ?w2" "fd_write_count ?w2 socket = fd_write_count w socket + 1" by blast+
  show ?thesis
  proof (cases "ByteStream_eof (cp_outbound ?w2)")
    case True
    then obtain w3 where w3: "Socket_shutdown K socket SHUT_WR ?w2 = Inr w3" "w' = w3\<lparr>cp_outbound_shutdown := True\<rparr>"
      using w' copy_inv_fields [OF i(1)] by (auto simp: Let_def)
    obtain r w4 where w4: "syscall K (Sys_shutdown (fd_num ?w2 socket) SHUT_WR) ?w2 = (r, w4)" "w3 = register_write socket w4" "touches socket ?w2 w3"
      by (rule Socket_shutdown_effect [OF w3(1)])
    have "inp (wd_kernel w3) = inp (wd_kernel ?w2) \<and> out (wd_kernel w3) = out (wd_kernel ?w2)"
      using kernel_streams_other [OF assms(1) w4(1)] by (simp add: w4(2) register_write_def fd_update_def)
    moreover have "fd_write_count w3 socket = fd_write_count w socket + 2"
      using i(2) syscall_heap [OF w4(1)] by (simp add: w4(2) register_write_def fd_update_def fd_write_count_def)
    ultimately show ?thesis using copy_inv_touches [OF i(1) w4(3)] by (simp add: w3(2))
  next
    case False
    then have "w' = ?w2" using w' by (simp add: Let_def)
    then show ?thesis using i by simp
  qed
qed

lemma copy_rule4_keeps:
  assumes "kernel_streams K inp out" and "copy_inv inp out socket input outfd w" and "copy_rule4_callback K w = Inr w'"
  shows "copy_inv inp out socket input outfd w' \<and> fd_write_count w' outfd \<noteq> fd_write_count w outfd"
proof -
  let ?d = "ByteStream_peek_output (cp_inbound w) (min max_copy_length (ByteStream_buffer_size (cp_inbound w)))"
  obtain n w1 where wr: "FileDescriptor_write K outfd [?d] False w = Inr (n, w1)"
    and w': "(let w = w1\<lparr>cp_inbound := ByteStream_pop_output (cp_inbound w1) n\<rparr>
       in if ByteStream_eof (cp_inbound w)
          then bindR (FDWrapper_close K (cp_output w) w) (\<lambda>w. Inr (w\<lparr>cp_inbound_shutdown := True\<rparr>)) else Inr w) = Inr w'"
    using assms(3) copy_inv_fields [OF assms(2)] unfolding copy_rule4_callback_def BufferViewList_of_string_def Let_def by auto
  have s: "n \<le> length ?d \<and> inp (wd_kernel w1) = inp (wd_kernel w) \<and>
      out (wd_kernel w1) = (out (wd_kernel w))(fd_num w outfd := out (wd_kernel w) (fd_num w outfd) @ take n ?d) \<and>
      touches outfd w w1 \<and> fd_write_count w1 outfd = fd_write_count w outfd + 1"
    using FileDescriptor_write_stream [OF assms(1) _ wr] copy_peek_small [OF assms(2)] by simp
  let ?w2 = "w1\<lparr>cp_inbound := ByteStream_pop_output (cp_inbound w1) n\<rparr>"
  have pp: "take n ?d @ bs_buff (ByteStream_pop_output (cp_inbound w) n) = bs_buff (cp_inbound w)"
    "ByteStream_inv (ByteStream_pop_output (cp_inbound w) n)" "bs_capacity (ByteStream_pop_output (cp_inbound w) n) = buffer_size"
    using peek_pop [OF _ conjunct1 [OF s]] assms(2) by (simp_all add: copy_inv_def)
  have moved: "inp (wd_kernel w) (fd_num w socket) = out (wd_kernel w) (fd_num w outfd) @ take n ?d @ bs_buff (ByteStream_pop_output (cp_inbound w) n)"
    using assms(2) unfolding copy_inv_def pp(1) by simp
  note t = conjunct1 [OF conjunct2 [OF conjunct2 [OF conjunct2 [OF s]]]]
  have "copy_inv inp out socket input outfd ?w2"
    using assms(2) s pp(2,3) moved unfolding copy_inv_def
    by (simp add: touches_copy [OF t] touches_fields [OF t])
  moreover have "fd_write_count ?w2 outfd = fd_write_count w outfd + 1" using s by simp
  ultimately have i: "copy_inv inp out socket input outfd ?w2" "fd_write_count ?w2 outfd = fd_write_count w outfd + 1" by blast+
  show ?thesis
  proof (cases "ByteStream_eof (cp_inbound ?w2)")
    case True
    then obtain w3 where w3: "FDWrapper_close K outfd ?w2 = Inr w3" "w' = w3\<lparr>cp_inbound_shutdown := True\<rparr>"
      using w' copy_inv_fields [OF i(1)] by (auto simp: Let_def)
    note c = FDWrapper_close_effect [OF w3(1)]
    then obtain r where r: "K (Sys_close (fd_num ?w2 outfd)) (wd_kernel ?w2) = (r, wd_kernel w3)" by blast
    have "inp (wd_kernel w3) = inp (wd_kernel ?w2) \<and> out (wd_kernel w3) = out (wd_kernel ?w2)"
      using kernel_streams_other [OF assms(1), of "Sys_close (fd_num ?w2 outfd)" ?w2 r "?w2\<lparr>wd_kernel := wd_kernel w3\<rparr>"] r
      by (simp add: syscall_def)
    then show ?thesis using copy_inv_touches [OF i(1), where fd = outfd and w' = w3] i(2) c by (simp add: w3(2))
  next
    case False
    then have "w' = ?w2" using w' by (simp add: Let_def)
    then show ?thesis using i by simp
  qed
qed

section \<open>The client of the event loop\<close>

lemma SystemCall_not_busy: "SystemCall a r m \<noteq> Inl busy_wait"
  by (simp add: SystemCall_def)

lemma remove_prefix_not_busy: "BufferViewList_remove_prefix vs n \<noteq> Inl busy_wait"
  by (induction vs n rule: BufferViewList_remove_prefix.induct) simp_all

lemma read_not_busy: "FileDescriptor_read K fd limit w \<noteq> Inl busy_wait"
  by (auto simp: FileDescriptor_read_def Let_def bindR_eq_Inl SystemCall_not_busy split: prod.splits)

lemma write_loop_not_busy: "FileDescriptor_write_loop K fd False buffer n w \<noteq> Inl busy_wait"
  unfolding FileDescriptor_write_loop.simps [of K fd False buffer n w]
  by (auto simp: bindR_eq_Inl SystemCall_not_busy remove_prefix_not_busy split: prod.splits)

lemma write_not_busy: "FileDescriptor_write K fd buffer False w \<noteq> Inl busy_wait"
  unfolding FileDescriptor_write_def by (rule write_loop_not_busy)

lemma shutdown_not_busy: "Socket_shutdown K fd how w \<noteq> Inl busy_wait"
  by (auto simp: Socket_shutdown_def bindR_eq_Inl SystemCall_not_busy split: prod.splits)

lemma close_not_busy: "FDWrapper_close K fd w \<noteq> Inl busy_wait"
  by (auto simp: FDWrapper_close_def bindR_eq_Inl SystemCall_not_busy split: prod.splits)

lemmas not_busy = read_not_busy write_not_busy shutdown_not_busy close_not_busy

lemma copy_callbacks_not_busy:
  "copy_rule1_callback K w \<noteq> Inl busy_wait" "copy_rule2_callback K w \<noteq> Inl busy_wait"
  "copy_rule3_callback K w \<noteq> Inl busy_wait" "copy_rule4_callback K w \<noteq> Inl busy_wait"
  unfolding copy_rule1_callback_def copy_rule2_callback_def copy_rule3_callback_def copy_rule4_callback_def
  by (simp_all only: bindR_eq_Inl Let_def split: prod.splits if_splits) (simp_all add: not_busy)

lemma copy_inv_end:
  assumes "copy_inv inp out socket input outfd w"
  shows "copy_inv inp out socket input outfd (w\<lparr>cp_outbound := ByteStream_end_input (cp_outbound w)\<rparr>)"
    "copy_inv inp out socket input outfd (w\<lparr>cp_inbound := ByteStream_end_input (cp_inbound w)\<rparr>)"
  using assms by (simp_all add: copy_inv_def) (simp_all add: ByteStream_end_input_def)

interpretation copy: event_client K "\<lambda>w. kernel_streams K inp out \<and> copy_inv inp out socket input outfd w"
  "copy_rules K socket input outfd" "\<lambda>_. True" "\<lambda>e. e \<noteq> busy_wait" for K inp out socket input outfd
proof unfold_locales
  fix w ps t ret w'
  assume i: "kernel_streams K inp out \<and> copy_inv inp out socket input outfd w" and p: "syscall K (Sys_poll ps t) w = (ret, w')"
  have "inp (wd_kernel w') = inp (wd_kernel w) \<and> out (wd_kernel w') = out (wd_kernel w)"
    by (rule kernel_streams_other [OF _ p]) (use i in simp_all)
  then show "kernel_streams K inp out \<and> copy_inv inp out socket input outfd w'"
    using i copy_inv_touches [OF _ syscall_touches [OF p], of inp out socket input outfd] by blast
next
  fix r w w'
  assume r: "r \<in> set (copy_rules K socket input outfd)" and i: "kernel_streams K inp out \<and> copy_inv inp out socket input outfd w"
    and c: "ru_callback r w = Inr w'"
  show "(kernel_streams K inp out \<and> copy_inv inp out socket input outfd w') \<and>
    (service_count r w' \<noteq> service_count r w \<or> \<not> ru_interest r w')"
    using r i c copy_rule1_keeps [of K inp out socket input outfd w w'] copy_rule2_keeps [of K inp out socket input outfd w w']
      copy_rule3_keeps [of K inp out socket input outfd w w'] copy_rule4_keeps [of K inp out socket input outfd w w']
    unfolding copy_rules_def add_rule_def FileDescriptor_duplicate_def Let_def
    by (elim conjE) (simp, elim disjE; simp add: service_count_def)
next
  fix r w e
  assume "r \<in> set (copy_rules K socket input outfd)" and "ru_callback r w = Inl e"
  then show "e \<noteq> busy_wait" using copy_callbacks_not_busy [of K w] by (auto simp: copy_rules_def add_rule_def)
next
  fix r w w'
  assume "r \<in> set (copy_rules K socket input outfd)" and "kernel_streams K inp out \<and> copy_inv inp out socket input outfd w"
    and "ru_cancel r w = Inr w'"
  then show "kernel_streams K inp out \<and> copy_inv inp out socket input outfd w'"
    using copy_inv_end [of inp out socket input outfd w]
    by (auto simp: copy_rules_def add_rule_def copy_end_outbound_def copy_end_inbound_def)
next
  fix r w e
  assume "r \<in> set (copy_rules K socket input outfd)" and "ru_cancel r w = Inl e"
  then show "e \<noteq> busy_wait" by (auto simp: copy_rules_def add_rule_def copy_end_outbound_def copy_end_inbound_def)
qed (rule TrueI)

section \<open>Runs of the loop\<close>

inductive copy_reach :: "'k kernel \<Rightarrow> 'k copy_world Rule list \<Rightarrow> 'k copy_world \<Rightarrow> 'k copy_world Rule list \<Rightarrow> 'k copy_world \<Rightarrow> bool"
  for K rules0 w0 where
  start: "copy_reach K rules0 w0 rules0 w0"
| round: "copy_reach K rules0 w0 rules w \<Longrightarrow> wait_next_event K (- 1) rules w = Inr (ret, rules', w') \<Longrightarrow>
    copy_reach K rules0 w0 rules' w'"

lemma copy_reach_trans: "copy_reach K rules' w' rules2 w2 \<Longrightarrow> copy_reach K rules w rules' w' \<Longrightarrow> copy_reach K rules w rules2 w2"
  by (induction rule: copy_reach.induct) (auto intro: copy_reach.round)

lemma copy_loop_reach:
  assumes "copy_loop K rules w = Some ret"
  shows "\<exists>rules' w'. copy_reach K rules w rules' w' \<and> (ret = Inr w' \<or> (\<exists>e. ret = Inl e \<and> wait_next_event K (- 1) rules' w' = Inl e))"
proof (rule copy_loop.raw_induct [OF _ assms], goal_cases)
  case (1 copy_loop K rules w ret)
  show ?case
  proof (cases "wait_next_event K (- 1) rules w")
    case (Inl e)
    then show ?thesis using 1(2) copy_reach.start by fastforce
  next
    case (Inr x)
    then obtain r rules' w' where x: "wait_next_event K (- 1) rules w = Inr (r, rules', w')" by (cases x) auto
    have step: "copy_reach K rules w rules' w'" by (rule copy_reach.round [OF copy_reach.start x])
    show ?thesis
    proof (cases "r = Exit")
      case True
      then show ?thesis using 1(2) x step by auto
    next
      case False
      then have "copy_loop K rules' w' = Some ret" using 1(2) x by simp
      from 1(1) [OF this] show ?thesis using copy_reach_trans [OF _ step] by blast
    qed
  qed
qed

lemma copy_reach_inv:
  assumes "copy_reach K (copy_rules K socket input outfd) w0 rules w" and "kernel_streams K inp out" and "copy_inv inp out socket input outfd w0"
  shows "copy_inv inp out socket input outfd w \<and> set rules \<subseteq> set (copy_rules K socket input outfd)"
  using assms(1)
proof induction
  case (round rules w ret rules' w')
  then show ?case using copy.wait_keeps [of rules K socket input outfd inp out w "- 1" ret rules' w'] assms(2) by blast
qed (use assms(3) in simp)

lemma set_blocking_effect:
  assumes "kernel_streams K inp out" and "FileDescriptor_set_blocking K fd b w = Inr w'"
  shows "touches fd w w' \<and> inp (wd_kernel w') = inp (wd_kernel w) \<and> out (wd_kernel w') = out (wd_kernel w)"
proof -
  obtain r w1 where g: "syscall K (Sys_getfl (fd_num w fd)) w = (r, w1)" by fastforce
  then obtain x where x: "SystemCall ''fcntl'' r 0 = Inr x" using assms(2) by (auto simp: FileDescriptor_set_blocking_def)
  obtain n where n: "n = (if b then x XOR (x AND O_NONBLOCK) else x OR O_NONBLOCK)" by blast
  obtain r2 w2 where s: "syscall K (Sys_setfl (fd_num w1 fd) n) w1 = (r2, w2)" by fastforce
  have w': "w' = w2" using assms(2) g x s by (auto simp: FileDescriptor_set_blocking_def n)
  show ?thesis
    using kernel_streams_other [OF assms(1) g] kernel_streams_other [OF assms(1) s]
      touches_trans [OF syscall_touches [OF g] syscall_touches [OF s]] w' by simp
qed

lemma copy_start_inv:
  assumes "kernel_streams K inp out" and "copy_start K socket w0 = Inr (rules, w)"
    and "socket < wd_next w0" and "fd_num w0 socket > 1"
    and "inp (wd_kernel w0) STDIN_FILENO = []" and "inp (wd_kernel w0) (fd_num w0 socket) = []"
    and "out (wd_kernel w0) STDOUT_FILENO = []" and "out (wd_kernel w0) (fd_num w0 socket) = []"
  obtains input outfd where "rules = copy_rules K socket input outfd" "copy_inv inp out socket input outfd w" "fd_num w socket = fd_num w0 socket"
proof -
  let ?f = "\<lambda>n. \<lparr>fw_fd = n, fw_eof = False, fw_closed = False, fw_read_count = 0, fw_write_count = 0\<rparr>"
  let ?i = "wd_next w0"
  let ?w1 = "w0\<lparr>wd_heap := (wd_heap w0)(?i := ?f 0, ?i + 1 := ?f 1), wd_next := ?i + 2, cp_socket := socket, cp_input := ?i,
      cp_output := ?i + 1, cp_outbound := ByteStream_new buffer_size,
      cp_inbound := ByteStream_new buffer_size, cp_outbound_shutdown := False, cp_inbound_shutdown := False\<rparr>"
  obtain w2 w3 where b: "FileDescriptor_set_blocking K socket False ?w1 = Inr w2" "FileDescriptor_set_blocking K ?i False w2 = Inr w3"
    "FileDescriptor_set_blocking K (?i + 1) False w3 = Inr w" "rules = copy_rules K socket ?i (?i + 1)"
    using assms(2) by (auto simp: copy_start_def FileDescriptor_new_def FDWrapper_new_def Let_def)
  have i: "copy_inv inp out socket ?i (?i + 1) ?w1"
    using assms(3-8) by (simp add: copy_inv_def fd_num_def ByteStream_new_inv) (simp add: ByteStream_new_def)
  note e = set_blocking_effect [OF assms(1) b(1)] set_blocking_effect [OF assms(1) b(2)] set_blocking_effect [OF assms(1) b(3)]
  have "copy_inv inp out socket ?i (?i + 1) w2" using copy_inv_touches [OF i conjunct1 [OF e(1)]] e(1) by simp
  then have "copy_inv inp out socket ?i (?i + 1) w3" using copy_inv_touches [OF _ conjunct1 [OF e(2)]] e(2) by blast
  then have "copy_inv inp out socket ?i (?i + 1) w" using copy_inv_touches [OF _ conjunct1 [OF e(3)]] e(3) by blast
  moreover have "fd_num w socket = fd_num ?w1 socket"
    by (simp only: touches_fields(2) [OF conjunct1 [OF e(3)]] touches_fields(2) [OF conjunct1 [OF e(2)]] touches_fields(2) [OF conjunct1 [OF e(1)]])
  then have "fd_num w socket = fd_num w0 socket" using assms(3) by (simp add: fd_num_def)
  ultimately show ?thesis using that b(4) by blast
qed

lemma copy_rule2_of:
  "r \<in> set (copy_rules K socket input outfd) \<Longrightarrow> ru_fd r = socket \<Longrightarrow> ru_direction r = Dir_Out \<Longrightarrow> socket \<noteq> outfd \<Longrightarrow>
   ru_interest r = copy_rule2_interest"
  by (cases r) (auto simp: copy_rules_def add_rule_def FileDescriptor_duplicate_def)

lemma copy_exit_idle:
  assumes "set rules \<subseteq> set (copy_rules K socket input outfd)" and "wait_next_event K (- 1) rules w = Inr (Exit, rules', w')"
    and "\<And>ps t k. sr_errno (fst (K (Sys_poll ps t) k)) \<noteq> EINTR" and "r \<in> set rules'"
  shows "\<exists>w0. bs_buff (cp_outbound w0) = bs_buff (cp_outbound w') \<and> bs_buff (cp_inbound w0) = bs_buff (cp_inbound w') \<and> \<not> ru_interest r w0"
proof -
  let ?Q = "\<lambda>w :: 'a copy_world. (bs_buff (cp_outbound w), bs_buff (cp_inbound w))"
  have stable: "?Q w2 = ?Q w1" if "r \<in> set rules" "ru_cancel r w1 = Inr w2" for r w1 w2
    using that assms(1)
    by (auto simp: copy_rules_def add_rule_def copy_end_outbound_def copy_end_inbound_def ByteStream_end_input_def dest!: subsetD)
  have "sr_errno r \<noteq> EINTR" if "syscall K (Sys_poll ps t) w = (r, w')" for ps t w w' r
    using assms(3) [of ps t "wd_kernel w"] that by (auto simp: syscall_def split: prod.splits)
  then obtain ps where ps: "setup_pollfds rules w = Inr (rules', ps, False, w')"
    using wait_exit [OF assms(2)] by blast
  show ?thesis using setup_idle [of rules ?Q, OF stable ps assms(4)] by auto
qed


text \<open>A byte to read on standard input, nothing on the socket, and a kernel that takes a byte at a time.\<close>

fun pipe_kernel :: "((int \<Rightarrow> byte list) \<times> (int \<Rightarrow> byte list)) kernel" where
  "pipe_kernel (Sys_read fd n) k =
     (if fd = STDIN_FILENO \<and> fst k STDIN_FILENO = [] \<and> n > 0
      then ((sys_ok 1)\<lparr>sr_data := [7]\<rparr>, ((fst k)(STDIN_FILENO := [7]), snd k)) else (sys_ok 0, k))"
| "pipe_kernel (Sys_writev fd iov) k =
     (if concat iov = [] then (sys_ok 0, k) else (sys_ok 1, (fst k, (snd k)(fd := snd k fd @ [hd (concat iov)]))))"
| "pipe_kernel (Sys_poll ps t) k = ((sys_ok 1)\<lparr>sr_revents := map snd ps\<rparr>, k)"
| "pipe_kernel c k = (sys_ok 0, k)"

lemma take_1_hd: "xs \<noteq> [] \<Longrightarrow> take (Suc 0) xs = [hd xs]"
  by (cases xs) simp_all

lemma pipe_kernel_streams: "kernel_streams pipe_kernel fst snd"
proof -
  have "writev_appends pipe_kernel snd"
    by (auto simp: writev_appends_def sys_ok_def take_1_hd Suc_le_eq simp del: concat_eq_Nil_conv)
  moreover have "fst (snd (pipe_kernel c k)) = fst k \<and> snd (snd (pipe_kernel c k)) = snd k"
    if "\<forall>fd n. c \<noteq> Sys_read fd n" "\<forall>fd iov. c \<noteq> Sys_writev fd iov" for c k
    using that by (cases c) simp_all
  ultimately show ?thesis by (auto simp: kernel_streams_def sys_ok_def)
qed

definition pipe_world :: "((int \<Rightarrow> byte list) \<times> (int \<Rightarrow> byte list)) copy_world" where
  "pipe_world =
     \<lparr>wd_kernel = (\<lambda>_. [], \<lambda>_. []),
      wd_heap = (\<lambda>_. \<lparr>fw_fd = 5, fw_eof = False, fw_closed = False, fw_read_count = 0, fw_write_count = 0\<rparr>), wd_next = 1,
      cp_socket = 0, cp_input = 0, cp_output = 0, cp_outbound = ByteStream_new 0, cp_inbound = ByteStream_new 0,
      cp_outbound_shutdown = False, cp_inbound_shutdown = False\<rparr>"

lemma pipe_read:
  "fd_num w fd = 5 \<Longrightarrow> \<exists>w'. FileDescriptor_read pipe_kernel fd limit w = Inr ([], w')"
  "fd_num w fd = STDIN_FILENO \<Longrightarrow> fst (wd_kernel w) STDIN_FILENO = [] \<Longrightarrow> limit > 0 \<Longrightarrow>
   \<exists>w'. FileDescriptor_read pipe_kernel fd limit w = Inr ([7], w')"
proof -
  show "fd_num w fd = 5 \<Longrightarrow> \<exists>w'. FileDescriptor_read pipe_kernel fd limit w = Inr ([], w')"
    by (auto simp: FileDescriptor_read_def syscall_def SystemCall_def sys_ok_def resize_def)
  assume a: "fd_num w fd = STDIN_FILENO" "fst (wd_kernel w) STDIN_FILENO = []" "limit > 0"
  then have "0 < min BUFFER_SIZE limit" by simp
  then obtain m where "min BUFFER_SIZE limit = Suc m" using gr0_implies_Suc by blast
  then show "\<exists>w'. FileDescriptor_read pipe_kernel fd limit w = Inr ([7], w')"
    using a by (simp add: FileDescriptor_read_def syscall_def SystemCall_def sys_ok_def resize_def Let_def)
qed

lemma pipe_rule1:
  assumes "fd_num w (cp_input w) = STDIN_FILENO" and "fst (wd_kernel w) STDIN_FILENO = []" and "cp_outbound w = ByteStream_new buffer_size"
    and "\<not> fd_eof w (cp_input w)"
  shows "\<exists>w'. copy_rule1_callback pipe_kernel w = Inr w' \<and> bs_buff (cp_outbound w') = [7] \<and> touches (cp_input w) w (w'\<lparr>cp_outbound := cp_outbound w\<rparr>)
    \<and> fd_read_count w' (cp_input w) = fd_read_count w (cp_input w) + 1"
proof -
  have room: "ByteStream_remaining_capacity (cp_outbound w) = buffer_size"
    by (simp add: assms(3) ByteStream_new_def ByteStream_remaining_capacity_def)
  obtain w1 where w1: "FileDescriptor_read pipe_kernel (cp_input w) buffer_size w = Inr ([7], w1)"
    using pipe_read(2) [OF assms(1,2), of buffer_size] by auto
  obtain r k where e: "touches (cp_input w) w w1" "fd_eof w1 (cp_input w) \<longleftrightarrow> fd_eof w (cp_input w) \<or> (buffer_size > 0 \<and> [7 :: byte] = [])"
    "fd_read_count w1 (cp_input w) = fd_read_count w (cp_input w) + 1"
    by (rule FileDescriptor_read_effect [OF w1])
  have "\<not> fd_eof (w1\<lparr>cp_outbound := x\<rparr>) (cp_input w)" for x using e(2) assms(4) by (simp add: fd_eof_def)
  then have "copy_rule1_callback pipe_kernel w = Inr (w1\<lparr>cp_outbound := fst (ByteStream_write (cp_outbound w) [7])\<rparr>)"
    using w1 e(1) by (simp add: copy_rule1_callback_def room)
  moreover have "bs_buff (fst (ByteStream_write (cp_outbound w) [7])) = [7]"
    by (simp add: assms(3) ByteStream_new_def ByteStream_write_def ByteStream_remaining_capacity_def)
  moreover have eq: "w1\<lparr>cp_outbound := cp_outbound w\<rparr> = w1" using e(1) by (metis touches_copy(4) copy_world.surjective copy_world.update_convs(4))
  ultimately show ?thesis using e(1,3) by (simp add: eq)
qed

lemma pipe_start:
  "\<exists>w1. copy_start pipe_kernel 0 pipe_world = Inr (copy_rules pipe_kernel 0 1 2, w1) \<and>
     (\<exists>rules w. wait_next_event pipe_kernel (- 1) (copy_rules pipe_kernel 0 1 2) w1 = Inr (Success, rules, w) \<and> bs_buff (cp_outbound w) = [7])"
proof -
  obtain w1 where w1: "copy_start pipe_kernel 0 pipe_world = Inr (copy_rules pipe_kernel 0 1 2, w1)"
    and f: "w1 = pipe_world\<lparr>wd_heap := (wd_heap pipe_world)(1 := \<lparr>fw_fd = 0, fw_eof = False, fw_closed = False, fw_read_count = 0, fw_write_count = 0\<rparr>,
        2 := \<lparr>fw_fd = 1, fw_eof = False, fw_closed = False, fw_read_count = 0, fw_write_count = 0\<rparr>), wd_next := 3,
        cp_socket := 0, cp_input := 1, cp_output := 2, cp_outbound := ByteStream_new buffer_size, cp_inbound := ByteStream_new buffer_size\<rparr>"
    by (simp add: copy_start_def FileDescriptor_new_def FDWrapper_new_def FileDescriptor_set_blocking_def syscall_def pipe_world_def
        SystemCall_def sys_ok_def numeral_2_eq_2 numeral_3_eq_3)
  have h: "\<not> fd_eof w1 fd" "\<not> fd_closed w1 fd" "fd_num w1 1 = STDIN_FILENO" "fd_num w1 0 = 5" for fd
    by (simp_all add: f fd_eof_def fd_closed_def fd_num_def pipe_world_def)
  have g: "cp_input w1 = 1" "cp_socket w1 = 0" "cp_outbound w1 = ByteStream_new buffer_size" "fst (wd_kernel w1) STDIN_FILENO = []"
    by (simp_all add: f pipe_world_def)
  have i: "copy_rule1_interest w1" "\<not> copy_rule2_interest w1" "copy_rule3_interest w1" "\<not> copy_rule4_interest w1"
    by (simp_all add: f copy_rule1_interest_def copy_rule2_interest_def copy_rule3_interest_def copy_rule4_interest_def
        ByteStream_new_def ByteStream_remaining_capacity_def ByteStream_accessors)
  have s: "\<exists>ps. setup_pollfds (copy_rules pipe_kernel 0 1 2) w1 = Inr (copy_rules pipe_kernel 0 1 2, ps, True, w1) \<and>
      map pf_events ps = [POLLIN, 0, POLLIN, 0] \<and> map pf_revents ps = [0, 0, 0, 0]"
    by (simp add: copy_rules_def add_rule_def FileDescriptor_duplicate_def h i)
  then obtain p1 p2 p3 p4 where ps: "setup_pollfds (copy_rules pipe_kernel 0 1 2) w1 = Inr (copy_rules pipe_kernel 0 1 2, [p1, p2, p3, p4], True, w1)"
    "pf_events p1 = POLLIN" "pf_events p2 = 0" "pf_events p3 = POLLIN" "pf_events p4 = 0"
    by (auto simp: map_eq_Cons_conv)
  obtain w2 where w2: "copy_rule1_callback pipe_kernel w1 = Inr w2" "bs_buff (cp_outbound w2) = [7]"
    "touches 1 w1 (w2\<lparr>cp_outbound := cp_outbound w1\<rparr>)" "fd_read_count w2 1 = fd_read_count w1 1 + 1"
    using pipe_rule1 [of w1] g h by auto
  have "fd_num w2 0 = 5" "cp_socket w2 = 0"
    using touches_fields(2) [OF w2(3), of 0] touches_copy(1) [OF w2(3)] h(4) g(2) by simp_all
  then obtain w3 where w3: "FileDescriptor_read pipe_kernel (cp_socket w2) (ByteStream_remaining_capacity (cp_inbound w2)) w2 = Inr ([], w3)"
    using pipe_read(1) [of w2 0] by auto
  obtain r k where e: "touches (cp_socket w2) w2 w3" "fd_read_count w3 (cp_socket w2) = fd_read_count w2 (cp_socket w2) + 1"
    by (rule FileDescriptor_read_effect [OF w3])
  obtain w4 where w4: "copy_rule3_callback pipe_kernel w2 = Inr w4" "cp_outbound w4 = cp_outbound w2"
    "fd_read_count w4 0 = fd_read_count w2 0 + 1"
    using w3 e \<open>cp_socket w2 = 0\<close> by (auto simp: copy_rule3_callback_def Let_def)
  have "poll_results (copy_rules pipe_kernel 0 1 2)
      (store_revents [p1, p2, p3, p4] [pf_events p1, pf_events p2, pf_events p3, pf_events p4]) w1 =
      Inr (copy_rules pipe_kernel 0 1 2, w4)"
    using w2(1,4) w4(1,3) ps(2-5)
    by (simp add: copy_rules_def add_rule_def FileDescriptor_duplicate_def store_revents_def service_rule_def service_count_def)
  then have "wait_next_event pipe_kernel (- 1) (copy_rules pipe_kernel 0 1 2) w1 = Inr (Success, copy_rules pipe_kernel 0 1 2, w4)"
    using ps(1) by (simp add: wait_next_event_def syscall_def SystemCall_def sys_ok_def)
  then show ?thesis using w1 w2(2) w4(2) by auto
qed


end
