(* ===== verification/Endpoint_Writes.thy ===== *)
theory Endpoint_Writes
  imports Reliable_Delivery Connection_Invariants
begin

text \<open>
  How programs use an endpoint of \<open>Reliable_Delivery\<close>: a write that fits is accepted whole and is the next piece of the
  stream, the end of the input comes after all of it, and taking bytes from the inbound stream is a read.
\<close>

section \<open>Writing\<close>

lemma EP_written:
  assumes "EP_of S R i j (c, g)" and "length S < 4294967294"
  shows "snd_written (cn_sender c) = cn_written c" "ByteStream_inv (sn_stream (cn_sender c))"
proof -
  have "SN_of S (cn_sender c)" using assms(1) by (simp add: EP_of_def CN_of_def SN_run_def)
  then have s: "ByteStream_inv (sn_stream (cn_sender c))"
    "bs_totout (sn_stream (cn_sender c)) + length (bs_buff (sn_stream (cn_sender c))) \<le> length S" unfolding SN_of_def by blast+
  then show "snd_written (cn_sender c) = cn_written c"
    using assms(2) by (simp add: snd_written_def cn_written_def ByteStream_inv_def add64_eq)
  show "ByteStream_inv (sn_stream (cn_sender c))" by (rule s(1))
qed

lemma chunk_next:
  assumes "S = xs @ d @ rest"
  shows "d = chunk S (length xs) (length d)"
  using assms by (simp add: chunk_def)

lemma TCPConnection_write_all:
  assumes "EP_of S R i j (c, g)" and "length S < 4294967294" and "length R < 4294967294"
    and "d = chunk S (cn_written c) (length d)" and "length d \<le> TCPConnection_remaining_outbound_capacity c"
    and "cn_written c + length d \<le> length S"
  obtains c' where "TCPConnection_write c d = (c', length d)" "EP_of S R i j (c', g)" "cn_written c' = cn_written c + length d"
proof -
  note w = EP_written [OF assms(1,2)]
  have "EP_of S R i j (ep_app S (Ep_write (length d)) (c, g))" by (rule EP_app [OF assms(1-3)])
  then have ep: "EP_of S R i j (fst (TCPConnection_write c d), g)" using assms(4) w(1) by simp
  let ?s = "sn_stream (cn_sender c)"
  have room: "length d \<le> bs_capacity ?s - length (bs_buff ?s)"
    using assms(5) ByteStream_room [OF w(2)] by (simp add: TCPConnection_remaining_outbound_capacity_def)
  have bw: "snd (ByteStream_write ?s d) = length d" "bs_totin (fst (ByteStream_write ?s d)) = bs_totin ?s + length d"
    using room assms(2,6) ByteStream_room [OF w(2)] by (simp_all add: ByteStream_write_def Let_def cn_written_def add64_eq min_absorb2)
  have "snd (TCPConnection_write c d) = length d"
    using bw(1) by (simp add: TCPConnection_write_def Let_def case_prod_beta)
  moreover have "cn_written (fst (TCPConnection_write c d)) = cn_written c + length d"
    using written.send [OF written.fill [OF refl], of "c\<lparr>cn_sender := (cn_sender c)\<lparr>sn_stream := fst (ByteStream_write ?s d)\<rparr>\<rparr>"] bw(2)
    by (simp add: TCPConnection_write_def Let_def case_prod_beta cn_written_def cn_fill_window_def)
  ultimately show ?thesis using that [of "fst (TCPConnection_write c d)"] ep by (metis prod.collapse)
qed

lemma end_input_keeps:
  assumes "EP_of S R i j (c, g)" and "length S < 4294967294" and "length R < 4294967294" and "cn_written c = length S"
  shows "EP_of S R i j (TCPConnection_end_input_stream c, g)" "cn_written (TCPConnection_end_input_stream c) = cn_written c"
proof -
  show "EP_of S R i j (TCPConnection_end_input_stream c, g)"
    using EP_app [OF assms(1-3), of Ep_end] EP_written [OF assms(1,2)] assms(4) by simp
  show "cn_written (TCPConnection_end_input_stream c) = cn_written c"
    using written.send [OF written.fill [OF refl],
        of "c\<lparr>cn_sender := (cn_sender c)\<lparr>sn_stream := ByteStream_end_input (sn_stream (cn_sender c))\<rparr>\<rparr>"]
    by (simp add: TCPConnection_end_input_stream_def Let_def cn_written_def cn_fill_window_def ByteStream_end_input_def)
qed

section \<open>Reading\<close>

text \<open>The inbound stream is a part of the connection.\<close>

definition set_inbound_stream :: "TCPConnection \<Rightarrow> ByteStream \<Rightarrow> TCPConnection" where
  "set_inbound_stream c s =
     c\<lparr>cn_receiver := (cn_receiver c)\<lparr>rc_reassembler := (rc_reassembler (cn_receiver c))\<lparr>sr_output := s\<rparr>\<rparr>\<rparr>"

lemma inbound_taken:
  assumes "EP_of S R i j (c, g)" and "length S < 4294967294" and "length R < 4294967294"
    and "m \<le> length (ByteStream_peek_output (TCPConnection_inbound_stream c) l)"
  shows "EP_of S R i j (set_inbound_stream c (ByteStream_pop_output (TCPConnection_inbound_stream c) m),
    g @ take m (ByteStream_peek_output (TCPConnection_inbound_stream c) l))"
    and "cn_written (set_inbound_stream c s) = cn_written c"
proof -
  have "take m (ByteStream_peek_output (TCPConnection_inbound_stream c) l) = ByteStream_peek_output (TCPConnection_inbound_stream c) m"
    "length (ByteStream_peek_output (TCPConnection_inbound_stream c) m) = m"
    using assms(4) by (simp_all add: ByteStream_peek_output_def Let_def)
  then show "EP_of S R i j (set_inbound_stream c (ByteStream_pop_output (TCPConnection_inbound_stream c) m),
      g @ take m (ByteStream_peek_output (TCPConnection_inbound_stream c) l))"
    using EP_app [OF assms(1-3), of "Ep_read m"] by (simp add: set_inbound_stream_def ByteStream_read_def Let_def)
  show "cn_written (set_inbound_stream c s) = cn_written c" by (simp add: cn_written_def set_inbound_stream_def)
qed

end
