(* ===== verification/Sponge_Socket.thy ===== *)
theory Sponge_Socket
  imports Wire_Delivery Stream_Copy Endpoint_Writes
begin

text \<open>
  \<open>TCPSpongeSocket\<close> (\<open>tcp_helpers/tcp_sponge_socket.hh\<close>, \<open>tcp_sponge_socket.cc\<close>): a \<open>TCPConnection\<close> behind a local stream
  socket. The template parameter is the record \<open>AdaptT\<close> of adapter operations. The members are fields beside the world;
  the rules of \<open>_eventloop\<close> are passed along. The TCP thread is modelled by the function it runs; the owner's
  thread acts on it through the kernel and the flag \<open>_abort\<close> only.
\<close>

section \<open>The class\<close>

record ('k, 'a) sponge = "'k world" +
  sp_self :: FileDescriptor
  sp_thread_data :: FileDescriptor
  sp_adapter :: 'a
  sp_tcp :: "TCPConnection option"
  sp_abort :: bool
  sp_inbound_shutdown :: bool
  sp_outbound_shutdown :: bool
  sp_fully_acked :: bool

type_synonym ('k, 'a) sponge_ops = "('a, ('k, 'a) sponge) AdaptT"

abbreviation TCP_TICK_MS :: int where "TCP_TICK_MS \<equiv> 10"

text \<open>The connection that \<open>_tcp\<close> holds, and a new value for it.\<close>

definition with_tcp :: "('k, 'a) sponge \<Rightarrow> (TCPConnection \<Rightarrow> 'b res) \<Rightarrow> 'b res" where
  "with_tcp w f = (case sp_tcp w of None \<Rightarrow> Inl bad_optional_access | Some c \<Rightarrow> f c)"

definition tcp_or :: "('k, 'a) sponge \<Rightarrow> (TCPConnection \<Rightarrow> bool) \<Rightarrow> bool" where
  "tcp_or w f \<longleftrightarrow> (case sp_tcp w of None \<Rightarrow> False | Some c \<Rightarrow> f c)"

text \<open>What the debugging output evaluates.\<close>

definition name_destination :: "resolver \<Rightarrow> ('k, 'a) sponge_ops \<Rightarrow> ('k, 'a) sponge \<Rightarrow> string res" where
  "name_destination rs A w = Address_to_string rs (fc_destination (ad_config A (sp_adapter w)))"

section \<open>The four rules\<close>

definition sponge_rule1_callback :: "resolver \<Rightarrow> ('k, 'a) sponge_ops \<Rightarrow> ('k, 'a) sponge \<Rightarrow> ('k, 'a) sponge res" where
  "sponge_rule1_callback rs A w =
     bindR (ad_read A (sp_adapter w) w) (\<lambda>((a, seg), w).
       let w = w\<lparr>sp_adapter := a\<rparr>
       in bindR (case seg of None \<Rightarrow> Inr w
            | Some seg \<Rightarrow> with_tcp w (\<lambda>c. bindR (TCPConnection_segment_received c seg) (\<lambda>c. Inr (w\<lparr>sp_tcp := Some c\<rparr>)))) (\<lambda>w.
          with_tcp w (\<lambda>c.
            if fd_eof w (sp_thread_data w) \<and> TCPConnection_bytes_in_flight c = 0 \<and> \<not> sp_fully_acked w
            then bindR (name_destination rs A w) (\<lambda>_. Inr (w\<lparr>sp_fully_acked := True\<rparr>))
            else Inr w)))"

definition sponge_rule1_interest :: "('k, 'a) sponge \<Rightarrow> bool" where
  "sponge_rule1_interest w = tcp_or w TCPConnection_active"

abbreviation accepted_less :: cpp_exn where
  "accepted_less \<equiv> runtime_error ''TCPConnection::write() accepted less than advertised length''"

definition sponge_rule2_callback :: "'k kernel \<Rightarrow> resolver \<Rightarrow> ('k, 'a) sponge_ops \<Rightarrow> ('k, 'a) sponge \<Rightarrow> ('k, 'a) sponge res" where
  "sponge_rule2_callback K rs A w =
     with_tcp w (\<lambda>c.
     bindR (FileDescriptor_read K (sp_thread_data w) (TCPConnection_remaining_outbound_capacity c) w) (\<lambda>(data, w).
       let (c, amount_written) = TCPConnection_write c data;
           w = w\<lparr>sp_tcp := Some c\<rparr>
       in if amount_written \<noteq> length data then Inl accepted_less
          else if fd_eof w (sp_thread_data w)
          then bindR (name_destination rs A w) (\<lambda>_.
                 Inr (w\<lparr>sp_tcp := Some (TCPConnection_end_input_stream c), sp_outbound_shutdown := True\<rparr>))
          else Inr w))"

definition sponge_rule2_interest :: "('k, 'a) sponge \<Rightarrow> bool" where
  "sponge_rule2_interest w =
     tcp_or w (\<lambda>c. TCPConnection_active c \<and> \<not> sp_outbound_shutdown w \<and> TCPConnection_remaining_outbound_capacity c > 0)"

definition sponge_rule2_cancel :: "('k, 'a) sponge \<Rightarrow> ('k, 'a) sponge res" where
  "sponge_rule2_cancel w =
     with_tcp w (\<lambda>c. Inr (w\<lparr>sp_tcp := Some (TCPConnection_end_input_stream c), sp_outbound_shutdown := True\<rparr>))"

definition sponge_rule3_callback :: "'k kernel \<Rightarrow> resolver \<Rightarrow> ('k, 'a) sponge_ops \<Rightarrow> ('k, 'a) sponge \<Rightarrow> ('k, 'a) sponge res" where
  "sponge_rule3_callback K rs A w =
     with_tcp w (\<lambda>c.
       let inbound = TCPConnection_inbound_stream c;
           amount_to_write = min 65536 (ByteStream_buffer_size inbound);
           buffer = ByteStream_peek_output inbound amount_to_write
       in bindR (FileDescriptor_write K (sp_thread_data w) (BufferViewList_of_string buffer) False w) (\<lambda>(bytes_written, w).
          let inbound = ByteStream_pop_output inbound bytes_written;
              w = w\<lparr>sp_tcp := Some (set_inbound_stream c inbound)\<rparr>
          in if ByteStream_eof inbound \<or> bs_error inbound
             then bindR (Socket_shutdown K (sp_thread_data w) SHUT_WR w) (\<lambda>w.
                  bindR (name_destination rs A w) (\<lambda>_. Inr (w\<lparr>sp_inbound_shutdown := True\<rparr>)))
             else Inr w))"

definition sponge_rule3_interest :: "('k, 'a) sponge \<Rightarrow> bool" where
  "sponge_rule3_interest w =
     tcp_or w (\<lambda>c. let inbound = TCPConnection_inbound_stream c
       in \<not> ByteStream_buffer_empty inbound \<or> ((ByteStream_eof inbound \<or> bs_error inbound) \<and> \<not> sp_inbound_shutdown w))"

text \<open>
  A write of a segment stores the ports into it; the segment is then dropped from the queue.
\<close>

fun sponge_send_all :: "('k, 'a) sponge_ops \<Rightarrow> TCPSegment list \<Rightarrow> TCPConnection \<Rightarrow> ('k, 'a) sponge \<Rightarrow> ('k, 'a) sponge res" where
  "sponge_send_all A [] c w = Inr (w\<lparr>sp_tcp := Some (c\<lparr>cn_segments_out := []\<rparr>)\<rparr>)"
| "sponge_send_all A (seg # segs) c w =
     bindR (ad_write A (sp_adapter w) seg w) (\<lambda>(a, w). sponge_send_all A segs c (w\<lparr>sp_adapter := a\<rparr>))"

definition sponge_rule4_callback :: "('k, 'a) sponge_ops \<Rightarrow> ('k, 'a) sponge \<Rightarrow> ('k, 'a) sponge res" where
  "sponge_rule4_callback A w = with_tcp w (\<lambda>c. sponge_send_all A (cn_segments_out c) c w)"

definition sponge_rule4_interest :: "('k, 'a) sponge \<Rightarrow> bool" where
  "sponge_rule4_interest w = tcp_or w (\<lambda>c. cn_segments_out c \<noteq> [])"

definition sponge_rules :: "'k kernel \<Rightarrow> resolver \<Rightarrow> ('k, 'a) sponge_ops \<Rightarrow> ('k, 'a) sponge \<Rightarrow> ('k, 'a) sponge Rule list" where
  "sponge_rules K rs A w =
     (let rules = add_rule [] (ad_fd A (sp_adapter w)) Dir_In (sponge_rule1_callback rs A) sponge_rule1_interest Inr;
          rules = add_rule rules (sp_thread_data w) Dir_In (sponge_rule2_callback K rs A) sponge_rule2_interest sponge_rule2_cancel;
          rules = add_rule rules (sp_thread_data w) Dir_Out (sponge_rule3_callback K rs A) sponge_rule3_interest Inr
      in add_rule rules (ad_fd A (sp_adapter w)) Dir_Out (sponge_rule4_callback A) sponge_rule4_interest Inr)"

definition sponge_initialize_TCP ::
  "'k kernel \<Rightarrow> resolver \<Rightarrow> ('k, 'a) sponge_ops \<Rightarrow> TCPConfig \<Rightarrow> 32 word \<Rightarrow> ('k, 'a) sponge \<Rightarrow> ('k, 'a) sponge Rule list \<times> ('k, 'a) sponge" where
  "sponge_initialize_TCP K rs A config rnd w =
     (let w = w\<lparr>sp_tcp := Some (TCPConnection_new config rnd)\<rparr> in (sponge_rules K rs A w, w))"

section \<open>The loop and the public operations\<close>

definition timestamp_ms :: "'k kernel \<Rightarrow> ('k, 'z) world_scheme \<Rightarrow> nat \<times> ('k, 'z) world_scheme" where
  "timestamp_ms K w = (let (r, w) = syscall K Sys_clock w in (sr_time r, w))"

text \<open>The end of a round: time passes for the connection and the adapter.\<close>

definition sponge_time_passes :: "('k, 'a) sponge_ops \<Rightarrow> size_t \<Rightarrow> TCPConnection \<Rightarrow> ('k, 'a) sponge \<Rightarrow> ('k, 'a) sponge" where
  "sponge_time_passes A ms c w =
     w\<lparr>sp_tcp := Some (TCPConnection_tick c ms), sp_adapter := ad_tick A (sp_adapter w) ms\<rparr>"

partial_function (option) tcp_loop_from ::
  "'k kernel \<Rightarrow> ('k, 'a) sponge_ops \<Rightarrow> (('k, 'a) sponge \<Rightarrow> bool) \<Rightarrow> nat \<Rightarrow> ('k, 'a) sponge Rule list \<Rightarrow> ('k, 'a) sponge \<Rightarrow>
   (('k, 'a) sponge Rule list \<times> ('k, 'a) sponge) res option" where
  "tcp_loop_from K A condition base_time rules w =
     (if \<not> condition w then Some (Inr (rules, w))
      else case wait_next_event K TCP_TICK_MS rules w of
          Inl e \<Rightarrow> Some (Inl e)
        | Inr (ret, rules, w) \<Rightarrow>
            if ret = Exit \<or> sp_abort w then Some (Inr (rules, w))
            else (case sp_tcp w of
                None \<Rightarrow> Some (Inl bad_optional_access)
              | Some c \<Rightarrow>
                  if TCPConnection_active c
                  then let (next_time, w) = timestamp_ms K w
                    in tcp_loop_from K A condition next_time rules (sponge_time_passes A (sub64 next_time base_time) c w)
                  else tcp_loop_from K A condition base_time rules w))"

definition tcp_loop where
  "tcp_loop K A condition rules w = (let (base_time, w) = timestamp_ms K w in tcp_loop_from K A condition base_time rules w)"

definition in_state :: "State \<Rightarrow> ('k, 'a) sponge \<Rightarrow> bool" where
  "in_state s w = tcp_or w (\<lambda>c. TCPState_eq (TCPConnection_state c) (TCPState_of_State s))"

definition TCPSpongeSocket_new ::
  "'k kernel \<Rightarrow> 'a \<Rightarrow> ('k, 'a) sponge \<Rightarrow> ('k, 'a) sponge res" where
  "TCPSpongeSocket_new K datagram_interface w =
     bindR (socket_pair_helper K SOCK_STREAM w) (\<lambda>((first, second), w).
     bindR (LocalStreamSocket_of_fd K first w) (\<lambda>(self, w).
     bindR (LocalStreamSocket_of_fd K second w) (\<lambda>(thread_data, w).
       let w = w\<lparr>sp_self := self, sp_thread_data := thread_data, sp_adapter := datagram_interface, sp_tcp := None,
                 sp_abort := False, sp_inbound_shutdown := False, sp_outbound_shutdown := False, sp_fully_acked := False\<rparr>
       in FileDescriptor_set_blocking K thread_data False w)))"

text \<open>
  \<open>connect\<close> and \<open>listen_and_accept\<close>, up to the start of the thread; \<open>None\<close> when they block for ever.
\<close>

definition sponge_connect ::
  "'k kernel \<Rightarrow> resolver \<Rightarrow> ('k, 'a) sponge_ops \<Rightarrow> TCPConfig \<Rightarrow> FdAdapterConfig \<Rightarrow> 32 word \<Rightarrow> ('k, 'a) sponge \<Rightarrow>
   (('k, 'a) sponge Rule list \<times> ('k, 'a) sponge) res option" where
  "sponge_connect K rs A c_tcp c_ad rnd w =
     (if sp_tcp w \<noteq> None then Some (Inl (runtime_error ''connect() with TCPConnection already initialized''))
      else
        let (rules, w) = sponge_initialize_TCP K rs A c_tcp rnd w;
            w = w\<lparr>sp_adapter := ad_config_mut A (sp_adapter w) c_ad\<rparr>
        in case Address_to_string rs (fc_destination c_ad) of
            Inl e \<Rightarrow> Some (Inl e)
          | Inr _ \<Rightarrow>
              let c = TCPConnection_connect (TCPConnection_new c_tcp rnd);
                  w = w\<lparr>sp_tcp := Some c\<rparr>
              in if TCPState_neq (TCPConnection_state c) (TCPState_of_State SYN_SENT)
                 then Some (Inl (runtime_error (''After TCPConnection::connect(), state was '' @ TCPState_name (TCPConnection_state c) @
                   '' but expected '' @ TCPState_name (TCPState_of_State SYN_SENT))))
                 else tcp_loop K A (in_state SYN_SENT) rules w)"

definition sponge_listen_and_accept ::
  "'k kernel \<Rightarrow> resolver \<Rightarrow> ('k, 'a) sponge_ops \<Rightarrow> TCPConfig \<Rightarrow> FdAdapterConfig \<Rightarrow> 32 word \<Rightarrow> ('k, 'a) sponge \<Rightarrow>
   (('k, 'a) sponge Rule list \<times> ('k, 'a) sponge) res option" where
  "sponge_listen_and_accept K rs A c_tcp c_ad rnd w =
     (if sp_tcp w \<noteq> None then Some (Inl (runtime_error ''listen_and_accept() with TCPConnection already initialized''))
      else
        let (rules, w) = sponge_initialize_TCP K rs A c_tcp rnd w;
            w = w\<lparr>sp_adapter := ad_set_listening A (ad_config_mut A (sp_adapter w) c_ad) True\<rparr>
        in case tcp_loop K A (\<lambda>w. in_state LISTEN w \<or> in_state SYN_RCVD w \<or> in_state SYN_SENT w) rules w of
            None \<Rightarrow> None
          | Some r \<Rightarrow> Some (bindR r (\<lambda>(rules, w). bindR (name_destination rs A w) (\<lambda>_. Inr (rules, w)))))"

text \<open>The body of the thread.\<close>

definition sponge_tcp_main ::
  "'k kernel \<Rightarrow> ('k, 'a) sponge_ops \<Rightarrow> ('k, 'a) sponge Rule list \<Rightarrow> ('k, 'a) sponge \<Rightarrow> ('k, 'a) sponge res option" where
  "sponge_tcp_main K A rules w =
     (if sp_tcp w = None then Some (Inl (runtime_error ''no TCP''))
      else case tcp_loop K A (\<lambda>_. True) rules w of
          None \<Rightarrow> None
        | Some r \<Rightarrow> Some (bindR r (\<lambda>(rules, w).
            bindR (Socket_shutdown K (sp_self w) SHUT_RDWR w) (\<lambda>w.
            with_tcp w (\<lambda>c. Inr (w\<lparr>sp_tcp := None\<rparr>))))))"

definition sponge_wait_until_closed :: "'k kernel \<Rightarrow> ('k, 'a) sponge \<Rightarrow> ('k, 'a) sponge res" where
  "sponge_wait_until_closed K w = Socket_shutdown K (sp_self w) SHUT_RDWR w"

text \<open>What the destructor asks of a thread that is still running.\<close>

definition sponge_destroy :: "bool \<Rightarrow> ('k, 'a) sponge \<Rightarrow> ('k, 'a) sponge" where
  "sponge_destroy joinable w = (if joinable then w\<lparr>sp_abort := True\<rparr> else w)"

section \<open>CS144TCPSocket\<close>

definition CS144TCPSocket_connect ::
  "'k kernel \<Rightarrow> resolver \<Rightarrow> 16 word \<Rightarrow> Address \<Rightarrow> 32 word \<Rightarrow> ('k, FileDescriptor \<times> FdAdapterBase) sponge \<Rightarrow>
   (('k, FileDescriptor \<times> FdAdapterBase) sponge Rule list \<times> ('k, FileDescriptor \<times> FdAdapterBase) sponge) res option" where
  "CS144TCPSocket_connect K rs random_port address rnd w =
     (let tcp_config = TCPConfig_default\<lparr>cfg_rt_timeout := 100\<rparr>
      in case bindR (FdAdapterConfig_default rs) (\<lambda>multiplexer_config.
           bindR (Address_of_host rs ''169.254.144.9'' (dec_string (unat random_port))) (\<lambda>source.
             Inr (multiplexer_config\<lparr>fc_source := source, fc_destination := address\<rparr>))) of
          Inl e \<Rightarrow> Some (Inl e)
        | Inr c_ad \<Rightarrow> sponge_connect K rs (TCPOverIPv4OverTunFdAdapter rs K) tcp_config c_ad rnd w)"

end
