(* ===== verification/Sponge_Delivery.thy ===== *)
theory Sponge_Delivery
  imports Sponge_Socket
begin

text \<open>
  What \<open>TCPSpongeSocket\<close> does for its owner. The rules of the event loop are operations of the endpoint of
  \<open>Reliable_Delivery\<close>: bytes read from the owner's socket are written to the connection, bytes read from the connection are
  written to the owner's socket, so that the two ends of the socket see the two streams of the connection.
\<close>

section \<open>The surroundings\<close>

text \<open>
  \<open>n\<close> is the number of the descriptor shared with the owner. The adapter keeps off it, and what it hands over are
  pieces of the peer's stream \<open>R\<close>.
\<close>

definition adapter_apart ::
  "('a, ('k, 'z) world_scheme) AdaptT \<Rightarrow> ('k \<Rightarrow> int \<Rightarrow> byte list) \<Rightarrow> ('k \<Rightarrow> int \<Rightarrow> byte list) \<Rightarrow> int \<Rightarrow> bool" where
  "adapter_apart A inp out n \<longleftrightarrow>
     (\<forall>a w x w'. fd_num w (ad_fd A a) \<noteq> n \<longrightarrow> ad_read A a w = Inr (x, w') \<longrightarrow>
        inp (wd_kernel w') n = inp (wd_kernel w) n \<and> out (wd_kernel w') n = out (wd_kernel w) n) \<and>
     (\<forall>a s w a' w'. fd_num w (ad_fd A a) \<noteq> n \<longrightarrow> ad_write A a s w = Inr (a', w') \<longrightarrow>
        inp (wd_kernel w') n = inp (wd_kernel w) n \<and> out (wd_kernel w') n = out (wd_kernel w) n)"

definition honest_peer :: "('a, ('k, 'z) world_scheme) AdaptT \<Rightarrow> byte list \<Rightarrow> WrappingInt32 \<Rightarrow> bool" where
  "honest_peer A R j \<longleftrightarrow> (\<forall>a w a' seg w'. ad_read A a w = Inr ((a', Some seg), w') \<longrightarrow> seg_of R j seg)"

lemma kernel_streams_fields:
  assumes "kernel_streams K inp out" and "fd_num w fd \<noteq> n"
  shows "FileDescriptor_read K fd limit w = Inr (str, w') \<Longrightarrow>
      inp (wd_kernel w') n = inp (wd_kernel w) n \<and> out (wd_kernel w') n = out (wd_kernel w) n"
  using FileDescriptor_read_stream [OF assms(1)] assms(2) by fastforce

lemma udp_apart:
  assumes "kernel_streams K inp out"
  shows "adapter_apart (TCPOverUDPSocketAdapter rs K) inp out n"
proof -
  have "inp (wd_kernel w') = inp (wd_kernel w) \<and> out (wd_kernel w') = out (wd_kernel w)"
    if "UDPSocket_recv K fd mtu w = Inr (d, w')" for fd mtu w d and w' :: "('a, 'b) world_scheme"
  proof -
    obtain r w1 where r: "syscall K (Sys_recvfrom (fd_num w fd) mtu) w = (r, w1)" by fastforce
    then have "w' = register_read fd w1"
      using that by (auto simp: UDPSocket_recv_def UDPSocket_recv_into_def Let_def split: if_splits)
    then show ?thesis using kernel_streams_other [OF assms r] by (simp add: register_read_def fd_update_def)
  qed
  moreover have "inp (wd_kernel w') = inp (wd_kernel w) \<and> out (wd_kernel w') = out (wd_kernel w)"
    if "UDPSocket_sendto K fd d p w = Inr w'" for fd d p w and w' :: "('a, 'b) world_scheme"
  proof -
    obtain r w1 where r: "syscall K (Sys_sendmsg (fd_num w fd) (Some (addr_storage d, addr_size d)) p) w = (r, w1)" by fastforce
    then have "w' = register_write fd w1"
      using that by (auto simp: UDPSocket_sendto_def sendmsg_helper_def Let_def split: if_splits)
    then show ?thesis using kernel_streams_other [OF assms r] by (simp add: register_write_def fd_update_def)
  qed
  ultimately show ?thesis unfolding adapter_apart_def by (fastforce simp: TCPOverUDPSocketAdapter_def)
qed

section \<open>The invariant\<close>

definition SP_inv ::
  "('k, 'a) sponge_ops \<Rightarrow> ('k \<Rightarrow> int \<Rightarrow> byte list) \<Rightarrow> ('k \<Rightarrow> int \<Rightarrow> byte list) \<Rightarrow> byte list \<Rightarrow> byte list \<Rightarrow>
   WrappingInt32 \<Rightarrow> WrappingInt32 \<Rightarrow> int \<Rightarrow> ('k, 'a) sponge \<Rightarrow> bool" where
  "SP_inv A inp out S R i j n w \<longleftrightarrow>
     fd_num w (sp_thread_data w) = n \<and> fd_num w (ad_fd A (sp_adapter w)) \<noteq> n \<and> \<not> fd_closed w (sp_thread_data w) \<and>
     (fd_eof w (sp_thread_data w) \<longrightarrow> inp (wd_kernel w) n = S) \<and>
     (\<exists>c. sp_tcp w = Some c \<and> EP_of S R i j (c, out (wd_kernel w) n) \<and>
        inp (wd_kernel w) n = take (cn_written c) S \<and> cn_written c \<le> length S)"

lemma touches_sponge [simp]:
  assumes "touches fd w (w' :: ('k, 'a) sponge)"
  shows "sp_self w' = sp_self w" "sp_thread_data w' = sp_thread_data w" "sp_adapter w' = sp_adapter w" "sp_tcp w' = sp_tcp w"
    "sp_abort w' = sp_abort w" "sp_inbound_shutdown w' = sp_inbound_shutdown w" "sp_outbound_shutdown w' = sp_outbound_shutdown w"
    "sp_fully_acked w' = sp_fully_acked w"
  using assms by (auto simp: touches_def)

lemma fd_sponge_updates [simp]:
  fixes w :: "('k, 'a) sponge"
  shows "fd_num (w\<lparr>sp_adapter := a\<rparr>) = fd_num w" "fd_num (w\<lparr>sp_tcp := c\<rparr>) = fd_num w"
    "fd_num (w\<lparr>sp_fully_acked := b\<rparr>) = fd_num w" "fd_num (w\<lparr>sp_outbound_shutdown := b\<rparr>) = fd_num w" "fd_num (w\<lparr>sp_inbound_shutdown := b\<rparr>) = fd_num w"
    "fd_eof (w\<lparr>sp_adapter := a\<rparr>) = fd_eof w" "fd_eof (w\<lparr>sp_tcp := c\<rparr>) = fd_eof w"
    "fd_eof (w\<lparr>sp_fully_acked := b\<rparr>) = fd_eof w" "fd_eof (w\<lparr>sp_outbound_shutdown := b\<rparr>) = fd_eof w" "fd_eof (w\<lparr>sp_inbound_shutdown := b\<rparr>) = fd_eof w"
    "fd_closed (w\<lparr>sp_adapter := a\<rparr>) = fd_closed w" "fd_closed (w\<lparr>sp_tcp := c\<rparr>) = fd_closed w"
    "fd_closed (w\<lparr>sp_fully_acked := b\<rparr>) = fd_closed w" "fd_closed (w\<lparr>sp_outbound_shutdown := b\<rparr>) = fd_closed w" "fd_closed (w\<lparr>sp_inbound_shutdown := b\<rparr>) = fd_closed w"
  by (simp_all add: fun_eq_iff fd_num_def fd_eof_def fd_closed_def)

lemma SP_inv_flags [simp]:
  "SP_inv A inp out S R i j n (w\<lparr>sp_fully_acked := b\<rparr>) = SP_inv A inp out S R i j n w"
  "SP_inv A inp out S R i j n (w\<lparr>sp_outbound_shutdown := b\<rparr>) = SP_inv A inp out S R i j n w"
  "SP_inv A inp out S R i j n (w\<lparr>sp_inbound_shutdown := b\<rparr>) = SP_inv A inp out S R i j n w"
  by (simp_all add: SP_inv_def)

lemma SP_inv_adapter:
  "ad_fd A a = ad_fd A (sp_adapter w) \<Longrightarrow> SP_inv A inp out S R i j n (w\<lparr>sp_adapter := a\<rparr>) = SP_inv A inp out S R i j n w"
  by (simp add: SP_inv_def)

lemma SP_inv_touches:
  assumes "SP_inv A inp out S R i j n w" and "touches fd w w'"
    and "inp (wd_kernel w') n = inp (wd_kernel w) n" and "out (wd_kernel w') n = out (wd_kernel w) n"
    and "fd = sp_thread_data w \<Longrightarrow> fd_eof w' fd = fd_eof w fd \<and> fd_closed w' fd = fd_closed w fd"
  shows "SP_inv A inp out S R i j n w'"
proof -
  have "fd_eof w' (sp_thread_data w) = fd_eof w (sp_thread_data w)" "fd_closed w' (sp_thread_data w) = fd_closed w (sp_thread_data w)"
    using assms(2,5) by (cases "fd = sp_thread_data w"; auto simp: fd_eof_def fd_closed_def)+
  then show ?thesis
    using assms(1) unfolding SP_inv_def touches_sponge [OF assms(2)] touches_fields(2) [OF assms(2)] assms(3,4) by simp
qed

lemma SP_inv_quiet:
  assumes "SP_inv A inp out S R i j n w" and "kernel_streams K inp out" and "syscall K c w = (r, w')"
    and "\<forall>fd n. c \<noteq> Sys_read fd n" and "\<forall>fd iov. c \<noteq> Sys_writev fd iov"
  shows "SP_inv A inp out S R i j n w'"
  using SP_inv_touches [OF assms(1) syscall_touches [OF assms(3)]] kernel_streams_other [OF assms(2-5)] syscall_heap [OF assms(3)]
  by (simp add: fd_eof_def fd_closed_def)

lemma SP_inv_tcp:
  assumes "SP_inv A inp out S R i j n w"
  obtains c where "sp_tcp w = Some c" "EP_of S R i j (c, out (wd_kernel w) n)" "inp (wd_kernel w) n = take (cn_written c) S" "cn_written c \<le> length S"
  using assms unfolding SP_inv_def by blast

lemma SP_inv_set_tcp:
  assumes "SP_inv A inp out S R i j n w" and "sp_tcp w = Some c" and "EP_of S R i j (c', out (wd_kernel w) n)" and "cn_written c' = cn_written c"
  shows "SP_inv A inp out S R i j n (w\<lparr>sp_tcp := Some c'\<rparr>)"
proof -
  have "inp (wd_kernel w) n = take (cn_written c') S" "cn_written c' \<le> length S"
    using assms(1,2,4) unfolding SP_inv_def by simp_all
  then show ?thesis using assms(1,3) unfolding SP_inv_def by simp
qed

section \<open>The rules keep it\<close>

lemma sponge_rule1_keeps:
  assumes "fd_adapter A" and "adapter_apart A inp out n" and "honest_peer A R j" and "length S < 4294967294" and "length R < 4294967294"
    and "SP_inv A inp out S R i j n w" and "sponge_rule1_callback rs A w = Inr w'"
  shows "SP_inv A inp out S R i j n w' \<and>
    fd_read_count w' (ad_fd A (sp_adapter w)) = fd_read_count w (ad_fd A (sp_adapter w)) + 1 \<and> ad_fd A (sp_adapter w') = ad_fd A (sp_adapter w) \<and>
    sp_thread_data w' = sp_thread_data w"
proof -
  let ?fd = "ad_fd A (sp_adapter w)"
  obtain a seg w1 where rd: "ad_read A (sp_adapter w) w = Inr ((a, seg), w1)"
    using assms(7) by (auto simp: sponge_rule1_callback_def)
  have t: "touches ?fd w w1" "ad_fd A a = ?fd" "fd_read_count w1 ?fd = fd_read_count w ?fd + 1"
    using fd_adapter.read_serves [OF assms(1) rd] by blast+
  have num: "fd_num w ?fd \<noteq> n" "fd_num w (sp_thread_data w) = n" using assms(6) unfolding SP_inv_def by blast+
  then have ne: "?fd \<noteq> sp_thread_data w" by metis
  have k: "inp (wd_kernel w1) n = inp (wd_kernel w) n" "out (wd_kernel w1) n = out (wd_kernel w) n"
    using assms(2) num(1) rd unfolding adapter_apart_def by blast+
  have "SP_inv A inp out S R i j n w1" using SP_inv_touches [OF assms(6) t(1) k] ne by blast
  then have i1: "SP_inv A inp out S R i j n (w1\<lparr>sp_adapter := a\<rparr>)"
    using t(1,2) num(1) unfolding SP_inv_def by simp
  let ?w1 = "w1\<lparr>sp_adapter := a\<rparr>"
  obtain c where c: "sp_tcp ?w1 = Some c" "EP_of S R i j (c, out (wd_kernel ?w1) n)" by (rule SP_inv_tcp [OF i1])
  obtain w2 where w2: "(case seg of None \<Rightarrow> Inr ?w1
      | Some seg \<Rightarrow> with_tcp ?w1 (\<lambda>c. bindR (TCPConnection_segment_received c seg) (\<lambda>c. Inr (?w1\<lparr>sp_tcp := Some c\<rparr>)))) = Inr w2"
    and w': "with_tcp w2 (\<lambda>c. if fd_eof w2 (sp_thread_data w2) \<and> TCPConnection_bytes_in_flight c = 0 \<and> \<not> sp_fully_acked w2
            then bindR (name_destination rs A w2) (\<lambda>_. Inr (w2\<lparr>sp_fully_acked := True\<rparr>)) else Inr w2) = Inr w'"
    using assms(7) rd by (auto simp: sponge_rule1_callback_def Let_def)
  have "SP_inv A inp out S R i j n w2 \<and> wd_heap w2 = wd_heap w1 \<and> sp_adapter w2 = a \<and> sp_thread_data w2 = sp_thread_data w1"
  proof (cases seg)
    case None
    then show ?thesis using w2 i1 by auto
  next
    case (Some s)
    then obtain c' where c': "TCPConnection_segment_received c s = Inr c'" "w2 = ?w1\<lparr>sp_tcp := Some c'\<rparr>"
      using w2 c(1) by (auto simp: with_tcp_def)
    have "seg_of R j s" using assms(3) rd Some unfolding honest_peer_def by blast
    from EP_rcv [OF c(2) assms(4,5) this] have "EP_of S R i j (c', out (wd_kernel ?w1) n)" using c'(1) by (auto simp: ep_rcv_def)
    then show ?thesis using SP_inv_set_tcp [OF i1 c(1)] written.segment_received_keeps [OF refl c'(1)] c'(2) by simp
  qed
  moreover have "w' = w2 \<or> w' = w2\<lparr>sp_fully_acked := True\<rparr>"
    using w' by (auto simp: with_tcp_def split: option.splits if_splits)
  ultimately show ?thesis using t(2,3) touches_sponge(2) [OF t(1)] by (auto simp: fd_read_count_def)
qed

lemma sponge_rule2_read:
  assumes "kernel_streams K inp out" and "stream_source K inp n S" and "SP_inv A inp out S R i j n w" and "sp_tcp w = Some c"
    and "FileDescriptor_read K (sp_thread_data w) limit w = Inr (d, w1)"
  shows "d = chunk S (cn_written c) (length d)" "cn_written c + length d \<le> length S" "inp (wd_kernel w1) n = take (cn_written c + length d) S"
    "out (wd_kernel w1) n = out (wd_kernel w) n" "length d \<le> limit" "touches (sp_thread_data w) w w1"
    "fd_eof w1 (sp_thread_data w) \<longrightarrow> cn_written c + length d = length S"
    "fd_read_count w1 (sp_thread_data w) = fd_read_count w (sp_thread_data w) + 1" "fd_closed w1 (sp_thread_data w) = fd_closed w (sp_thread_data w)"
proof -
  have num: "fd_num w (sp_thread_data w) = n" "fd_eof w (sp_thread_data w) \<longrightarrow> inp (wd_kernel w) n = S"
    and c: "inp (wd_kernel w) n = take (cn_written c) S" "cn_written c \<le> length S"
    using assms(3) unfolding SP_inv_def assms(4) option.inject by blast+
  note s = FileDescriptor_read_stream [OF assms(1,5), unfolded num(1)]
  obtain rest where rest: "S = inp (wd_kernel w1) n @ rest" using assms(2) unfolding stream_source_def by blast
  then have S: "S = inp (wd_kernel w) n @ d @ rest" using s by simp
  have len: "length (inp (wd_kernel w) n) = cn_written c" using c by simp
  show d: "d = chunk S (cn_written c) (length d)" using chunk_next [OF S] len by simp
  show le: "cn_written c + length d \<le> length S" using S len by (metis append_assoc le_add1 length_append)
  have "inp (wd_kernel w1) n = inp (wd_kernel w) n @ d" using s by simp
  then show inp1: "inp (wd_kernel w1) n = take (cn_written c + length d) S"
    using rest len by (metis append_eq_conv_conj length_append)
  show "out (wd_kernel w1) n = out (wd_kernel w) n" "length d \<le> limit" using s by simp_all
  obtain r k where e: "K (Sys_read (fd_num w (sp_thread_data w)) (min BUFFER_SIZE limit)) (wd_kernel w) = (r, k)"
    "SystemCall ''read'' r 0 = Inr (int (length d))" "touches (sp_thread_data w) w w1"
    "fd_eof w1 (sp_thread_data w) \<longleftrightarrow> fd_eof w (sp_thread_data w) \<or> (limit > 0 \<and> d = [])"
    "fd_read_count w1 (sp_thread_data w) = fd_read_count w (sp_thread_data w) + 1" "fd_closed w1 (sp_thread_data w) = fd_closed w (sp_thread_data w)"
    by (rule FileDescriptor_read_effect [OF assms(5)]) blast
  show "touches (sp_thread_data w) w w1" "fd_read_count w1 (sp_thread_data w) = fd_read_count w (sp_thread_data w) + 1"
    "fd_closed w1 (sp_thread_data w) = fd_closed w (sp_thread_data w)" by (rule e)+
  have "inp (wd_kernel w) n = S" if "fd_eof w1 (sp_thread_data w)"
  proof (cases "fd_eof w (sp_thread_data w)")
    case False
    then have "limit > 0" "d = []" using e(4) that by auto
    then show ?thesis using stream_read_end [OF assms(2) num(1)] assms(5) by simp
  qed (use num(2) in blast)
  then show "fd_eof w1 (sp_thread_data w) \<longrightarrow> cn_written c + length d = length S" using len le by auto
qed

text \<open>Reading from the owner: what \<open>write()\<close> is given fits, so that it accepts all of it.\<close>

lemma sponge_rule2_effect:
  assumes "kernel_streams K inp out" and "stream_source K inp n S" and "length S < 4294967294" and "length R < 4294967294"
    and "SP_inv A inp out S R i j n w"
    and "FileDescriptor_read K (sp_thread_data w) (TCPConnection_remaining_outbound_capacity c) w = Inr (d, w1)" and "sp_tcp w = Some c"
  obtains c' where "TCPConnection_write c d = (c', length d)" "SP_inv A inp out S R i j n (w1\<lparr>sp_tcp := Some c'\<rparr>)"
    "fd_read_count w1 (sp_thread_data w) = fd_read_count w (sp_thread_data w) + 1" "touches (sp_thread_data w) w w1"
proof -
  note rd = sponge_rule2_read [OF assms(1,2,5,7,6)]
  have ep: "EP_of S R i j (c, out (wd_kernel w) n)" and fields: "fd_num w (sp_thread_data w) = n"
      "fd_num w (ad_fd A (sp_adapter w)) \<noteq> n" "\<not> fd_closed w (sp_thread_data w)"
    using assms(5) unfolding SP_inv_def assms(7) option.inject by blast+
  obtain c' where c': "TCPConnection_write c d = (c', length d)" "EP_of S R i j (c', out (wd_kernel w) n)"
    "cn_written c' = cn_written c + length d" by (rule TCPConnection_write_all [OF ep assms(3,4) rd(1,5,2)])
  have "SP_inv A inp out S R i j n (w1\<lparr>sp_tcp := Some c'\<rparr>)"
    using rd(2-4,7,9) c'(2,3) fields unfolding SP_inv_def
    by (simp add: touches_sponge [OF rd(6)] touches_fields(2) [OF rd(6)])
  then show ?thesis using that c'(1) rd(6,8) by blast
qed

lemma SP_inv_end:
  assumes "SP_inv A inp out S R i j n w" and "inp (wd_kernel w) n = S" and "sp_tcp w = Some c"
    and "length S < 4294967294" and "length R < 4294967294"
  shows "SP_inv A inp out S R i j n (w\<lparr>sp_tcp := Some (TCPConnection_end_input_stream c)\<rparr>)"
proof -
  have c: "EP_of S R i j (c, out (wd_kernel w) n)" "S = take (cn_written c) S" "cn_written c \<le> length S"
    using assms(1) unfolding SP_inv_def assms(2,3) option.inject by blast+
  then have "cn_written c = length S" by (metis length_take min.absorb2)
  then show ?thesis using SP_inv_set_tcp [OF assms(1,3)] end_input_keeps [OF c(1) assms(4,5)] by simp
qed

lemma sponge_rule2_keeps:
  assumes "kernel_streams K inp out" and "stream_source K inp n S" and "length S < 4294967294" and "length R < 4294967294"
    and "SP_inv A inp out S R i j n w" and "sponge_rule2_callback K rs A w = Inr w'"
  shows "SP_inv A inp out S R i j n w' \<and> sp_thread_data w' = sp_thread_data w \<and> sp_adapter w' = sp_adapter w \<and>
    fd_read_count w' (sp_thread_data w) = fd_read_count w (sp_thread_data w) + 1"
proof -
  obtain c where c: "sp_tcp w = Some c" by (rule SP_inv_tcp [OF assms(5)])
  obtain d w1 where rd: "FileDescriptor_read K (sp_thread_data w) (TCPConnection_remaining_outbound_capacity c) w = Inr (d, w1)"
    using assms(6) c by (auto simp: sponge_rule2_callback_def with_tcp_def)
  obtain c' where c': "TCPConnection_write c d = (c', length d)" "SP_inv A inp out S R i j n (w1\<lparr>sp_tcp := Some c'\<rparr>)"
    "fd_read_count w1 (sp_thread_data w) = fd_read_count w (sp_thread_data w) + 1" "touches (sp_thread_data w) w w1"
    by (rule sponge_rule2_effect [OF assms(1-5) rd c])
  let ?w1 = "w1\<lparr>sp_tcp := Some c'\<rparr>" and ?w2 = "w1\<lparr>sp_tcp := Some (TCPConnection_end_input_stream c'), sp_outbound_shutdown := True\<rparr>"
  have "w' = ?w1 \<or> fd_eof ?w1 (sp_thread_data ?w1) \<and> w' = ?w2"
    using assms(6) c rd c'(1) by (auto simp: sponge_rule2_callback_def with_tcp_def Let_def split: if_splits)
  moreover have "SP_inv A inp out S R i j n ?w2" if "fd_eof ?w1 (sp_thread_data ?w1)"
  proof -
    have "inp (wd_kernel ?w1) n = S" using c'(2) that unfolding SP_inv_def by blast
    then show ?thesis using SP_inv_end [OF c'(2) _ _ assms(3,4), of c'] by simp
  qed
  ultimately have "(w' = ?w1 \<or> w' = ?w2) \<and> SP_inv A inp out S R i j n w'" using c'(2) by blast
  then show ?thesis using c'(3) touches_sponge(2,3) [OF c'(4)] by (auto simp: fd_read_count_def)
qed

text \<open>Writing to the owner is a read of the connection.\<close>

lemma sponge_rule3_write:
  assumes "kernel_streams K inp out" and "length S < 4294967294" and "length R < 4294967294"
    and "SP_inv A inp out S R i j n w" and "sp_tcp w = Some c"
    and "FileDescriptor_write K (sp_thread_data w) [ByteStream_peek_output (TCPConnection_inbound_stream c) (min 65536 l)] False w = Inr (m, w1)"
  shows "SP_inv A inp out S R i j n (w1\<lparr>sp_tcp := Some (set_inbound_stream c (ByteStream_pop_output (TCPConnection_inbound_stream c) m))\<rparr>)"
    and "touches (sp_thread_data w) w w1" and "fd_write_count w1 (sp_thread_data w) = fd_write_count w (sp_thread_data w) + 1"
proof -
  let ?d = "ByteStream_peek_output (TCPConnection_inbound_stream c) (min 65536 l)" and ?fd = "sp_thread_data w"
  have small: "length (concat [?d]) < 2 ^ 63" by (simp add: ByteStream_peek_output_def Let_def)
  have ep: "EP_of S R i j (c, out (wd_kernel w) n)" and num: "fd_num w ?fd = n"
    and inv: "fd_num w (ad_fd A (sp_adapter w)) \<noteq> n" "\<not> fd_closed w ?fd" "fd_eof w ?fd \<longrightarrow> inp (wd_kernel w) n = S"
      "inp (wd_kernel w) n = take (cn_written c) S" "cn_written c \<le> length S"
    using assms(4) unfolding SP_inv_def assms(5) option.inject by blast+
  note s = FileDescriptor_write_stream [OF assms(1) small assms(6), unfolded num]
  show t: "touches ?fd w w1" and "fd_write_count w1 ?fd = fd_write_count w ?fd + 1" using s by blast+
  obtain r k m' where "w1 = register_write ?fd (w\<lparr>wd_kernel := k\<rparr>)" by (rule FileDescriptor_write_once [OF assms(6)])
  then have closed: "fd_closed w1 ?fd = fd_closed w ?fd" by (simp add: register_write_def fd_update_def fd_closed_def)
  have m: "m \<le> length ?d" using s by simp
  have o: "out (wd_kernel w1) n = out (wd_kernel w) n @ take m ?d" using s by simp
  note ep' = inbound_taken [OF ep assms(2,3) m]
  show "SP_inv A inp out S R i j n (w1\<lparr>sp_tcp := Some (set_inbound_stream c (ByteStream_pop_output (TCPConnection_inbound_stream c) m))\<rparr>)"
    using inv num s ep' closed unfolding SP_inv_def o by (simp add: touches_sponge [OF t] touches_fields(2) [OF t])
qed

lemma SP_inv_shutdown:
  assumes "kernel_streams K inp out" and "SP_inv A inp out S R i j n w" and "Socket_shutdown K (sp_thread_data w) SHUT_WR w = Inr w'"
  shows "SP_inv A inp out S R i j n w' \<and> touches (sp_thread_data w) w w' \<and> fd_write_count w' (sp_thread_data w) = fd_write_count w (sp_thread_data w) + 1"
proof -
  let ?fd = "sp_thread_data w"
  obtain r w1 where w1: "syscall K (Sys_shutdown (fd_num w ?fd) SHUT_WR) w = (r, w1)" "w' = register_write ?fd w1" "touches ?fd w w'"
    by (rule Socket_shutdown_effect [OF assms(3)])
  have k: "inp (wd_kernel w') = inp (wd_kernel w) \<and> out (wd_kernel w') = out (wd_kernel w)"
    using kernel_streams_other [OF assms(1) w1(1)] by (simp add: w1(2) register_write_def fd_update_def)
  have f: "fd_eof w' ?fd = fd_eof w ?fd" "fd_closed w' ?fd = fd_closed w ?fd" "fd_write_count w' ?fd = fd_write_count w ?fd + 1"
    using syscall_heap [OF w1(1)] by (simp_all add: w1(2) register_write_def fd_update_def fd_eof_def fd_closed_def fd_write_count_def)
  show ?thesis using SP_inv_touches [OF assms(2) w1(3)] k f w1(3) by simp
qed

lemma sponge_rule3_keeps:
  assumes "kernel_streams K inp out" and "length S < 4294967294" and "length R < 4294967294"
    and "SP_inv A inp out S R i j n w" and "sponge_rule3_callback K rs A w = Inr w'"
  shows "SP_inv A inp out S R i j n w' \<and> sp_thread_data w' = sp_thread_data w \<and> sp_adapter w' = sp_adapter w \<and>
    fd_write_count w' (sp_thread_data w) \<noteq> fd_write_count w (sp_thread_data w)"
proof -
  obtain c where c: "sp_tcp w = Some c" by (rule SP_inv_tcp [OF assms(4)])
  let ?in = "TCPConnection_inbound_stream c"
  let ?d = "ByteStream_peek_output ?in (min 65536 (ByteStream_buffer_size ?in))"
  obtain m w1 where wr: "FileDescriptor_write K (sp_thread_data w) [?d] False w = Inr (m, w1)"
    using assms(5) c by (auto simp: sponge_rule3_callback_def with_tcp_def Let_def BufferViewList_of_string_def)
  note s = sponge_rule3_write [OF assms(1-4) c wr]
  let ?w1 = "w1\<lparr>sp_tcp := Some (set_inbound_stream c (ByteStream_pop_output ?in m))\<rparr>"
  have "w' = ?w1 \<or> (\<exists>w2. Socket_shutdown K (sp_thread_data ?w1) SHUT_WR ?w1 = Inr w2 \<and> w' = w2\<lparr>sp_inbound_shutdown := True\<rparr>)"
    using assms(5) c wr by (auto simp: sponge_rule3_callback_def with_tcp_def Let_def BufferViewList_of_string_def split: if_splits)
  then show ?thesis
  proof
    assume "w' = ?w1"
    then show ?thesis using s touches_sponge [OF s(2)] by (simp add: fd_write_count_def)
  next
    assume "\<exists>w2. Socket_shutdown K (sp_thread_data ?w1) SHUT_WR ?w1 = Inr w2 \<and> w' = w2\<lparr>sp_inbound_shutdown := True\<rparr>"
    then obtain w2 where w2: "Socket_shutdown K (sp_thread_data ?w1) SHUT_WR ?w1 = Inr w2" "w' = w2\<lparr>sp_inbound_shutdown := True\<rparr>" by blast
    note s2 = SP_inv_shutdown [OF assms(1) s(1) w2(1)]
    then have t2: "touches (sp_thread_data ?w1) ?w1 w2" by blast
    show ?thesis using s s2 w2(2) touches_sponge [OF s(2)] touches_sponge [OF t2] by (simp add: fd_write_count_def)
  qed
qed

text \<open>Sending empties the queue.\<close>

lemma sponge_send_all_effect:
  assumes "fd_adapter A" and "adapter_apart A inp out n" and "SP_inv A inp out S R i j n w" and "sp_tcp w = Some c"
    and "sponge_send_all A segs c w = Inr w'"
  shows "\<exists>w2. SP_inv A inp out S R i j n w2 \<and> sp_tcp w2 = Some c \<and> w' = w2\<lparr>sp_tcp := Some (c\<lparr>cn_segments_out := []\<rparr>)\<rparr> \<and>
    sp_thread_data w2 = sp_thread_data w \<and> ad_fd A (sp_adapter w2) = ad_fd A (sp_adapter w)"
  using assms(3-5)
proof (induction segs arbitrary: w)
  case Nil
  then show ?case by auto
next
  case (Cons seg segs)
  obtain a w1 where w1: "ad_write A (sp_adapter w) seg w = Inr (a, w1)" "sponge_send_all A segs c (w1\<lparr>sp_adapter := a\<rparr>) = Inr w'"
    using Cons.prems(3) by auto
  have t: "touches (ad_fd A (sp_adapter w)) w w1" "ad_fd A a = ad_fd A (sp_adapter w)"
    using fd_adapter.write_serves [OF assms(1) w1(1)] by blast+
  have num: "fd_num w (ad_fd A (sp_adapter w)) \<noteq> n" "fd_num w (sp_thread_data w) = n" using Cons.prems(1) unfolding SP_inv_def by blast+
  then have ne: "ad_fd A (sp_adapter w) \<noteq> sp_thread_data w" by metis
  have "inp (wd_kernel w1) n = inp (wd_kernel w) n" "out (wd_kernel w1) n = out (wd_kernel w) n"
    using assms(2) num(1) w1(1) unfolding adapter_apart_def by blast+
  then have "SP_inv A inp out S R i j n w1" using SP_inv_touches [OF Cons.prems(1) t(1)] ne by blast
  then have "SP_inv A inp out S R i j n (w1\<lparr>sp_adapter := a\<rparr>)" using t num(1) unfolding SP_inv_def by simp
  from Cons.IH [OF this _ w1(2)] show ?case using Cons.prems(2) t(2) touches_sponge [OF t(1)] by auto
qed

lemma sponge_rule4_keeps:
  assumes "fd_adapter A" and "adapter_apart A inp out n" and "length S < 4294967294" and "length R < 4294967294"
    and "SP_inv A inp out S R i j n w" and "sponge_rule4_callback A w = Inr w'"
  shows "SP_inv A inp out S R i j n w' \<and> sp_thread_data w' = sp_thread_data w \<and> ad_fd A (sp_adapter w') = ad_fd A (sp_adapter w) \<and>
    \<not> sponge_rule4_interest w'"
proof -
  obtain c where c: "sp_tcp w = Some c" by (rule SP_inv_tcp [OF assms(5)])
  have "sponge_send_all A (cn_segments_out c) c w = Inr w'" using assms(6) c by (simp add: sponge_rule4_callback_def with_tcp_def)
  from sponge_send_all_effect [OF assms(1,2,5) c this]
  obtain w2 where w2: "SP_inv A inp out S R i j n w2" "sp_tcp w2 = Some c" "w' = w2\<lparr>sp_tcp := Some (c\<lparr>cn_segments_out := []\<rparr>)\<rparr>"
    "sp_thread_data w2 = sp_thread_data w" "ad_fd A (sp_adapter w2) = ad_fd A (sp_adapter w)" by blast
  have "EP_of S R i j (c, out (wd_kernel w2) n)" using w2(1) unfolding SP_inv_def w2(2) option.inject by blast
  from EP_app [OF this assms(3,4), of Ep_take] have "SP_inv A inp out S R i j n w'"
    using SP_inv_set_tcp [OF w2(1,2), of "c\<lparr>cn_segments_out := []\<rparr>"] w2(3) by (simp add: cn_written_def)
  then show ?thesis using w2(3-5) by (simp add: sponge_rule4_interest_def tcp_or_def)
qed

lemma sponge_time_keeps:
  assumes "fd_adapter A" and "kernel_streams K inp out" and "length S < 4294967294" and "length R < 4294967294"
    and "SP_inv A inp out S R i j n w" and "sp_tcp w = Some c" and "timestamp_ms K w = (t, w1)"
  shows "SP_inv A inp out S R i j n (sponge_time_passes A ms c w1) \<and> sp_thread_data (sponge_time_passes A ms c w1) = sp_thread_data w \<and>
    ad_fd A (sp_adapter (sponge_time_passes A ms c w1)) = ad_fd A (sp_adapter w)"
proof -
  obtain r where r: "syscall K Sys_clock w = (r, w1)" using assms(7) by (auto simp: timestamp_ms_def split: prod.splits)
  have i1: "SP_inv A inp out S R i j n w1" using SP_inv_quiet [OF assms(5,2) r] by simp
  note t = touches_sponge [OF syscall_touches [OF r]]
  have tcp: "sp_tcp w1 = Some c" using assms(6) t by simp
  have "EP_of S R i j (c, out (wd_kernel w1) n)" using i1 unfolding SP_inv_def tcp option.inject by blast
  from EP_app [OF this assms(3,4), of "Ep_tick ms"]
  have i2: "SP_inv A inp out S R i j n (w1\<lparr>sp_tcp := Some (TCPConnection_tick c ms)\<rparr>)"
    using SP_inv_set_tcp [OF i1 tcp] written.tick_keeps [OF refl] by simp
  note fd = fd_adapter.same_fd(1) [OF assms(1)]
  have "SP_inv A inp out S R i j n (sponge_time_passes A ms c w1)"
    using i2 SP_inv_adapter [of A "ad_tick A (sp_adapter w1) ms" "w1\<lparr>sp_tcp := Some (TCPConnection_tick c ms)\<rparr>"]
    by (simp add: sponge_time_passes_def fd)
  then show ?thesis using t by (simp add: sponge_time_passes_def fd)
qed

section \<open>The client of the event loop\<close>

text \<open>
  Of the exceptions the callbacks can throw, two would be faults of the socket itself: a connection that accepts less than
  it announced, and a callback that the loop takes for a busy wait.
\<close>

definition own_fault :: "cpp_exn \<Rightarrow> bool" where
  "own_fault e \<longleftrightarrow> e = accepted_less \<or> e = busy_wait"

definition adapter_blameless :: "('a, ('k, 'z) world_scheme) AdaptT \<Rightarrow> bool" where
  "adapter_blameless A \<longleftrightarrow> (\<forall>a w e. ad_read A a w = Inl e \<longrightarrow> \<not> own_fault e) \<and> (\<forall>a s w e. ad_write A a s w = Inl e \<longrightarrow> \<not> own_fault e)"

lemma no_runtime_error [simp]:
  "SystemCall a r m \<noteq> Inl (runtime_error s)" "BufferViewList_remove_prefix vs l \<noteq> Inl (runtime_error s)" "stoi t \<noteq> Inl (runtime_error s)"
proof -
  show "SystemCall a r m \<noteq> Inl (runtime_error s)" by (simp add: SystemCall_def)
  show "BufferViewList_remove_prefix vs l \<noteq> Inl (runtime_error s)"
    by (induction vs l rule: BufferViewList_remove_prefix.induct) simp_all
  show "stoi t \<noteq> Inl (runtime_error s)" by (simp add: stoi_def Let_def split: prod.split)
qed

lemma io_blameless:
  assumes "own_fault e"
  shows "FileDescriptor_read K fd limit w \<noteq> Inl e" "FileDescriptor_write K fd buffer False w \<noteq> Inl e" "Socket_shutdown K fd how w \<noteq> Inl e"
    "name_destination rs A w' \<noteq> Inl e"
proof -
  have e: "e = accepted_less \<or> e = busy_wait" using assms by (simp add: own_fault_def)
  show "FileDescriptor_read K fd limit w \<noteq> Inl e"
    using e by (auto simp: FileDescriptor_read_def Let_def bindR_eq_Inl split: prod.splits)
  show "FileDescriptor_write K fd buffer False w \<noteq> Inl e"
    using e unfolding FileDescriptor_write_def FileDescriptor_write_loop.simps [of K fd False buffer 0 w]
    by (elim disjE; auto simp: bindR_eq_Inl split: prod.splits)
  show "Socket_shutdown K fd how w \<noteq> Inl e"
    using e by (auto simp: Socket_shutdown_def bindR_eq_Inl split: prod.splits)
  show "name_destination rs A w' \<noteq> Inl e"
    using e by (auto simp: name_destination_def Address_to_string_def Address_ip_port_def bindR_eq_Inl Let_def split: prod.splits)
qed

lemma parse_no_runtime_error:
  "NetParser_parse_int l p \<noteq> Inl (runtime_error s)" "NetParser_remove_prefix p m \<noteq> Inl (runtime_error s)" "TCPHeader_parse p \<noteq> Inl (runtime_error s)"
proof -
  have b: "Buffer_at b m \<noteq> Inl (runtime_error s)" "Buffer_remove_prefix b m \<noteq> Inl (runtime_error s)" for b m
    by (simp_all add: Buffer_at_def Buffer_remove_prefix_def Let_def)
  have "NetParser_int_loop b m k x \<noteq> Inl (runtime_error s)" for b m k and x :: "'b::len word"
    by (induction b m k x rule: NetParser_int_loop.induct) (auto simp: bindR_eq_Inl b)
  then show int: "NetParser_parse_int l p \<noteq> Inl (runtime_error s)" for l and p :: NetParser
    by (auto simp: NetParser_parse_int_def Let_def bindR_eq_Inl b)
  show rp: "NetParser_remove_prefix p m \<noteq> Inl (runtime_error s)" for p m by (auto simp: NetParser_remove_prefix_def Let_def bindR_eq_Inl b)
  show "TCPHeader_parse p \<noteq> Inl (runtime_error s)"
    by (auto simp: TCPHeader_parse_def NetParser_u8_def NetParser_u16_def NetParser_u32_def Let_def bindR_eq_Inl int rp split: if_splits)
qed

text \<open>The adapter over UDP is such an adapter.\<close>

lemma udp_blameless: "adapter_blameless (TCPOverUDPSocketAdapter rs K)"
proof -
  have r: "UDPSocket_recv K fd mtu w \<noteq> Inl e" and s: "UDPSocket_sendto K fd dest pl w \<noteq> Inl e" if "own_fault e" for fd mtu w e dest pl
    using that by (auto simp: own_fault_def UDPSocket_recv_def UDPSocket_recv_into_def UDPSocket_sendto_def sendmsg_helper_def
        Address_of_sockaddr_def Let_def bindR_eq_Inl split: prod.splits if_splits)
  have p: "UDPSocketAdapter_read a d \<noteq> Inl e" if "own_fault e" for a d e
    using that by (auto simp: own_fault_def UDPSocketAdapter_read_def TCPSegment_parse_def parse_no_runtime_error Let_def bindR_eq_Inl
        split: if_splits)
  have t: "Address_port rs a \<noteq> Inl e" "TCPSegment_serialize seg ck \<noteq> Inl e" if "own_fault e" for a seg ck e
    using that by (auto simp: own_fault_def Address_port_def Address_ip_port_def TCPSegment_serialize_def TCPHeader_serialize_def Let_def
        bindR_eq_Inl split: prod.splits if_splits)
  have w: "UDPSocketAdapter_write rs a seg \<noteq> Inl e" if "own_fault e" for a seg e
    by (auto simp: UDPSocketAdapter_write_def Let_def bindR_eq_Inl t [OF that])
  show ?thesis
    by (auto simp: adapter_blameless_def TCPOverUDPSocketAdapter_def bindR_eq_Inl r s p w split: prod.splits)
qed

lemma sponge_rule1_blameless:
  assumes "adapter_blameless A" and "fd_adapter A" and "adapter_apart A inp out n" and "honest_peer A R j" and "length S < 4294967294" and "length R < 4294967294"
    and "SP_inv A inp out S R i j n w" and "own_fault e"
  shows "sponge_rule1_callback rs A w \<noteq> Inl e"
proof
  assume x: "sponge_rule1_callback rs A w = Inl e"
  obtain c where c: "sp_tcp w = Some c" "EP_of S R i j (c, out (wd_kernel w) n)" by (rule SP_inv_tcp [OF assms(7)])
  show False
  proof (cases "ad_read A (sp_adapter w) w")
    case (Inl e')
    then show ?thesis using x assms(1,8) by (auto simp: sponge_rule1_callback_def adapter_blameless_def)
  next
    case (Inr y)
    then obtain a seg w1 where rd: "ad_read A (sp_adapter w) w = Inr ((a, seg), w1)" by (cases y) auto
    then have tcp: "sp_tcp w1 = Some c" using fd_adapter.read_serves [OF assms(2) rd] touches_sponge(4) c(1) by metis
    have "\<exists>c'. TCPConnection_segment_received c s = Inr c'" if "seg = Some s" for s
    proof -
      have "seg_of R j s" using assms(4) rd that unfolding honest_peer_def by blast
      from EP_rcv [OF c(2) assms(5,6) this] show ?thesis by (auto simp: ep_rcv_def)
    qed
    then show ?thesis
      using x rd tcp
      by (cases seg) (auto simp: io_blameless [OF assms(8)] sponge_rule1_callback_def with_tcp_def bindR_eq_Inl Let_def split: if_splits)
  qed
qed

lemma sponge_rule2_blameless:
  assumes "kernel_streams K inp out" and "stream_source K inp n S" and "length S < 4294967294" and "length R < 4294967294"
    and "SP_inv A inp out S R i j n w" and "own_fault e"
  shows "sponge_rule2_callback K rs A w \<noteq> Inl e"
proof
  assume x: "sponge_rule2_callback K rs A w = Inl e"
  obtain c where c: "sp_tcp w = Some c" by (rule SP_inv_tcp [OF assms(5)])
  show False
  proof (cases "FileDescriptor_read K (sp_thread_data w) (TCPConnection_remaining_outbound_capacity c) w")
    case (Inl e')
    then show ?thesis using x c by (simp add: io_blameless [OF assms(6)] sponge_rule2_callback_def with_tcp_def)
  next
    case (Inr y)
    then obtain d w1 where rd: "FileDescriptor_read K (sp_thread_data w) (TCPConnection_remaining_outbound_capacity c) w = Inr (d, w1)"
      by (cases y) auto
    obtain c' where "TCPConnection_write c d = (c', length d)" by (rule sponge_rule2_effect [OF assms(1-5) rd c])
    then show ?thesis
      using x c rd
      by (auto simp: io_blameless [OF assms(6)] sponge_rule2_callback_def with_tcp_def bindR_eq_Inl Let_def split: if_splits)
  qed
qed

lemma sponge_rule3_blameless:
  assumes "own_fault e" and "sp_tcp w = Some c"
  shows "sponge_rule3_callback K rs A w \<noteq> Inl e"
  using assms(2)
  by (auto simp: io_blameless [OF assms(1)] sponge_rule3_callback_def with_tcp_def bindR_eq_Inl Let_def split: if_splits)

lemma sponge_rule4_blameless:
  assumes "adapter_blameless A" and "own_fault e" and "sp_tcp w = Some c"
  shows "sponge_rule4_callback A w \<noteq> Inl e"
proof -
  have "sponge_send_all A segs c w \<noteq> Inl e" for segs c w
    using assms(1,2) by (induction segs arbitrary: w) (auto simp: bindR_eq_Inl adapter_blameless_def)
  then show ?thesis using assms(3) by (simp add: sponge_rule4_callback_def with_tcp_def)
qed

text \<open>
  A local stream socket that has been hung up is readable, so that the loop reads the end of the file instead of
  cancelling the rule.
\<close>

definition hangup_readable :: "'k kernel \<Rightarrow> int \<Rightarrow> bool" where
  "hangup_readable K n \<longleftrightarrow> (\<forall>ps t k r k' re. K (Sys_poll ps t) k = (r, k') \<longrightarrow> ((n, POLLIN), re) \<in> set (zip ps (sr_revents r)) \<longrightarrow>
     re AND POLLHUP \<noteq> 0 \<longrightarrow> re AND POLLIN \<noteq> 0)"

definition sponge_setting ::
  "'k kernel \<Rightarrow> ('k, 'a) sponge_ops \<Rightarrow> ('k \<Rightarrow> int \<Rightarrow> byte list) \<Rightarrow> ('k \<Rightarrow> int \<Rightarrow> byte list) \<Rightarrow> byte list \<Rightarrow> byte list \<Rightarrow>
   WrappingInt32 \<Rightarrow> int \<Rightarrow> bool" where
  "sponge_setting K A inp out S R j n \<longleftrightarrow>
     fd_adapter A \<and> adapter_apart A inp out n \<and> adapter_blameless A \<and> honest_peer A R j \<and>
     kernel_streams K inp out \<and> stream_source K inp n S \<and> hangup_readable K n \<and> length S < 4294967294 \<and> length R < 4294967294"

definition SP_at where
  "SP_at K A inp out S R i j n w0 w \<longleftrightarrow> sponge_setting K A inp out S R j n \<and> SP_inv A inp out S R i j n w \<and>
     sp_thread_data w = sp_thread_data w0 \<and> ad_fd A (sp_adapter w) = ad_fd A (sp_adapter w0)"

lemma sponge_rules_cases:
  assumes "r \<in> set (sponge_rules K rs A w0)"
  obtains (rule1) "r = \<lparr>ru_fd = ad_fd A (sp_adapter w0), ru_direction = Dir_In, ru_callback = sponge_rule1_callback rs A,
      ru_interest = sponge_rule1_interest, ru_cancel = Inr\<rparr>"
    | (rule2) "r = \<lparr>ru_fd = sp_thread_data w0, ru_direction = Dir_In, ru_callback = sponge_rule2_callback K rs A,
      ru_interest = sponge_rule2_interest, ru_cancel = sponge_rule2_cancel\<rparr>"
    | (rule3) "r = \<lparr>ru_fd = sp_thread_data w0, ru_direction = Dir_Out, ru_callback = sponge_rule3_callback K rs A,
      ru_interest = sponge_rule3_interest, ru_cancel = Inr\<rparr>"
    | (rule4) "r = \<lparr>ru_fd = ad_fd A (sp_adapter w0), ru_direction = Dir_Out, ru_callback = sponge_rule4_callback A,
      ru_interest = sponge_rule4_interest, ru_cancel = Inr\<rparr>"
  using assms by (auto simp: sponge_rules_def add_rule_def FileDescriptor_duplicate_def Let_def)

lemma sponge_cancel_keeps:
  assumes "SP_at K A inp out S R i j n w0 w" and "fd_eof w (sp_thread_data w)" and "sponge_rule2_cancel w = Inr w'"
  shows "SP_at K A inp out S R i j n w0 w'"
proof -
  have i: "SP_inv A inp out S R i j n w" "length S < 4294967294" "length R < 4294967294"
    using assms(1) unfolding SP_at_def sponge_setting_def by blast+
  obtain c where c: "sp_tcp w = Some c" by (rule SP_inv_tcp [OF i(1)])
  have "inp (wd_kernel w) n = S" using i(1) assms(2) unfolding SP_inv_def by blast
  then have "SP_inv A inp out S R i j n (w\<lparr>sp_tcp := Some (TCPConnection_end_input_stream c)\<rparr>)" by (rule SP_inv_end [OF i(1) _ c i(2,3)])
  then show ?thesis using assms(1,3) c by (auto simp: SP_at_def sponge_rule2_cancel_def with_tcp_def)
qed

lemma sponge_poll_keeps:
  assumes "SP_at K A inp out S R i j n w0 w" and "syscall K (Sys_poll ps t) w = (ret, w')"
  shows "SP_at K A inp out S R i j n w0 w'"
proof -
  have i: "SP_inv A inp out S R i j n w" and k: "kernel_streams K inp out" using assms(1) unfolding SP_at_def sponge_setting_def by blast+
  have "SP_inv A inp out S R i j n w'" using SP_inv_quiet [OF i k assms(2)] by simp
  then show ?thesis using assms(1) touches_sponge [OF syscall_touches [OF assms(2)]] by (simp add: SP_at_def)
qed

lemma sponge_callback_keeps:
  assumes "r \<in> set (sponge_rules K rs A w0)" and "SP_at K A inp out S R i j n w0 w" and "ru_callback r w = Inr w'"
  shows "SP_at K A inp out S R i j n w0 w' \<and> (service_count r w' \<noteq> service_count r w \<or> \<not> ru_interest r w')"
proof -
  have s: "sponge_setting K A inp out S R j n" "SP_inv A inp out S R i j n w" "sp_thread_data w = sp_thread_data w0"
      "ad_fd A (sp_adapter w) = ad_fd A (sp_adapter w0)"
    using assms(2) unfolding SP_at_def by blast+
  note h = s(1) [unfolded sponge_setting_def]
  from assms(1) show ?thesis
  proof (cases rule: sponge_rules_cases)
    case rule1
    then show ?thesis
      using sponge_rule1_keeps [of A inp out n R j S i w rs w'] h s assms(3) by (simp add: SP_at_def service_count_def)
  next
    case rule2
    then show ?thesis
      using sponge_rule2_keeps [of K inp out n S R A i j w rs w'] h s assms(3) by (simp add: SP_at_def service_count_def)
  next
    case rule3
    then show ?thesis
      using sponge_rule3_keeps [of K inp out S R A i j n w rs w'] h s assms(3) by (simp add: SP_at_def service_count_def)
  next
    case rule4
    then show ?thesis
      using sponge_rule4_keeps [of A inp out n S R i j w w'] h s assms(3) by (simp add: SP_at_def)
  qed
qed

lemma sponge_callback_blameless:
  assumes "r \<in> set (sponge_rules K rs A w0)" and "SP_at K A inp out S R i j n w0 w" and "ru_callback r w = Inl e"
  shows "\<not> own_fault e"
proof
  assume e: "own_fault e"
  have s: "sponge_setting K A inp out S R j n" "SP_inv A inp out S R i j n w" using assms(2) unfolding SP_at_def by blast+
  note h = s(1) [unfolded sponge_setting_def]
  obtain c where c: "sp_tcp w = Some c" by (rule SP_inv_tcp [OF s(2)])
  from assms(1) show False
  proof (cases rule: sponge_rules_cases)
    case rule1
    then show ?thesis using sponge_rule1_blameless [of A inp out n R j S i w e rs] h s(2) e assms(3) by simp
  next
    case rule2
    then show ?thesis using sponge_rule2_blameless [of K inp out n S R A i j w e rs] h s(2) e assms(3) by simp
  next
    case rule3
    then show ?thesis using sponge_rule3_blameless [OF e c] assms(3) by simp
  next
    case rule4
    then show ?thesis using sponge_rule4_blameless [OF _ e c] h assms(3) by simp
  qed
qed

interpretation sponge: event_client K "SP_at K A inp out S R i j n w0" "sponge_rules K rs A w0"
  "\<lambda>r. ru_direction r = Dir_Out \<or> ru_fd r \<noteq> sp_thread_data w0" "\<lambda>e. \<not> own_fault e" for K A inp out S R i j n w0 rs
proof unfold_locales
  fix r w wa ps t ret w' re
  assume r: "r \<in> set (sponge_rules K rs A w0)" and w: "SP_at K A inp out S R i j n w0 wa" and p: "syscall K (Sys_poll ps t) w = (ret, w')"
    and e: "((fd_num wa (ru_fd r), direction_events (ru_direction r)), re) \<in> set (zip ps (sr_revents ret))"
      "hup_unready (direction_events (ru_direction r)) re"
  have n: "fd_num wa (sp_thread_data w0) = n" "hangup_readable K n"
    using w unfolding SP_at_def SP_inv_def sponge_setting_def by (elim conjE; simp)+
  have k: "K (Sys_poll ps t) (wd_kernel w) = (ret, wd_kernel w')" using p by (auto simp: syscall_def split: prod.splits)
  show "ru_direction r = Dir_Out \<or> ru_fd r \<noteq> sp_thread_data w0"
  proof (rule ccontr)
    assume "\<not> (ru_direction r = Dir_Out \<or> ru_fd r \<noteq> sp_thread_data w0)"
    then have d: "ru_direction r = Dir_In" "ru_fd r = sp_thread_data w0" by (cases "ru_direction r"; simp)+
    then have "((n, POLLIN), re) \<in> set (zip ps (sr_revents ret))" "re AND POLLHUP \<noteq> 0" "re AND POLLIN = 0"
      using e n(1) by (simp_all add: hup_unready_def)
    then show False using n(2) k unfolding hangup_readable_def by blast
  qed
next
  fix r w w'
  assume r: "r \<in> set (sponge_rules K rs A w0)" and i: "SP_at K A inp out S R i j n w0 w"
    and c: "cancels (\<lambda>r. ru_direction r = Dir_Out \<or> ru_fd r \<noteq> sp_thread_data w0) r w" "ru_cancel r w = Inr w'"
  have opened: "\<not> fd_closed w (sp_thread_data w0)" "sp_thread_data w = sp_thread_data w0" using i unfolding SP_at_def SP_inv_def by auto
  from r show "SP_at K A inp out S R i j n w0 w'"
  proof (cases rule: sponge_rules_cases)
    case rule2
    then show ?thesis using sponge_cancel_keeps [OF i, of w'] c opened by (simp add: cancels_def)
  qed (use c(2) i in simp_all)
next
  fix r w e
  assume r: "r \<in> set (sponge_rules K rs A w0)" and i: "SP_at K A inp out S R i j n w0 w" and c: "ru_cancel r w = Inl e"
  obtain cn where "sp_tcp w = Some cn" using i SP_inv_tcp unfolding SP_at_def by blast
  with r c show "\<not> own_fault e" by (cases rule: sponge_rules_cases) (simp_all add: sponge_rule2_cancel_def with_tcp_def)
qed (fact sponge_poll_keeps sponge_callback_keeps sponge_callback_blameless)+

section \<open>Runs of the TCP thread\<close>

text \<open>The states that the loop of \<open>_tcp_loop\<close> goes through, whatever its condition.\<close>

inductive sponge_run ::
  "'k kernel \<Rightarrow> ('k, 'a) sponge_ops \<Rightarrow> ('k, 'a) sponge Rule list \<Rightarrow> ('k, 'a) sponge \<Rightarrow> ('k, 'a) sponge Rule list \<Rightarrow> ('k, 'a) sponge \<Rightarrow> bool"
  for K A rules0 w0 where
  start: "sponge_run K A rules0 w0 rules0 w0"
| round: "sponge_run K A rules0 w0 rules w \<Longrightarrow> wait_next_event K TCP_TICK_MS rules w = Inr (ret, rules', w') \<Longrightarrow>
    sponge_run K A rules0 w0 rules' w'"
| time: "sponge_run K A rules0 w0 rules w \<Longrightarrow> sp_tcp w = Some c \<Longrightarrow> timestamp_ms K w = (t, w') \<Longrightarrow>
    sponge_run K A rules0 w0 rules (sponge_time_passes A ms c w')"
| clock: "sponge_run K A rules0 w0 rules w \<Longrightarrow> timestamp_ms K w = (t, w') \<Longrightarrow> sponge_run K A rules0 w0 rules w'"

lemma sponge_run_trans: "sponge_run K A rules1 w1 rules2 w2 \<Longrightarrow> sponge_run K A rules0 w0 rules1 w1 \<Longrightarrow> sponge_run K A rules0 w0 rules2 w2"
  by (induction rule: sponge_run.induct) (auto intro: sponge_run.intros)

lemma tcp_loop_from_run:
  assumes "tcp_loop_from K A condition base_time rules w = Some ret"
  shows "\<exists>rules' w'. sponge_run K A rules w rules' w' \<and>
    (ret = Inr (rules', w') \<or> (\<exists>e. ret = Inl e \<and> (wait_next_event K TCP_TICK_MS rules' w' = Inl e \<or> sp_tcp w' = None)))"
proof (rule tcp_loop_from.raw_induct [OF _ assms], goal_cases)
  case (1 tcp_loop_from K A condition base_time rules w ret)
  show ?case
  proof (cases "condition w")
    case False
    then show ?thesis using 1(2) sponge_run.start by fastforce
  next
    case cond: True
    show ?thesis
    proof (cases "wait_next_event K TCP_TICK_MS rules w")
      case (Inl e)
      then show ?thesis using 1(2) cond sponge_run.start by fastforce
    next
      case (Inr x)
      then obtain r rules' w' where x: "wait_next_event K TCP_TICK_MS rules w = Inr (r, rules', w')" by (cases x) auto
      have step: "sponge_run K A rules w rules' w'" by (rule sponge_run.round [OF sponge_run.start x])
      show ?thesis
      proof (cases "r = Exit \<or> sp_abort w' \<or> sp_tcp w' = None")
        case True
        then show ?thesis using 1(2) cond x step by (fastforce split: if_splits)
      next
        case False
        then obtain c where c: "sp_tcp w' = Some c" by auto
        obtain t w2 where t: "timestamp_ms K w' = (t, w2)" by fastforce
        show ?thesis
        proof (cases "TCPConnection_active c")
          case True
          let ?w3 = "sponge_time_passes A (sub64 t base_time) c w2"
          have go: "tcp_loop_from K A condition t rules' ?w3 = Some ret" using 1(2) cond x False c t True by simp
          have "sponge_run K A rules w rules' ?w3" by (rule sponge_run.time [OF step c t])
          then show ?thesis using 1(1) [OF go] sponge_run_trans by blast
        next
          case idle: False
          have go: "tcp_loop_from K A condition base_time rules' w' = Some ret" using 1(2) cond x False c idle by simp
          then show ?thesis using 1(1) [OF go] step sponge_run_trans by blast
        qed
      qed
    qed
  qed
qed

lemma tcp_loop_run:
  assumes "tcp_loop K A condition rules w = Some ret"
  shows "\<exists>rules' w'. sponge_run K A rules w rules' w' \<and>
    (ret = Inr (rules', w') \<or> (\<exists>e. ret = Inl e \<and> (wait_next_event K TCP_TICK_MS rules' w' = Inl e \<or> sp_tcp w' = None)))"
proof -
  obtain t w1 where t: "timestamp_ms K w = (t, w1)" by fastforce
  then have "tcp_loop_from K A condition t rules w1 = Some ret" using assms by (simp add: tcp_loop_def)
  from tcp_loop_from_run [OF this] sponge_run.clock [OF sponge_run.start t] show ?thesis
    using sponge_run_trans by blast
qed

lemma sponge_run_keeps:
  assumes "sponge_run K A (sponge_rules K rs A w0) w rules' w'" and "SP_at K A inp out S R i j n w0 w"
  shows "SP_at K A inp out S R i j n w0 w' \<and> set rules' \<subseteq> set (sponge_rules K rs A w0)"
  using assms
proof (induction rule: sponge_run.induct)
  case (round rules w1 ret rules' w')
  then show ?case using sponge.wait_keeps [of rules K rs A w0 inp out S R i j n w1 TCP_TICK_MS ret rules' w'] by blast
next
  case (time rules w1 c t w' ms)
  then have i: "sponge_setting K A inp out S R j n" "SP_inv A inp out S R i j n w1" unfolding SP_at_def by blast+
  then show ?case using sponge_time_keeps [of A K inp out S R i j n w1 c t w' ms] time by (simp add: SP_at_def sponge_setting_def)
next
  case (clock rules w1 t w')
  then have i: "kernel_streams K inp out" "SP_inv A inp out S R i j n w1" unfolding SP_at_def sponge_setting_def by blast+
  obtain r where r: "syscall K Sys_clock w1 = (r, w')" using clock(2) by (auto simp: timestamp_ms_def split: prod.splits)
  have "SP_inv A inp out S R i j n w'" using SP_inv_quiet [OF i(2,1) r] by simp
  then show ?case using clock touches_sponge [OF syscall_touches [OF r]] by (simp add: SP_at_def)
qed simp

section \<open>Opening the connection\<close>

definition sponge_fresh :: "('k, 'a) sponge_ops \<Rightarrow> ('k \<Rightarrow> int \<Rightarrow> byte list) \<Rightarrow> ('k \<Rightarrow> int \<Rightarrow> byte list) \<Rightarrow> int \<Rightarrow> ('k, 'a) sponge \<Rightarrow> bool" where
  "sponge_fresh A inp out n w \<longleftrightarrow> fd_num w (sp_thread_data w) = n \<and> fd_num w (ad_fd A (sp_adapter w)) \<noteq> n \<and>
     \<not> fd_closed w (sp_thread_data w) \<and> \<not> fd_eof w (sp_thread_data w) \<and> inp (wd_kernel w) n = [] \<and> out (wd_kernel w) n = []"

abbreviation isn_of :: "TCPConfig \<Rightarrow> 32 word \<Rightarrow> WrappingInt32" where
  "isn_of cfg rnd \<equiv> sn_isn (cn_sender (TCPConnection_new cfg rnd))"

lemma sponge_started:
  assumes "sponge_setting K A inp out S R j n" and "cfg_recv_capacity cfg < 2147483648" and "cfg_send_capacity cfg < SIZE_MOD"
    and "sponge_fresh A inp out n w" and "ad_fd A a = ad_fd A (sp_adapter w)"
    and "c = TCPConnection_new cfg rnd \<or> c = TCPConnection_connect (TCPConnection_new cfg rnd)"
  shows "SP_at K A inp out S R (isn_of cfg rnd) j n w (w\<lparr>sp_tcp := Some c, sp_adapter := a\<rparr>)"
proof -
  let ?c = "TCPConnection_new cfg rnd"
  have b: "length S < 4294967294" "length R < 4294967294" using assms(1) by (simp_all add: sponge_setting_def)
  note e = EP_of_new [OF assms(2,3), of S R rnd j]
  have "cn_written ?c = 0" by (simp add: cn_written_def TCPConnection_new_def TCPSender_new_def ByteStream_new_def)
  then have "EP_of S R (isn_of cfg rnd) j (c, []) \<and> cn_written c = 0"
    using assms(6) e EP_app [OF e b, of Ep_connect] written.connect_keeps [of ?c 0] by auto
  then show ?thesis using assms(1,4,5) by (simp add: SP_at_def SP_inv_def sponge_fresh_def)
qed

lemma sponge_rules_cong:
  "sp_thread_data w = sp_thread_data w' \<Longrightarrow> ad_fd A (sp_adapter w) = ad_fd A (sp_adapter w') \<Longrightarrow> sponge_rules K rs A w = sponge_rules K rs A w'"
  by (simp add: sponge_rules_def)

lemma sponge_opened:
  assumes "sponge_setting K A inp out S R j n" and "cfg_recv_capacity cfg < 2147483648" and "cfg_send_capacity cfg < SIZE_MOD"
    and "sponge_fresh A inp out n w"
    and "sponge_connect K rs A cfg c_ad rnd w = Some (Inr (rules, w1)) \<or> sponge_listen_and_accept K rs A cfg c_ad rnd w = Some (Inr (rules, w1))"
  shows "\<exists>w2. SP_at K A inp out S R (isn_of cfg rnd) j n w w2 \<and> sponge_run K A (sponge_rules K rs A w) w2 rules w1"
proof -
  let ?c = "TCPConnection_new cfg rnd"
  have "fd_adapter A" using assms(1) by (simp add: sponge_setting_def)
  then have fd: "ad_fd A (ad_config_mut A a cfg) = ad_fd A a" "ad_fd A (ad_set_listening A a b) = ad_fd A a" for a cfg b
    by (simp_all add: fd_adapter.same_fd)
  have r: "sponge_rules K rs A (w\<lparr>sp_tcp := x\<rparr>) = sponge_rules K rs A w" for x by (rule sponge_rules_cong) simp_all
  have swap: "w\<lparr>sp_adapter := a, sp_tcp := x\<rparr> = w\<lparr>sp_tcp := x, sp_adapter := a\<rparr>" for a x by simp
  let ?w2 = "w\<lparr>sp_tcp := Some (TCPConnection_connect ?c), sp_adapter := ad_config_mut A (sp_adapter w) c_ad\<rparr>"
  let ?w3 = "w\<lparr>sp_tcp := Some ?c, sp_adapter := ad_set_listening A (ad_config_mut A (sp_adapter w) c_ad) True\<rparr>"
  have "(\<exists>cond. tcp_loop K A cond (sponge_rules K rs A w) ?w2 = Some (Inr (rules, w1))) \<or>
      (\<exists>cond. tcp_loop K A cond (sponge_rules K rs A w) ?w3 = Some (Inr (rules, w1)))"
    using assms(5)
  proof
    assume "sponge_connect K rs A cfg c_ad rnd w = Some (Inr (rules, w1))"
    then show ?thesis by (auto simp: sponge_connect_def sponge_initialize_TCP_def r swap Let_def split: if_splits sum.splits)
  next
    assume "sponge_listen_and_accept K rs A cfg c_ad rnd w = Some (Inr (rules, w1))"
    then have "\<exists>cond. tcp_loop K A cond (sponge_rules K rs A w) ?w3 = Some (Inr (rules, w1))"
      by (auto simp: sponge_listen_and_accept_def sponge_initialize_TCP_def r Let_def split: if_splits option.splits)
    then show ?thesis ..
  qed
  then show ?thesis
    using tcp_loop_run sponge_started [OF assms(1-4), of "ad_config_mut A (sp_adapter w) c_ad" "TCPConnection_connect ?c" rnd]
      sponge_started [OF assms(1-4), of "ad_set_listening A (ad_config_mut A (sp_adapter w) c_ad) True" ?c rnd]
    by (fastforce simp: fd)
qed

text \<open>
  C3. A \<open>TCPSpongeSocket\<close> joins its owner's byte streams to those of the connection. Its owner writes \<open>S\<close> into the local socket
  and the peer sends \<open>R\<close>. Whatever order events come in after \<open>connect\<close> or \<open>listen_and_accept\<close>: the bytes that
  the owner can read are a prefix of \<open>R\<close>, and all of it once the inbound stream is at its end; the bytes taken from the
  owner are the ones written to the connection, in order; every segment handed to the adapter carries its piece of \<open>S\<close>; and
  no round of the loop throws because the connection accepted too little or a rule waits busily.
\<close>

theorem sponge_delivers:
  assumes "sponge_setting K A inp out S R j n" and "cfg_recv_capacity cfg < 2147483648" and "cfg_send_capacity cfg < SIZE_MOD"
    and "sponge_fresh A inp out n w"
    and "sponge_connect K rs A cfg c_ad rnd w = Some (Inr (rules, w1)) \<or> sponge_listen_and_accept K rs A cfg c_ad rnd w = Some (Inr (rules, w1))"
    and "sponge_run K A rules w1 rules' w'"
  shows "\<exists>c. sp_tcp w' = Some c \<and>
    out (wd_kernel w') n = take (length (out (wd_kernel w') n)) R \<and>
    (ByteStream_eof (TCPConnection_inbound_stream c) \<longrightarrow> out (wd_kernel w') n = R) \<and>
    inp (wd_kernel w') n = take (cn_written c) S \<and>
    (\<forall>seg \<in> set (cn_segments_out c). seg_of S (isn_of cfg rnd) seg) \<and>
    (\<forall>e. wait_next_event K TCP_TICK_MS rules' w' = Inl e \<longrightarrow> \<not> own_fault e)"
proof -
  obtain w2 where w2: "SP_at K A inp out S R (isn_of cfg rnd) j n w w2" "sponge_run K A (sponge_rules K rs A w) w2 rules w1"
    using sponge_opened [OF assms(1-5)] by blast
  note k = sponge_run_keeps [OF sponge_run_trans [OF assms(6) w2(2)] w2(1)]
  then have i: "SP_inv A inp out S R (isn_of cfg rnd) j n w'" unfolding SP_at_def by blast
  obtain c where c: "sp_tcp w' = Some c" "EP_of S R (isn_of cfg rnd) j (c, out (wd_kernel w') n)" "inp (wd_kernel w') n = take (cn_written c) S"
    by (rule SP_inv_tcp [OF i])
  have "\<not> own_fault e" if "wait_next_event K TCP_TICK_MS rules' w' = Inl e" for e
    using sponge.wait_fails [OF conjunct2 [OF k] conjunct1 [OF k] that] by (auto simp: own_fault_def)
  moreover have "length R < 4294967294" using assms(1) by (simp add: sponge_setting_def)
  ultimately show ?thesis
    using c EP_delivers [OF c(2)] EP_fin [OF c(2)] EP_emits [OF c(2)] by (auto simp: ep_fin_def ep_out_def)
qed

text \<open>
  An owner that writes one byte, over UDP, in a network that delivers empty datagrams only; the first wait is
  interrupted by a signal.
\<close>

fun owner_kernel :: "nat kernel" where
  "owner_kernel (Sys_read fd m) k = (if fd = 4 \<and> m > 0 \<and> k = 0 then ((sys_ok 1)\<lparr>sr_data := [7]\<rparr>, 1) else (sys_ok 0, k))"
| "owner_kernel (Sys_poll ps t) k = ((sys_ok (- 1))\<lparr>sr_errno := EINTR\<rparr>, k)"
| "owner_kernel c k = (sys_ok 0, k)"

definition owner_inp :: "nat \<Rightarrow> int \<Rightarrow> byte list" where
  "owner_inp k fd = (if fd = 4 \<and> k > 0 then [7] else [])"

lemma owner_kernel_streams: "kernel_streams owner_kernel owner_inp (\<lambda>_ _. [])"
proof -
  have "snd (owner_kernel c k) = k" if "\<forall>fd n. c \<noteq> Sys_read fd n" for c k
    using that by (cases c) simp_all
  moreover have "writev_appends owner_kernel (\<lambda>_ _. [])" by (auto simp: writev_appends_def sys_ok_def)
  ultimately show ?thesis by (auto simp: kernel_streams_def sys_ok_def owner_inp_def fun_eq_iff)
qed

lemma owner_honest: "honest_peer (TCPOverUDPSocketAdapter rs owner_kernel) R j"
proof -
  have d: "rd_payload d = []" if "UDPSocket_recv owner_kernel fd 65536 w = Inr (d, w')" for fd d and w w' :: "(nat, 'b) world_scheme"
    using that by (auto simp: UDPSocket_recv_def UDPSocket_recv_into_def syscall_def sys_ok_def SystemCall_def Let_def resize_def split: if_splits)
  have "InternetChecksum_value (InternetChecksum_add (InternetChecksum_new 0) (Buffer_str (Buffer_of []))) \<noteq> 0" by code_simp
  then have p: "TCPSegment_parse s (Buffer_of []) 0 = Inr (s, BadChecksum)" for s by (simp add: TCPSegment_parse_def)
  have "UDPSocketAdapter_read a d \<noteq> Inr (a', Some seg)" if "rd_payload d = []" for a d a' seg
    using that p by (simp add: UDPSocketAdapter_read_def)
  with d show ?thesis by (fastforce simp: honest_peer_def TCPOverUDPSocketAdapter_def)
qed

lemma owner_setting: "sponge_setting owner_kernel (TCPOverUDPSocketAdapter rs owner_kernel) owner_inp (\<lambda>_ _. []) [7] R j 4"
  if "length R < 4294967294"
proof -
  have "stream_source owner_kernel owner_inp 4 [7]" by (auto simp: stream_source_def owner_inp_def sys_ok_def)
  moreover have "hangup_readable owner_kernel 4" by (simp add: hangup_readable_def sys_ok_def)
  ultimately show ?thesis
    using that by (simp add: sponge_setting_def udp_apart [OF owner_kernel_streams] udp_blameless owner_kernel_streams
        udp_fd.fd_adapter_axioms owner_honest)
qed

definition owner_world :: "(nat, FileDescriptor \<times> FdAdapterBase) sponge" where
  "owner_world =
     \<lparr>wd_kernel = 0,
      wd_heap = (\<lambda>p. \<lparr>fw_fd = int p, fw_eof = False, fw_closed = False, fw_read_count = 0, fw_write_count = 0\<rparr>), wd_next = 6,
      sp_self = 3, sp_thread_data = 4, sp_adapter = (5, loopback_adapter 80 90), sp_tcp = None, sp_abort = False,
      sp_inbound_shutdown = False, sp_outbound_shutdown = False, sp_fully_acked = False\<rparr>"

lemma owner_fresh: "sponge_fresh (TCPOverUDPSocketAdapter rs owner_kernel) owner_inp (\<lambda>_ _. []) 4 owner_world"
  by (simp add: sponge_fresh_def TCPOverUDPSocketAdapter_def owner_world_def fd_num_def fd_closed_def fd_eof_def owner_inp_def)

lemma owner_wait:
  assumes "\<And>fd. \<not> fd_eof w fd \<and> \<not> fd_closed w fd" and "sp_tcp w = Some c" and "TCPConnection_active c"
  shows "wait_next_event owner_kernel t (sponge_rules owner_kernel rs A w0) w = Inr (Exit, sponge_rules owner_kernel rs A w0, w)"
proof -
  have e: "\<not> fd_eof w fd" "\<not> fd_closed w fd" for fd using assms(1) by blast+
  have "sponge_rule1_interest w" using assms(2,3) by (simp add: sponge_rule1_interest_def tcp_or_def)
  then obtain ps where s: "setup_pollfds (sponge_rules owner_kernel rs A w0) w = Inr (sponge_rules owner_kernel rs A w0, ps, True, w)"
    by (simp add: sponge_rules_def add_rule_def e Let_def)
  show ?thesis by (simp add: wait_next_event_def s syscall_def sys_ok_def SystemCall_def)
qed

text \<open>The check that \<open>connect\<close> makes of the state never fails.\<close>

lemma connected_state:
  "TCPConnection_state (TCPConnection_connect (TCPConnection_new cfg rnd)) = TCPState_of_State SYN_SENT"
  "TCPConnection_active (TCPConnection_connect (TCPConnection_new cfg rnd))"
proof -
  let ?a = "TCPConnection_new cfg rnd" and ?a1 = "TCPConnection_connect (TCPConnection_new cfg rnd)"
  obtain syn where a1: "sent_syn (cn_sender ?a1) syn" "?a1 = ?a\<lparr>cn_sender := cn_sender ?a1, cn_segments_out := [syn]\<rparr>"
    using connect_new [OF refl, of cfg rnd] by metis
  have new: "cn_active ?a1" "cn_linger_after_streams_finish ?a1" "cn_receiver ?a1 = TCPReceiver_new (cfg_recv_capacity cfg)"
    by (subst a1(2), simp add: TCPConnection_new_def)+
  show "TCPConnection_state ?a1 = TCPState_of_State SYN_SENT" by (rule state_shapes(1) [OF new(1,2) a1(1) new(3)])
  show "TCPConnection_active ?a1" using new(1) by (simp add: TCPConnection_active_def)
qed

lemma owner_connects:
  defines "A \<equiv> TCPOverUDPSocketAdapter quad_resolver owner_kernel"
  shows "\<exists>rules w1. sponge_connect owner_kernel quad_resolver A TCPConfig_default (fa_cfg (loopback_adapter 80 90)) 0 owner_world = Some (Inr (rules, w1))"
proof -
  let ?c = "TCPConnection_connect (TCPConnection_new TCPConfig_default 0)" and ?cfg = "fa_cfg (loopback_adapter 80 90)"
  let ?w = "owner_world\<lparr>sp_tcp := Some ?c, sp_adapter := ad_config_mut A (sp_adapter owner_world) ?cfg\<rparr>"
  let ?rules = "sponge_rules owner_kernel quad_resolver A owner_world"
  have c: "TCPConnection_active ?c" "\<not> TCPState_neq (TCPConnection_state ?c) (TCPState_of_State SYN_SENT)"
    "TCPState_eq (TCPConnection_state ?c) (TCPState_of_State SYN_SENT)"
    by (simp_all only: connected_state TCPState_neq_def TCPState_eq_def) simp_all
  have swap: "owner_world\<lparr>sp_adapter := a, sp_tcp := x\<rparr> = owner_world\<lparr>sp_tcp := x, sp_adapter := a\<rparr>" for a x by simp
  have t: "timestamp_ms owner_kernel ?w = (0, ?w)" by (simp add: timestamp_ms_def syscall_def sys_ok_def owner_world_def)
  have "wait_next_event owner_kernel TCP_TICK_MS ?rules ?w = Inr (Exit, ?rules, ?w)"
    by (rule owner_wait [OF _ _ c(1)]) (simp_all add: owner_world_def fd_eof_def fd_closed_def)
  then have "tcp_loop owner_kernel A (in_state SYN_SENT) ?rules ?w = Some (Inr (?rules, ?w))"
    unfolding tcp_loop_def t Let_def prod.case by (subst tcp_loop_from.simps) (simp add: in_state_def tcp_or_def c(3))
  moreover have "\<exists>s. Address_to_string quad_resolver (fc_destination ?cfg) = Inr s"
    using Address_port_numeric(1) [OF quad_resolver_numeric, where ip = "0x7f000001" and port = "90"]
    by (auto simp: Address_to_string_def Address_port_def loopback_adapter_def)
  moreover have "sponge_rules owner_kernel quad_resolver A (owner_world\<lparr>sp_tcp := x\<rparr>) = ?rules" for x by (rule sponge_rules_cong) simp_all
  moreover have "sp_tcp owner_world = None" by (simp add: owner_world_def)
  ultimately show ?thesis using c(2) by (auto simp: sponge_connect_def sponge_initialize_TCP_def swap)
qed

theorem sponge_delivers_witness:
  "\<exists>rules w' c. sponge_connect owner_kernel quad_resolver (TCPOverUDPSocketAdapter quad_resolver owner_kernel) TCPConfig_default
       (fa_cfg (loopback_adapter 80 90)) 0 owner_world = Some (Inr (rules, w')) \<and> sp_tcp w' = Some c \<and>
     owner_inp (wd_kernel w') 4 = take (cn_written c) [7] \<and> (\<forall>seg \<in> set (cn_segments_out c). seg_of [7] (isn_of TCPConfig_default 0) seg)"
proof -
  let ?A = "TCPOverUDPSocketAdapter quad_resolver owner_kernel"
  obtain rules w1 where c: "sponge_connect owner_kernel quad_resolver ?A TCPConfig_default (fa_cfg (loopback_adapter 80 90)) 0 owner_world =
      Some (Inr (rules, w1))" using owner_connects by blast
  have s: "sponge_setting owner_kernel ?A owner_inp (\<lambda>_ _. []) [7] [1, 2] (WrappingInt32 0) 4" by (rule owner_setting) simp
  have cfg: "cfg_recv_capacity TCPConfig_default < 2147483648" "cfg_send_capacity TCPConfig_default < SIZE_MOD"
    by (simp_all add: TCPConfig_default_def TCPConfig_DEFAULT_CAPACITY_def)
  show ?thesis using sponge_delivers [OF s cfg owner_fresh disjI1 [OF c] sponge_run.start] c by blast
qed

end
