(* ===== verification/Tcp_Benchmark.thy ===== *)
theory Tcp_Benchmark
  imports Endpoint_Writes Text_Format
begin

text \<open>
  The benchmark (\<open>apps/tcp_benchmark.cc\<close>): two connections in one process, the segments of each handed to the other,
  in order or in reverse, while the input of \<open>x\<close> is written and the output of \<open>y\<close> is collected. The random string is
  an argument; the clock and the output of the throughput are left out. \<open>None\<close> is a loop that never ends.
\<close>

section \<open>The program\<close>

fun receive_all :: "TCPSegment list \<Rightarrow> TCPConnection \<Rightarrow> TCPConnection res" where
  "receive_all [] y = Inr y"
| "receive_all (seg # segs) y = bindR (TCPConnection_segment_received y seg) (receive_all segs)"

definition move_segments ::
  "TCPConnection \<Rightarrow> TCPConnection \<Rightarrow> TCPSegment list \<Rightarrow> bool \<Rightarrow> (TCPConnection \<times> TCPConnection \<times> TCPSegment list) res" where
  "move_segments x y segments reorder =
     (let segments = segments @ cn_segments_out x;
          x = x\<lparr>cn_segments_out := []\<rparr>
      in bindR (receive_all (if reorder then rev segments else segments) y) (\<lambda>y. Inr (x, y, [])))"

record bench =
  bn_x :: TCPConnection
  bn_y :: TCPConnection
  bn_bytes_to_send :: Buffer
  bn_x_closed :: bool
  bn_received :: "byte list"

text \<open>Writing the input into \<open>x\<close>, the rest of a round, and the two loops around it.\<close>

partial_function (option) bench_write :: "Buffer \<Rightarrow> TCPConnection \<Rightarrow> (Buffer \<times> TCPConnection) res option" where
  "bench_write bytes_to_send x =
     (if Buffer_size bytes_to_send \<noteq> 0 \<and> TCPConnection_remaining_outbound_capacity x \<noteq> 0 then
        let want = min (TCPConnection_remaining_outbound_capacity x) (Buffer_size bytes_to_send);
            (x, written) = TCPConnection_write x (take want (Buffer_str bytes_to_send))
        in if want \<noteq> written
           then Some (Inl (runtime_error (''want = '' @ dec_string want @ '', written = '' @ dec_string written)))
           else (case Buffer_remove_prefix bytes_to_send written of
               Inl e \<Rightarrow> Some (Inl e)
             | Inr bytes_to_send \<Rightarrow> bench_write bytes_to_send x)
      else Some (Inr (bytes_to_send, x)))"

definition bench_exchange :: "bool \<Rightarrow> bench \<Rightarrow> bench res" where
  "bench_exchange reorder b =
     (let closing = (Buffer_size (bn_bytes_to_send b) = 0 \<and> \<not> bn_x_closed b);
          x = (if closing then TCPConnection_end_input_stream (bn_x b) else bn_x b);
          x_closed = (bn_x_closed b \<or> closing)
      in bindR (move_segments x (bn_y b) [] reorder) (\<lambda>(x, y, segments).
         bindR (move_segments y x segments False) (\<lambda>(y, x, segments).
           let inbound = TCPConnection_inbound_stream y;
               available_output = ByteStream_buffer_size inbound;
               (inbound, data) = (if available_output > 0 then ByteStream_read inbound available_output else (inbound, []))
           in Inr (b\<lparr>bn_x := TCPConnection_tick x 1000, bn_y := TCPConnection_tick (set_inbound_stream y inbound) 1000,
                bn_x_closed := x_closed, bn_received := bn_received b @ data\<rparr>))))"

definition bench_loop :: "bool \<Rightarrow> bench \<Rightarrow> bench res option" where
  "bench_loop reorder b =
     (case bench_write (bn_bytes_to_send b) (bn_x b) of
        None \<Rightarrow> None
      | Some r \<Rightarrow> Some (bindR r (\<lambda>(bytes_to_send, x). bench_exchange reorder (b\<lparr>bn_x := x, bn_bytes_to_send := bytes_to_send\<rparr>))))"

partial_function (option) bench_while :: "(bench \<Rightarrow> bool) \<Rightarrow> bool \<Rightarrow> bench \<Rightarrow> bench res option" where
  "bench_while condition reorder b =
     (if \<not> condition b then Some (Inr b)
      else case bench_loop reorder b of
          None \<Rightarrow> None
        | Some r \<Rightarrow> (case r of Inl e \<Rightarrow> Some (Inl e) | Inr b \<Rightarrow> bench_while condition reorder b))"

definition bench_start :: "byte list \<Rightarrow> 32 word \<Rightarrow> 32 word \<Rightarrow> bench" where
  "bench_start string_to_send rx ry =
     \<lparr>bn_x = TCPConnection_connect (TCPConnection_new TCPConfig_default rx),
      bn_y = TCPConnection_end_input_stream (TCPConnection_new TCPConfig_default ry),
      bn_bytes_to_send = Buffer_of string_to_send, bn_x_closed = False, bn_received = []\<rparr>"

definition main_loop :: "bool \<Rightarrow> byte list \<Rightarrow> 32 word \<Rightarrow> 32 word \<Rightarrow> bench res option" where
  "main_loop reorder string_to_send rx ry =
     (case bench_while (\<lambda>b. \<not> ByteStream_eof (TCPConnection_inbound_stream (bn_y b))) reorder (bench_start string_to_send rx ry) of
        None \<Rightarrow> None
      | Some r \<Rightarrow> (case r of
          Inl e \<Rightarrow> Some (Inl e)
        | Inr b \<Rightarrow>
            if bn_received b \<noteq> string_to_send then Some (Inl (runtime_error ''strings sent vs. received don't match''))
            else bench_while (\<lambda>b. TCPConnection_active (bn_x b) \<or> TCPConnection_active (bn_y b)) reorder b))"

section \<open>The invariant\<close>

definition BN_inv :: "byte list \<Rightarrow> WrappingInt32 \<Rightarrow> WrappingInt32 \<Rightarrow> bench \<Rightarrow> bool" where
  "BN_inv D i j b \<longleftrightarrow> EP_of D [] i j (bn_x b, []) \<and> EP_of [] D j i (bn_y b, bn_received b) \<and>
     Buffer_inv (bn_bytes_to_send b) \<and> Buffer_str (bn_bytes_to_send b) = drop (cn_written (bn_x b)) D \<and> cn_written (bn_x b) \<le> length D"

lemma receive_all_keeps:
  assumes "EP_of S R i j (c, g)" and "length S < 4294967294" and "length R < 4294967294" and "\<And>seg. seg \<in> set segs \<Longrightarrow> seg_of R j seg"
  obtains c' where "receive_all segs c = Inr c'" "EP_of S R i j (c', g)" "cn_written c' = cn_written c"
  using assms
proof (induction segs arbitrary: c thesis)
  case (Cons seg segs)
  obtain c1 where c1: "TCPConnection_segment_received c seg = Inr c1" "EP_of S R i j (c1, g)"
    using EP_rcv [OF Cons.prems(2-4), of seg] Cons.prems(5) by (auto simp: ep_rcv_def)
  obtain c' where "receive_all segs c1 = Inr c'" "EP_of S R i j (c', g)" "cn_written c' = cn_written c1"
    using Cons.IH [OF _ c1(2) Cons.prems(3,4)] Cons.prems(5) by auto
  then show ?case using Cons.prems(1) c1(1) written.segment_received_keeps [OF refl c1(1)] by simp
qed simp

lemma move_segments_keeps:
  assumes "EP_of S R i j (x, gx)" and "EP_of R S j i (y, gy)" and "length S < 4294967294" and "length R < 4294967294"
  obtains x' y' where "move_segments x y [] reorder = Inr (x', y', [])" "EP_of S R i j (x', gx)" "EP_of R S j i (y', gy)"
    "cn_written x' = cn_written x" "cn_written y' = cn_written y"
proof -
  have "seg_of S i seg" if "seg \<in> set (if reorder then rev (cn_segments_out x) else cn_segments_out x)" for seg
    using EP_emits [OF assms(1), of seg] that by (auto simp: ep_out_def split: if_splits)
  from receive_all_keeps [OF assms(2,4,3) this]
  obtain y' where "receive_all (if reorder then rev (cn_segments_out x) else cn_segments_out x) y = Inr y'"
    "EP_of R S j i (y', gy)" "cn_written y' = cn_written y" by blast
  moreover have "EP_of S R i j (x\<lparr>cn_segments_out := []\<rparr>, gx)" using EP_app [OF assms(1,3,4), of Ep_take] by simp
  ultimately show ?thesis using that [of "x\<lparr>cn_segments_out := []\<rparr>" y'] by (simp add: move_segments_def cn_written_def)
qed

lemma bench_write_keeps:
  assumes "EP_of D R i j (x, g)" and "length D < 4294967294" and "length R < 4294967294"
    and "Buffer_inv b" and "Buffer_str b = drop (cn_written x) D" and "cn_written x \<le> length D"
  shows "\<exists>b' x'. bench_write b x = Some (Inr (b', x')) \<and> EP_of D R i j (x', g) \<and>
    Buffer_inv b' \<and> Buffer_str b' = drop (cn_written x') D \<and> cn_written x' \<le> length D"
  using assms
proof (induction "length (Buffer_str b)" arbitrary: b x rule: less_induct)
  case less
  let ?want = "min (TCPConnection_remaining_outbound_capacity x) (length (Buffer_str b))" let ?d = "take ?want (Buffer_str b)"
  show ?case
  proof (cases "Buffer_size b \<noteq> 0 \<and> TCPConnection_remaining_outbound_capacity x \<noteq> 0")
    case False
    then show ?thesis using less.prems by (subst bench_write.simps) auto
  next
    case True
    have len: "length ?d = ?want" by simp
    have d: "?d = chunk D (cn_written x) (length ?d)" using less.prems(5) by (simp add: chunk_def)
    have fits: "length ?d \<le> TCPConnection_remaining_outbound_capacity x" "cn_written x + length ?d \<le> length D"
      using less.prems(5,6) by simp_all
    obtain x1 where x1: "TCPConnection_write x ?d = (x1, length ?d)" "EP_of D R i j (x1, g)" "cn_written x1 = cn_written x + length ?d"
      by (rule TCPConnection_write_all [OF less.prems(1-3) d fits])
    obtain b1 where b1: "Buffer_remove_prefix b ?want = Inr b1" "Buffer_inv b1" "Buffer_str b1 = drop ?want (Buffer_str b)"
      by (rule Buffer_remove_prefix_ok [OF less.prems(4), of ?want]) simp
    have "Buffer_str b1 = drop (cn_written x1) D" using b1(3) x1(3) less.prems(5) len by (simp add: add.commute)
    moreover have "length (Buffer_str b1) < length (Buffer_str b)" using True b1(3) by (simp add: Buffer_size_def)
    moreover have "bench_write b x = bench_write b1 x1"
      using True x1(1) b1(1) len unfolding bench_write.simps [of b x] by (simp add: Buffer_size_def)
    ultimately show ?thesis using less.hyps [of b1 x1] x1(2,3) b1(2) less.prems(2,3) fits(2) by simp
  qed
qed

lemma bench_loop_keeps:
  assumes "BN_inv D i j b" and "length D < 4294967294"
  shows "\<exists>b'. bench_loop reorder b = Some (Inr b') \<and> BN_inv D i j b'"
proof -
  have e: "length ([] :: byte list) < 4294967294" by simp
  have inv: "EP_of D [] i j (bn_x b, [])" "EP_of [] D j i (bn_y b, bn_received b)" "Buffer_inv (bn_bytes_to_send b)"
    "Buffer_str (bn_bytes_to_send b) = drop (cn_written (bn_x b)) D" "cn_written (bn_x b) \<le> length D"
    using assms(1) by (simp_all add: BN_inv_def)
  obtain bytes x where w: "bench_write (bn_bytes_to_send b) (bn_x b) = Some (Inr (bytes, x))" "EP_of D [] i j (x, [])"
    "Buffer_inv bytes" "Buffer_str bytes = drop (cn_written x) D" "cn_written x \<le> length D"
    using bench_write_keeps [OF inv(1) assms(2) e inv(3-5)] by blast
  let ?closing = "Buffer_size bytes = 0 \<and> \<not> bn_x_closed b"
  let ?x = "if ?closing then TCPConnection_end_input_stream x else x"
  have "Buffer_size bytes = 0 \<Longrightarrow> cn_written x = length D" using w(4,5) by (simp add: Buffer_size_def)
  then have x: "EP_of D [] i j (?x, [])" "cn_written ?x = cn_written x"
    using w(2) end_input_keeps [OF w(2) assms(2) e] by auto
  obtain x1 y1 where m1: "move_segments ?x (bn_y b) [] reorder = Inr (x1, y1, [])" "EP_of D [] i j (x1, [])"
    "EP_of [] D j i (y1, bn_received b)" "cn_written x1 = cn_written ?x"
    by (rule move_segments_keeps [OF x(1) inv(2) assms(2) e, of reorder])
  obtain y2 x2 where m2: "move_segments y1 x1 [] False = Inr (y2, x2, [])" "EP_of [] D j i (y2, bn_received b)"
    "EP_of D [] i j (x2, [])" "cn_written x2 = cn_written x1"
    by (rule move_segments_keeps [OF m1(3,2) e assms(2), of False])
  let ?in = "TCPConnection_inbound_stream y2"
  obtain stream data where rd: "(if ByteStream_buffer_size ?in > 0 then ByteStream_read ?in (ByteStream_buffer_size ?in) else (?in, [])) = (stream, data)"
    by fastforce
  have "EP_of [] D j i (set_inbound_stream y2 stream, bn_received b @ data)"
    using rd m2(2) EP_app [OF m2(2) e assms(2), of "Ep_read (ByteStream_buffer_size ?in)"]
    by (auto simp: set_inbound_stream_def Let_def TCPConnection_inbound_stream_def TCPReceiver_stream_out_def split: if_splits)
  from EP_app [OF this e assms(2), of "Ep_tick 1000"] have y3: "EP_of [] D j i (TCPConnection_tick (set_inbound_stream y2 stream) 1000, bn_received b @ data)"
    by simp
  have x3: "EP_of D [] i j (TCPConnection_tick x2 1000, [])" using EP_app [OF m2(3) assms(2) e, of "Ep_tick 1000"] by simp
  have wr: "cn_written (TCPConnection_tick x2 1000) = cn_written x" using written.tick_keeps [OF refl, of x2] m2(4) m1(4) x(2) by simp
  let ?b = "b\<lparr>bn_x := x, bn_bytes_to_send := bytes\<rparr>"
  let ?b' = "?b\<lparr>bn_x := TCPConnection_tick x2 1000, bn_y := TCPConnection_tick (set_inbound_stream y2 stream) 1000,
      bn_x_closed := bn_x_closed b \<or> ?closing, bn_received := bn_received b @ data\<rparr>"
  have f: "bn_x ?b = x" "bn_y ?b = bn_y b" "bn_bytes_to_send ?b = bytes" "bn_x_closed ?b = bn_x_closed b" "bn_received ?b = bn_received b"
    by simp_all
  have "bench_exchange reorder ?b = Inr ?b'"
    unfolding bench_exchange_def Let_def f m1(1) by (simp add: m2(1) rd split del: if_split)
  then have "bench_loop reorder b = Some (Inr ?b')" by (simp add: bench_loop_def w(1))
  moreover have "BN_inv D i j ?b'" using w(3-5) x3 y3 wr by (simp add: BN_inv_def)
  ultimately show ?thesis by blast
qed

lemma bench_while_keeps:
  assumes "bench_while condition reorder b = Some r" and "BN_inv D i j b" and "length D < 4294967294"
  shows "\<exists>b'. r = Inr b' \<and> BN_inv D i j b' \<and> \<not> condition b'"
  using assms(2)
proof (induction rule: bench_while.raw_induct [OF _ assms(1)])
  case (1 bench_while condition reorder b r)
  show ?case
  proof (cases "condition b")
    case True
    obtain b1 where "bench_loop reorder b = Some (Inr b1)" "BN_inv D i j b1" using bench_loop_keeps [OF 1(3) assms(3)] by blast
    then show ?thesis using 1(1) [of condition reorder b1 r] 1(2) True by simp
  next
    case False
    then show ?thesis using 1(2,3) by auto
  qed
qed

lemma BN_start:
  assumes "length D < 4294967294"
  shows "BN_inv D (sn_isn (cn_sender (TCPConnection_new TCPConfig_default rx))) (sn_isn (cn_sender (TCPConnection_new TCPConfig_default ry)))
    (bench_start D rx ry)"
proof -
  let ?x = "TCPConnection_new TCPConfig_default rx" and ?y = "TCPConnection_new TCPConfig_default ry"
  have cfg: "cfg_recv_capacity TCPConfig_default < 2147483648" "cfg_send_capacity TCPConfig_default < SIZE_MOD"
    by (simp_all add: TCPConfig_default_def TCPConfig_DEFAULT_CAPACITY_def)
  note x = EP_of_new [OF cfg, of D "[]" rx "sn_isn (cn_sender ?y)"] and y = EP_of_new [OF cfg, of "[]" D ry "sn_isn (cn_sender ?x)"]
  have e: "length ([] :: byte list) < 4294967294" by simp
  have w: "cn_written (TCPConnection_new TCPConfig_default r) = 0" for r
    by (simp add: cn_written_def TCPConnection_new_def TCPSender_new_def ByteStream_new_def)
  show ?thesis
    using EP_app [OF x assms e, of Ep_connect] end_input_keeps(1) [OF y e assms] w written.connect_keeps [OF w, of rx] assms
    by (simp add: BN_inv_def bench_start_def)
qed

section \<open>The benchmark\<close>

fun bench_rounds :: "nat \<Rightarrow> bool \<Rightarrow> bench \<Rightarrow> bench res option" where
  "bench_rounds 0 reorder b = Some (Inr b)"
| "bench_rounds (Suc n) reorder b =
     (case bench_loop reorder b of None \<Rightarrow> None | Some r \<Rightarrow> (case r of Inl e \<Rightarrow> Some (Inl e) | Inr b \<Rightarrow> bench_rounds n reorder b))"

lemma bench_rounds_keep:
  "BN_inv D i j b \<Longrightarrow> length D < 4294967294 \<Longrightarrow> \<exists>b'. bench_rounds n reorder b = Some (Inr b') \<and> BN_inv D i j b'"
proof (induction n arbitrary: b)
  case (Suc n)
  then obtain b1 where "bench_loop reorder b = Some (Inr b1)" "BN_inv D i j b1" using bench_loop_keeps by blast
  then show ?case using Suc by simp
qed simp

lemma BN_received:
  assumes "BN_inv D i j b" and "length D < 4294967294"
  shows "bn_received b = (if ByteStream_eof (TCPConnection_inbound_stream (bn_y b)) then D else take (length (bn_received b)) D)"
proof -
  have "EP_of [] D j i (bn_y b, bn_received b)" using assms(1) by (simp add: BN_inv_def)
  from EP_delivers [OF this] EP_fin [OF this assms(2)] show ?thesis by (simp add: ep_fin_def)
qed

text \<open>
  C13. The benchmark never throws. With segments delivered in order or in reverse, every round of its loop ends, and what has been
  received is a prefix of what is sent, all of it at the end of the stream. So \<open>main_loop\<close> throws nothing at all: no
  write is short, no prefix is too long to be removed, no segment is refused, and the final comparison of the strings succeeds.
\<close>

theorem benchmark_never_throws:
  assumes "length D < 4294967294"
  shows "(\<exists>b. bench_rounds n reorder (bench_start D rx ry) = Some (Inr b) \<and>
      bn_received b = (if ByteStream_eof (TCPConnection_inbound_stream (bn_y b)) then D else take (length (bn_received b)) D)) \<and>
    (case main_loop reorder D rx ry of None \<Rightarrow> True
     | Some r \<Rightarrow> (case r of Inl e \<Rightarrow> False | Inr b \<Rightarrow> \<not> TCPConnection_active (bn_x b) \<and> \<not> TCPConnection_active (bn_y b)))"
proof -
  let ?i = "sn_isn (cn_sender (TCPConnection_new TCPConfig_default rx))" and ?j = "sn_isn (cn_sender (TCPConnection_new TCPConfig_default ry))"
  note s = BN_start [OF assms, of rx ry]
  have "\<exists>b. r = Inr b \<and> \<not> TCPConnection_active (bn_x b) \<and> \<not> TCPConnection_active (bn_y b)" if m: "main_loop reorder D rx ry = Some r" for r
  proof -
    obtain r1 where r1: "bench_while (\<lambda>b. \<not> ByteStream_eof (TCPConnection_inbound_stream (bn_y b))) reorder (bench_start D rx ry) = Some r1"
      using m by (auto simp: main_loop_def split: option.splits)
    obtain b where b: "r1 = Inr b" "BN_inv D ?i ?j b" "ByteStream_eof (TCPConnection_inbound_stream (bn_y b))"
      using bench_while_keeps [OF r1 s assms] by auto
    have "bench_while (\<lambda>b. TCPConnection_active (bn_x b) \<or> TCPConnection_active (bn_y b)) reorder b = Some r"
      using m r1 b(1,3) BN_received [OF b(2) assms] by (simp add: main_loop_def)
    from bench_while_keeps [OF this b(2) assms] show ?thesis by auto
  qed
  moreover obtain b where "bench_rounds n reorder (bench_start D rx ry) = Some (Inr b)" "BN_inv D ?i ?j b"
    using bench_rounds_keep [OF s assms] by blast
  ultimately show ?thesis using BN_received [OF _ assms, of ?i ?j b] by (auto split: option.split)
qed

theorem benchmark_never_throws_witness:
  "\<exists>b. bench_rounds 3 True (bench_start [7, 8, 9] 5 9) = Some (Inr b) \<and>
     bn_received b = (if ByteStream_eof (TCPConnection_inbound_stream (bn_y b)) then [7, 8, 9] else take (length (bn_received b)) [7, 8, 9])"
  using benchmark_never_throws [of "[7, 8, 9]" 3 True 5 9] by simp

end
