(* ===== verification/Web_Get.thy ===== *)
theory Web_Get
  imports Net_Socket
begin

text \<open>
  The program \<open>webget\<close> (\<open>apps/webget.cc\<close>): a request over a kernel TCP socket, and everything the server sends printed.
  The output is the list of the bytes printed; \<open>None\<close> is a run that never ends. The sections compiled only with
  \<open>TEST\<close> are left out.
\<close>

section \<open>The program\<close>

definition bytes_of :: "string \<Rightarrow> byte list" where
  "bytes_of s = map of_char s"

abbreviation CRLF :: string where "CRLF \<equiv> [CHR 0x0D, CHR 0x0A]"

definition http_request :: "string \<Rightarrow> string \<Rightarrow> string" where
  "http_request host path =
     ''GET '' @ path @ '' HTTP/1.1'' @ CRLF @ ''Host: '' @ host @ CRLF @ ''Connection: close'' @ CRLF @ CRLF"

partial_function (option) get_URL_loop ::
  "'k kernel \<Rightarrow> FileDescriptor \<Rightarrow> byte list \<Rightarrow> ('k, 'z) world_scheme \<Rightarrow> (byte list \<times> ('k, 'z) world_scheme) res option" where
  "get_URL_loop K sock cout w =
     (case FileDescriptor_read K sock (SIZE_MOD - 1) w of
        Inl e \<Rightarrow> Some (Inl e)
      | Inr (recvd, w) \<Rightarrow> if length recvd = 0 then Some (Inr (cout, w)) else get_URL_loop K sock (cout @ recvd) w)"

definition get_URL_open ::
  "'k kernel \<Rightarrow> resolver \<Rightarrow> string \<Rightarrow> string \<Rightarrow> ('k, 'z) world_scheme \<Rightarrow> (FileDescriptor \<times> ('k, 'z) world_scheme) res" where
  "get_URL_open K rs host path w =
     bindR (Address_of_host rs host ''http'') (\<lambda>userhost.
     bindR (TCPSocket_new K w) (\<lambda>(sock, w).
     bindR (Socket_connect K sock userhost w) (\<lambda>w.
     bindR (FileDescriptor_write K sock (BufferViewList_of_string (bytes_of (http_request host path))) True w) (\<lambda>(_, w).
       Inr (sock, w)))))"

definition get_URL ::
  "'k kernel \<Rightarrow> resolver \<Rightarrow> string \<Rightarrow> string \<Rightarrow> ('k, 'z) world_scheme \<Rightarrow> (byte list \<times> ('k, 'z) world_scheme) res option" where
  "get_URL K rs host path w =
     (case get_URL_open K rs host path w of
        Inl e \<Rightarrow> Some (Inl e)
      | Inr (sock, w) \<Rightarrow> (case get_URL_loop K sock [] w of
          None \<Rightarrow> None
        | Some r \<Rightarrow> Some (bindR r (\<lambda>(cout, w). Inr (cout, FDWrapper_destroy K sock w)))))"

datatype exit_status = EXIT_SUCCESS | EXIT_FAILURE | Aborted

definition webget_main :: "'k kernel \<Rightarrow> resolver \<Rightarrow> string list \<Rightarrow> ('k, 'z) world_scheme \<Rightarrow> exit_status option" where
  "webget_main K rs argv w =
     (if length argv \<le> 0 then Some Aborted
      else if length argv \<noteq> 3 then Some EXIT_FAILURE
      else
        let host = argv ! 1; path = argv ! 2
        in (case get_URL K rs host path w of
            None \<Rightarrow> None
          | Some r \<Rightarrow> Some (case r of Inl e \<Rightarrow> EXIT_FAILURE | Inr _ \<Rightarrow> EXIT_SUCCESS)))"

section \<open>What it prints\<close>

lemma get_URL_loop_reads:
  assumes "kernel_streams K inp out" and "stream_source K inp n S" and "fd_num w sock = n" and "inp (wd_kernel w) n = cout"
  shows "\<exists>r. get_URL_loop K sock cout w = Some r \<and>
    (case r of Inl e \<Rightarrow> True | Inr (printed, w') \<Rightarrow> printed = S \<and> out (wd_kernel w') = out (wd_kernel w))"
  using assms(3,4)
proof (induction "length S - length cout" arbitrary: w cout rule: less_induct)
  case less
  have lim: "SIZE_MOD - 1 > 0" by simp
  show ?case
  proof (cases "FileDescriptor_read K sock (SIZE_MOD - 1) w")
    case (Inl e)
    then show ?thesis by (subst get_URL_loop.simps) simp
  next
    case (Inr x)
    then obtain d w1 where rd: "FileDescriptor_read K sock (SIZE_MOD - 1) w = Inr (d, w1)" by (cases x) auto
    have s: "inp (wd_kernel w1) n = cout @ d" "out (wd_kernel w1) = out (wd_kernel w)"
      using FileDescriptor_read_stream [OF assms(1) rd] less.prems by simp_all
    have num: "fd_num w1 sock = n"
      using FileDescriptor_read_effect [OF rd] less.prems(1) touches_fields(2) by metis
    show ?thesis
    proof (cases "d = []")
      case True
      then have "cout = S" using stream_read_end [OF assms(2) less.prems(1), of "SIZE_MOD - 1" w1] rd lim less.prems(2) by simp
      then show ?thesis using rd True s(2) by (subst get_URL_loop.simps) simp
    next
      case False
      obtain rest where "S = inp (wd_kernel w1) n @ rest" using assms(2) unfolding stream_source_def by blast
      then have "length S - length (cout @ d) < length S - length cout" using s(1) False by simp
      moreover have "get_URL_loop K sock cout w = get_URL_loop K sock (cout @ d) w1"
        using rd False by (subst get_URL_loop.simps) simp
      ultimately show ?thesis using less.hyps [OF _ num s(1), unfolded s(2)] by simp
    qed
  qed
qed

lemma Socket_new_effect:
  assumes "Socket_new K domn ty w = Inr (fd, w')"
  shows "fd_num w' fd = sint (sr_ret (fst (K (Sys_socket domn ty) (wd_kernel w)))) \<and> wd_kernel w' = snd (K (Sys_socket domn ty) (wd_kernel w))"
  using assms
  by (auto simp: Socket_new_def FileDescriptor_new_def FDWrapper_new_def syscall_def SystemCall_def fd_num_def split: prod.splits if_splits)

lemma FDWrapper_destroy_streams:
  assumes "kernel_streams K inp out"
  shows "inp (wd_kernel (FDWrapper_destroy K fd w)) = inp (wd_kernel w) \<and> out (wd_kernel (FDWrapper_destroy K fd w)) = out (wd_kernel w)"
proof -
  obtain r w1 where r: "syscall K (Sys_close (fd_num w fd)) w = (r, w1)" by fastforce
  then have "wd_kernel (FDWrapper_destroy K fd w) = wd_kernel w \<or> wd_kernel (FDWrapper_destroy K fd w) = wd_kernel w1"
    by (auto simp: FDWrapper_destroy_def FDWrapper_close_def fd_update_def bindR_def split: sum.splits)
  then show ?thesis using kernel_streams_other [OF assms r] by auto
qed

lemma get_URL_open_effect:
  assumes "kernel_streams K inp out" and "length (bytes_of (http_request host path)) < 2 ^ 63"
    and "n = sint (sr_ret (fst (K (Sys_socket (int AF_INET) SOCK_STREAM) (wd_kernel w))))"
    and "get_URL_open K rs host path w = Inr (sock, w')"
  shows "fd_num w' sock = n \<and> inp (wd_kernel w') = inp (wd_kernel w) \<and>
    out (wd_kernel w') n = out (wd_kernel w) n @ bytes_of (http_request host path)"
proof -
  let ?req = "bytes_of (http_request host path)"
  obtain a w1 w2 m where o: "TCPSocket_new K w = Inr (sock, w1)" "Socket_connect K sock a w1 = Inr w2"
    "FileDescriptor_write K sock [?req] True w2 = Inr (m, w')"
    using assms(4) by (auto simp: get_URL_open_def BufferViewList_of_string_def)
  have n1: "fd_num w1 sock = n" "wd_kernel w1 = snd (K (Sys_socket (int AF_INET) SOCK_STREAM) (wd_kernel w))"
    using Socket_new_effect [OF o(1) [unfolded TCPSocket_new_def]] assms(3) by simp_all
  have k1: "inp (wd_kernel w1) = inp (wd_kernel w)" "out (wd_kernel w1) = out (wd_kernel w)"
    using assms(1) unfolding n1(2) kernel_streams_def by simp_all
  obtain r where r: "syscall K (Sys_connect (fd_num w1 sock) (addr_storage a) (addr_size a)) w1 = (r, w2)"
    using o(2) by (auto simp: Socket_connect_def split: prod.splits)
  have k2: "inp (wd_kernel w2) = inp (wd_kernel w1) \<and> out (wd_kernel w2) = out (wd_kernel w1)" "fd_num w2 sock = n"
    using kernel_streams_other [OF assms(1) r] touches_fields(2) [OF syscall_touches [OF r]] n1(1) by simp_all
  have "only_writes sock w2 w' \<and> out (wd_kernel w') = (out (wd_kernel w2))(n := out (wd_kernel w2) n @ ?req)"
    using write_loop_writes [of K out "[?req]" 0 sock True w2 m w'] o(3) assms(1,2) k2(2) unfolding kernel_streams_def FileDescriptor_write_def by auto
  moreover have "inp (wd_kernel w') = inp (wd_kernel w2)" using write_loop_inp [OF assms(1)] o(3) unfolding FileDescriptor_write_def by blast
  ultimately show ?thesis using k1 k2 only_writes_fd_num by auto
qed

text \<open>
  C14. \<open>get_URL\<close> prints the whole reply. If the server sends \<open>reply\<close> and then closes, \<open>get_URL\<close> ends, whatever pieces the kernel delivers
  the reply in; unless it reports an error, it has sent exactly the request and printed exactly the reply.
\<close>

theorem get_URL_prints_reply:
  assumes "kernel_streams K inp out" and "stream_source K inp n reply" and "length (bytes_of (http_request host path)) < 2 ^ 63"
    and "n = sint (sr_ret (fst (K (Sys_socket (int AF_INET) SOCK_STREAM) (wd_kernel w))))"
    and "inp (wd_kernel w) n = []" and "out (wd_kernel w) n = []"
  shows "\<exists>r. get_URL K rs host path w = Some r \<and>
    (case r of Inl e \<Rightarrow> True | Inr (printed, w') \<Rightarrow> printed = reply \<and> out (wd_kernel w') n = bytes_of (http_request host path))"
proof (cases "get_URL_open K rs host path w")
  case (Inl e)
  then show ?thesis by (simp add: get_URL_def)
next
  case (Inr x)
  then obtain sock w1 where o: "get_URL_open K rs host path w = Inr (sock, w1)" by (cases x) auto
  note e = get_URL_open_effect [OF assms(1,3,4) o]
  obtain r where r: "get_URL_loop K sock [] w1 = Some r"
    "case r of Inl e \<Rightarrow> True | Inr (printed, w') \<Rightarrow> printed = reply \<and> out (wd_kernel w') = out (wd_kernel w1)"
    using get_URL_loop_reads [OF assms(1,2), of w1 sock "[]"] e assms(5) by auto
  then show ?thesis
    using o e assms(6) by (auto simp: get_URL_def FDWrapper_destroy_streams [OF assms(1)] split: sum.splits prod.splits)
qed

section \<open>A server\<close>

text \<open>The socket is descriptor 3; the server sends two bytes, one at a time, and the kernel takes all of a request.\<close>

fun web_kernel :: "(nat \<times> (int \<Rightarrow> byte list)) kernel" where
  "web_kernel (Sys_read fd m) (k, out) =
     (if fd = 3 \<and> m > 0 \<and> k < 2 then ((sys_ok 1)\<lparr>sr_data := [[72, 105] ! k]\<rparr>, (k + 1, out)) else (sys_ok 0, (k, out)))"
| "web_kernel (Sys_writev fd iov) (k, out) =
     (if concat iov = [] then (sys_ok 0, (k, out)) else (sys_ok 1, (k, out(fd := out fd @ [hd (concat iov)]))))"
| "web_kernel (Sys_socket d t) k = (sys_ok 3, k)"
| "web_kernel c k = (sys_ok 0, k)"

definition web_inp :: "nat \<times> (int \<Rightarrow> byte list) \<Rightarrow> int \<Rightarrow> byte list" where
  "web_inp k fd = (if fd = 3 then take (fst k) [72, 105] else [])"

definition web_world :: "(nat \<times> (int \<Rightarrow> byte list)) world" where
  "web_world = \<lparr>wd_kernel = (0, \<lambda>_. []),
     wd_heap = (\<lambda>_. \<lparr>fw_fd = 0, fw_eof = False, fw_closed = False, fw_read_count = 0, fw_write_count = 0\<rparr>), wd_next = 0\<rparr>"

lemma web_kernel_streams: "kernel_streams web_kernel web_inp snd" "writev_accepts web_kernel"
proof -
  have hd: "take (Suc 0) xs = [hd xs]" if "xs \<noteq> []" for xs :: "byte list" using that by (cases xs) simp_all
  have "writev_appends web_kernel snd"
    by (auto simp: writev_appends_def sys_ok_def hd Suc_le_eq simp del: concat_eq_Nil_conv)
  moreover have "snd (web_kernel c k) = k" if "\<forall>fd n. c \<noteq> Sys_read fd n" "\<forall>fd iov. c \<noteq> Sys_writev fd iov" for c k
    using that by (cases "(c, k)" rule: web_kernel.cases) simp_all
  moreover have "take (Suc k) [72, 105 :: byte] = take k [72, 105] @ [[72, 105] ! k]" if "k < 2" for k
    by (rule take_Suc_conv_app_nth) (use that in simp)
  ultimately show "kernel_streams web_kernel web_inp snd"
    by (auto simp: kernel_streams_def sys_ok_def web_inp_def fun_eq_iff simp del: take_Suc_Cons)
  show "writev_accepts web_kernel" by (auto simp: writev_accepts_def sys_ok_def)
qed

lemma web_source: "stream_source web_kernel web_inp 3 [72, 105]"
  by (auto simp: stream_source_def web_inp_def sys_ok_def split: if_splits)
     (metis append_take_drop_id)

lemma web_reads: "FileDescriptor_read web_kernel fd (SIZE_MOD - 1) w \<noteq> Inl e"
  by (cases "wd_kernel w") (auto simp: FileDescriptor_read_def syscall_def SystemCall_def sys_ok_def Let_def)

lemma web_loop_ends_well:
  assumes "get_URL_loop web_kernel sock cout w = Some r"
  shows "\<exists>x. r = Inr x"
proof (rule get_URL_loop.raw_induct [OF _ assms, where P = "\<lambda>K sock cout w r. K = web_kernel \<longrightarrow> (\<exists>x. r = Inr x)", THEN mp, OF _ refl], goal_cases)
  case (1 loop K sock cout w r)
  show ?case
  proof
    assume K: "K = web_kernel"
    obtain d w1 where "FileDescriptor_read web_kernel sock (SIZE_MOD - 1) w = Inr (d, w1)"
      using web_reads [of sock w] by (cases "FileDescriptor_read web_kernel sock (SIZE_MOD - 1) w") auto
    then show "\<exists>x. r = Inr x" using 1 K by (auto split: if_splits)
  qed
qed

theorem get_URL_prints_reply_witness:
  "\<exists>w'. get_URL web_kernel quad_resolver ''127.0.0.1'' ''/'' web_world = Some (Inr ([72, 105], w')) \<and>
     snd (wd_kernel w') 3 = bytes_of (http_request ''127.0.0.1'' ''/'')"
proof -
  let ?req = "bytes_of (http_request ''127.0.0.1'' ''/'')"
  have small: "length ?req < 2 ^ 63" by (simp add: bytes_of_def http_request_def)
  obtain w1 where s: "TCPSocket_new web_kernel web_world = Inr (0, w1)"
    by (simp add: TCPSocket_new_def Socket_new_def FileDescriptor_new_def FDWrapper_new_def syscall_def SystemCall_def sys_ok_def web_world_def)
  obtain a where a: "Address_of_host quad_resolver ''127.0.0.1'' ''http'' = Inr a"
    by (simp add: Address_of_host_def Address_resolve_def quad_resolver_def Address_of_sockaddr_def)
  obtain w2 where w2: "Socket_connect web_kernel 0 a w1 = Inr w2"
    by (simp add: Socket_connect_def syscall_def SystemCall_def sys_ok_def)
  obtain m w3 where "FileDescriptor_write web_kernel 0 [?req] True w2 = Inr (m, w3)"
    using write_loop_returns [OF _ web_kernel_streams(2), of snd "[?req]" 0 0 True w2] web_kernel_streams(1) small
    by (auto simp: kernel_streams_def FileDescriptor_write_def)
  then have "get_URL_open web_kernel quad_resolver ''127.0.0.1'' ''/'' web_world = Inr (0, w3)"
    using s a w2 by (simp add: get_URL_open_def BufferViewList_of_string_def)
  moreover obtain r where "get_URL web_kernel quad_resolver ''127.0.0.1'' ''/'' web_world = Some r"
    "case r of Inl e \<Rightarrow> True | Inr (printed, w') \<Rightarrow> printed = [72, 105] \<and> snd (wd_kernel w') 3 = ?req"
    using get_URL_prints_reply [OF web_kernel_streams(1) web_source small, of web_world quad_resolver]
    by (auto simp: web_world_def sys_ok_def web_inp_def)
  ultimately show ?thesis using web_loop_ends_well [of 0 "[]" w3] by (auto simp: get_URL_def split: option.splits)
qed

end
