(* ===== verification/Command_Line.thy ===== *)
theory Command_Line
  imports Sponge_Socket Web_Get
begin

text \<open>
  The command lines of \<open>tcp_udp\<close> and \<open>tcp_ipv4\<close> (\<open>apps/tcp_udp.cc\<close>, \<open>apps/tcp_ipv4.cc\<close>), what the programs open with them up to
  the start of the TCP thread, and \<open>tcp_native\<close> (\<open>apps/tcp_native.cc\<close>). \<open>loss_rate\<close> stands for \<open>strtof\<close> and the
  multiplication of its result by 65535 in single precision. Access to \<open>argv\<close> is checked.
\<close>

section \<open>C strings\<close>

definition strncmp_eq :: "string \<Rightarrow> string \<Rightarrow> nat \<Rightarrow> bool" where
  "strncmp_eq a b n \<longleftrightarrow> take n (a @ [CHR 0x00]) = take n (b @ [CHR 0x00])"

definition digit_value :: "char \<Rightarrow> nat" where
  "digit_value c =
     (let n = of_char c in if 48 \<le> n \<and> n < 58 then n - 48 else if 97 \<le> n \<and> n < 123 then n - 87
      else if 65 \<le> n \<and> n < 91 then n - 55 else 36)"

text \<open>\<open>strtol\<close> with base 0: the prefix gives the base, the result stays in the range of \<open>long\<close>.\<close>

definition strtol :: "string \<Rightarrow> int" where
  "strtol s =
     (let s = dropWhile is_space s;
          (neg, s) = (case s of [] \<Rightarrow> (False, s)
            | c # t \<Rightarrow> if c = CHR 0x2D then (True, t) else if c = CHR 0x2B then (False, t) else (False, s));
          (base, s) = (case s of
              z # x # d # t \<Rightarrow> if z = CHR 0x30 \<and> x \<in> {CHR 0x58, CHR 0x78} \<and> digit_value d < 16 then (16, d # t)
                else if z = CHR 0x30 then (8, s) else (10, s)
            | z # t \<Rightarrow> if z = CHR 0x30 then (8, s) else (10, s)
            | [] \<Rightarrow> (10, s));
          n = foldl (\<lambda>a c. a * base + digit_value c) 0 (takeWhile (\<lambda>c. digit_value c < base) s)
      in max (- (2 ^ 63)) (min (2 ^ 63 - 1) (if neg then - int n else int n)))"

section \<open>Options\<close>

datatype 'a parsed = Parsed 'a | Exits nat | Throws cpp_exn | Out_of_bounds

definition arg :: "string list \<Rightarrow> nat \<Rightarrow> (string \<Rightarrow> 'a parsed) \<Rightarrow> 'a parsed" where
  "arg argv i f = (if i < length argv then f (argv ! i) else Out_of_bounds)"

lemma arg_cong [fundef_cong]:
  "argv = argv' \<Longrightarrow> i = i' \<Longrightarrow> (i' < length argv' \<Longrightarrow> f (argv' ! i') = g (argv' ! i')) \<Longrightarrow> arg argv i f = arg argv' i' g"
  by (simp add: arg_def)

definition check_argc :: "string list \<Rightarrow> nat \<Rightarrow> 'a parsed \<Rightarrow> 'a parsed" where
  "check_argc argv cur go = (if cur + 3 \<ge> length argv then Exits 1 else go)"

lemma check_argc_cong [fundef_cong]:
  "argv = argv' \<Longrightarrow> cur = cur' \<Longrightarrow> (cur' + 3 < length argv' \<Longrightarrow> go = go') \<Longrightarrow> check_argc argv cur go = check_argc argv' cur' go'"
  by (simp add: check_argc_def)

definition lift_res :: "'a res \<Rightarrow> ('a \<Rightarrow> 'b parsed) \<Rightarrow> 'b parsed" where
  "lift_res r f = (case r of Inl e \<Rightarrow> Throws e | Inr x \<Rightarrow> f x)"

definition set_window :: "TCPConfig \<Rightarrow> string \<Rightarrow> TCPConfig" where
  "set_window c s = c\<lparr>cfg_recv_capacity := to_size (strtol s)\<rparr>"

definition set_timeout :: "TCPConfig \<Rightarrow> string \<Rightarrow> TCPConfig" where
  "set_timeout c s = c\<lparr>cfg_rt_timeout := nat (strtol s mod 2 ^ 16)\<rparr>"

section \<open>tcp_udp\<close>

record udp_options =
  uo_fsm :: TCPConfig
  uo_filt :: FdAdapterConfig
  uo_listen :: bool

function udp_get_options :: "(string \<Rightarrow> 16 word) \<Rightarrow> string list \<Rightarrow> nat \<Rightarrow> udp_options \<Rightarrow> udp_options parsed" where
  "udp_get_options loss_rate argv cur c =
     (if length argv - cur > 2 then arg argv cur (\<lambda>opt.
        if strncmp_eq ''-l'' opt 3 then udp_get_options loss_rate argv (cur + 1) (c\<lparr>uo_listen := True\<rparr>)
        else if strncmp_eq ''-w'' opt 3 then check_argc argv cur (arg argv (cur + 1) (\<lambda>s.
          udp_get_options loss_rate argv (cur + 2) (c\<lparr>uo_fsm := set_window (uo_fsm c) s\<rparr>)))
        else if strncmp_eq ''-t'' opt 3 then check_argc argv cur (arg argv (cur + 1) (\<lambda>s.
          udp_get_options loss_rate argv (cur + 2) (c\<lparr>uo_fsm := set_timeout (uo_fsm c) s\<rparr>)))
        else if strncmp_eq ''-Lu'' opt 3 then check_argc argv cur (arg argv (cur + 1) (\<lambda>s.
          udp_get_options loss_rate argv (cur + 2) (c\<lparr>uo_filt := (uo_filt c)\<lparr>fc_loss_rate_up := loss_rate s\<rparr>\<rparr>)))
        else if strncmp_eq ''-Ld'' opt 3 then check_argc argv cur (arg argv (cur + 1) (\<lambda>s.
          udp_get_options loss_rate argv (cur + 2) (c\<lparr>uo_filt := (uo_filt c)\<lparr>fc_loss_rate_dn := loss_rate s\<rparr>\<rparr>)))
        else if strncmp_eq ''-h'' opt 3 then Exits 0
        else Exits 1)
      else Parsed c)"
  by pat_completeness auto
termination
  by (relation "measure (\<lambda>(loss_rate, argv, cur, c). length argv - cur)") auto

declare udp_get_options.simps [simp del]

definition udp_get_config :: "resolver \<Rightarrow> (string \<Rightarrow> 16 word) \<Rightarrow> string list \<Rightarrow> udp_options parsed" where
  "udp_get_config rs loss_rate argv =
     lift_res (FdAdapterConfig_default rs) (\<lambda>c_filt.
     case udp_get_options loss_rate argv 1 \<lparr>uo_fsm = TCPConfig_default, uo_filt = c_filt, uo_listen = False\<rparr> of
       Parsed c \<Rightarrow>
         if uo_listen c then arg argv (length argv - 1) (\<lambda>port.
           lift_res (Address_of_host rs ''0'' port) (\<lambda>a. Parsed (c\<lparr>uo_filt := (uo_filt c)\<lparr>fc_source := a\<rparr>\<rparr>)))
         else arg argv (length argv - 2) (\<lambda>host. arg argv (length argv - 1) (\<lambda>port.
           lift_res (Address_of_host rs host port) (\<lambda>a. Parsed (c\<lparr>uo_filt := (uo_filt c)\<lparr>fc_destination := a\<rparr>\<rparr>))))
     | Exits n \<Rightarrow> Exits n | Throws e \<Rightarrow> Throws e | Out_of_bounds \<Rightarrow> Out_of_bounds)"

section \<open>tcp_ipv4\<close>

record ip_options = udp_options +
  io_tundev :: "string option"
  io_source_address :: string
  io_source_port :: string

function ip_get_options :: "(string \<Rightarrow> 16 word) \<Rightarrow> string list \<Rightarrow> nat \<Rightarrow> ip_options \<Rightarrow> (nat \<times> ip_options) parsed" where
  "ip_get_options loss_rate argv cur c =
     (if length argv - cur > 2 then arg argv cur (\<lambda>opt.
        if strncmp_eq ''-l'' opt 3 then ip_get_options loss_rate argv (cur + 1) (c\<lparr>uo_listen := True\<rparr>)
        else if strncmp_eq ''-a'' opt 3 then check_argc argv cur (arg argv (cur + 1) (\<lambda>s.
          ip_get_options loss_rate argv (cur + 2) (c\<lparr>io_source_address := s\<rparr>)))
        else if strncmp_eq ''-s'' opt 3 then check_argc argv cur (arg argv (cur + 1) (\<lambda>s.
          ip_get_options loss_rate argv (cur + 2) (c\<lparr>io_source_port := s\<rparr>)))
        else if strncmp_eq ''-w'' opt 3 then check_argc argv cur (arg argv (cur + 1) (\<lambda>s.
          ip_get_options loss_rate argv (cur + 2) (c\<lparr>uo_fsm := set_window (uo_fsm c) s\<rparr>)))
        else if strncmp_eq ''-t'' opt 3 then check_argc argv cur (arg argv (cur + 1) (\<lambda>s.
          ip_get_options loss_rate argv (cur + 2) (c\<lparr>uo_fsm := set_timeout (uo_fsm c) s\<rparr>)))
        else if strncmp_eq ''-d'' opt 3 then check_argc argv cur (arg argv (cur + 1) (\<lambda>s.
          ip_get_options loss_rate argv (cur + 2) (c\<lparr>io_tundev := Some s\<rparr>)))
        else if strncmp_eq ''-Lu'' opt 3 then check_argc argv cur (arg argv (cur + 1) (\<lambda>s.
          ip_get_options loss_rate argv (cur + 2) (c\<lparr>uo_filt := (uo_filt c)\<lparr>fc_loss_rate_up := loss_rate s\<rparr>\<rparr>)))
        else if strncmp_eq ''-Ld'' opt 3 then check_argc argv cur (arg argv (cur + 1) (\<lambda>s.
          ip_get_options loss_rate argv (cur + 2) (c\<lparr>uo_filt := (uo_filt c)\<lparr>fc_loss_rate_dn := loss_rate s\<rparr>\<rparr>)))
        else if strncmp_eq ''-h'' opt 3 then Exits 0
        else Exits 1)
      else Parsed (cur, c))"
  by pat_completeness auto
termination
  by (relation "measure (\<lambda>(loss_rate, argv, cur, c). length argv - cur)") auto

declare ip_get_options.simps [simp del]

definition ip_get_config :: "resolver \<Rightarrow> (string \<Rightarrow> 16 word) \<Rightarrow> 32 word \<Rightarrow> string list \<Rightarrow> ip_options parsed" where
  "ip_get_config rs loss_rate random_port argv =
     lift_res (FdAdapterConfig_default rs) (\<lambda>c_filt.
     case ip_get_options loss_rate argv 1 \<lparr>uo_fsm = TCPConfig_default, uo_filt = c_filt, uo_listen = False, io_tundev = None,
         io_source_address = ''169.254.144.9'', io_source_port = dec_string (unat (ucast random_port :: 16 word))\<rparr> of
       Parsed (cur, c) \<Rightarrow>
         if uo_listen c then arg argv (cur + 1) (\<lambda>port.
           lift_res (Address_of_host rs ''0'' port) (\<lambda>source.
           lift_res (Address_port rs source) (\<lambda>p.
             if p = 0 then Exits 1 else Parsed (c\<lparr>uo_filt := (uo_filt c)\<lparr>fc_source := source\<rparr>\<rparr>))))
         else arg argv cur (\<lambda>host. arg argv (cur + 1) (\<lambda>port.
           lift_res (Address_of_host rs host port) (\<lambda>destination.
           lift_res (Address_of_host rs (io_source_address c) (io_source_port c)) (\<lambda>source.
             Parsed (c\<lparr>uo_filt := (uo_filt c)\<lparr>fc_destination := destination, fc_source := source\<rparr>\<rparr>)))))
     | Exits n \<Rightarrow> Exits n | Throws e \<Rightarrow> Throws e | Out_of_bounds \<Rightarrow> Out_of_bounds)"

section \<open>udp_tcpdump\<close>

text \<open>The index of the first word of the filter expression, and the device.\<close>

function tcpdump_parse_arguments :: "string list \<Rightarrow> nat \<Rightarrow> string option \<Rightarrow> (nat \<times> string option) parsed" where
  "tcpdump_parse_arguments argv cur dev =
     (if cur < length argv then arg argv cur (\<lambda>opt.
        if strncmp_eq ''-i'' opt 3 then
          if cur + 1 \<ge> length argv then Exits 1
          else arg argv (cur + 1) (\<lambda>s. tcpdump_parse_arguments argv (cur + 2) (Some s))
        else if strncmp_eq ''-h'' opt 3 \<or> strncmp_eq ''--help'' opt 7 then Exits 0
        else Parsed (cur, dev))
      else Parsed (cur, dev))"
  by pat_completeness auto
termination
  by (relation "measure (\<lambda>(argv, cur, dev). length argv - cur)") auto

declare tcpdump_parse_arguments.simps [simp del]

section \<open>Opening the connection\<close>

text \<open>
  The bodies of the \<open>main\<close> functions as far as the start of the TCP thread, which \<open>sponge_run\<close> continues. An exception is
  caught and ends the program with a failure; \<open>None\<close> is a connection that is never established.
\<close>

definition caught :: "'a parsed \<Rightarrow> 'a parsed" where
  "caught r = (case r of Throws e \<Rightarrow> Exits 1 | _ \<Rightarrow> r)"

definition then_open :: "'a parsed \<Rightarrow> ('a \<Rightarrow> 'b res option) \<Rightarrow> 'b parsed option" where
  "then_open r f = (case r of
       Parsed x \<Rightarrow> map_option (\<lambda>r. caught (lift_res r Parsed)) (f x)
     | Exits n \<Rightarrow> Some (Exits n) | Throws e \<Rightarrow> Some (Exits 1) | Out_of_bounds \<Rightarrow> Some Out_of_bounds)"

definition open_socket ::
  "'k kernel \<Rightarrow> resolver \<Rightarrow> ('k, 'a) sponge_ops \<Rightarrow> TCPConfig \<Rightarrow> FdAdapterConfig \<Rightarrow> bool \<Rightarrow> 32 word \<Rightarrow> ('k, 'a) sponge \<Rightarrow>
   (('k, 'a) sponge Rule list \<times> ('k, 'a) sponge) res option" where
  "open_socket K rs A c_fsm c_filt listen rnd w =
     (if listen then sponge_listen_and_accept K rs A c_fsm c_filt rnd w else sponge_connect K rs A c_fsm c_filt rnd w)"

definition tcp_udp_main ::
  "'k kernel \<Rightarrow> resolver \<Rightarrow> ('g \<Rightarrow> 32 word \<times> 'g) \<Rightarrow> 'g \<Rightarrow> (string \<Rightarrow> 16 word) \<Rightarrow> 32 word \<Rightarrow> string list \<Rightarrow>
   ('k, (FileDescriptor \<times> FdAdapterBase, 'g) LossyFdAdapter) sponge \<Rightarrow>
   (('k, (FileDescriptor \<times> FdAdapterBase, 'g) LossyFdAdapter) sponge Rule list \<times>
    ('k, (FileDescriptor \<times> FdAdapterBase, 'g) LossyFdAdapter) sponge) parsed option" where
  "tcp_udp_main K rs rng g loss_rate rnd argv w =
     (if length argv < 3 then Some (Exits 1)
      else
        let opened = (case udp_get_config rs loss_rate argv of
            Parsed c \<Rightarrow>
              lift_res (UDPSocket_new K w) (\<lambda>(udp_sock, w).
              lift_res (if uo_listen c then Socket_bind K udp_sock (fc_source (uo_filt c)) w else Inr w) (\<lambda>w.
              lift_res (FdAdapterConfig_default rs) (\<lambda>cfg.
              lift_res (TCPSpongeSocket_new K \<lparr>lf_rand = g, lf_adapter = (udp_sock, \<lparr>fa_cfg = cfg, fa_listen = False\<rparr>)\<rparr> w) (\<lambda>w.
                Parsed (c, w)))))
          | Exits n \<Rightarrow> Exits n | Throws e \<Rightarrow> Throws e | Out_of_bounds \<Rightarrow> Out_of_bounds)
        in then_open opened (\<lambda>(c, w).
             open_socket K rs (LossyAdapter rng (TCPOverUDPSocketAdapter rs K)) (uo_fsm c) (uo_filt c) (uo_listen c) rnd w))"

definition tcp_ipv4_main ::
  "'k kernel \<Rightarrow> resolver \<Rightarrow> ('g \<Rightarrow> 32 word \<times> 'g) \<Rightarrow> 'g \<Rightarrow> (string \<Rightarrow> 16 word) \<Rightarrow> 32 word \<Rightarrow> 32 word \<Rightarrow> string list \<Rightarrow>
   ('k, (FileDescriptor \<times> FdAdapterBase, 'g) LossyFdAdapter) sponge \<Rightarrow>
   (('k, (FileDescriptor \<times> FdAdapterBase, 'g) LossyFdAdapter) sponge Rule list \<times>
    ('k, (FileDescriptor \<times> FdAdapterBase, 'g) LossyFdAdapter) sponge) parsed option" where
  "tcp_ipv4_main K rs rng g loss_rate random_port rnd argv w =
     (if length argv < 3 then Some (Exits 1)
      else
        let opened = (case ip_get_config rs loss_rate random_port argv of
            Parsed c \<Rightarrow>
              lift_res (TunFD_new K (case io_tundev c of None \<Rightarrow> ''tun144'' | Some tun_dev_name \<Rightarrow> tun_dev_name) w) (\<lambda>(tun, w).
              lift_res (FdAdapterConfig_default rs) (\<lambda>cfg.
              lift_res (TCPSpongeSocket_new K \<lparr>lf_rand = g, lf_adapter = (tun, \<lparr>fa_cfg = cfg, fa_listen = False\<rparr>)\<rparr> w) (\<lambda>w.
                Parsed (c, w))))
          | Exits n \<Rightarrow> Exits n | Throws e \<Rightarrow> Throws e | Out_of_bounds \<Rightarrow> Out_of_bounds)
        in then_open opened (\<lambda>(c, w).
             open_socket K rs (LossyAdapter rng (TCPOverIPv4OverTunFdAdapter rs K)) (uo_fsm c) (uo_filt c) (uo_listen c) rnd w))"

section \<open>tcp_native\<close>

definition native_socket :: "'k kernel \<Rightarrow> resolver \<Rightarrow> bool \<Rightarrow> string list \<Rightarrow> 'k copy_world \<Rightarrow> (FileDescriptor \<times> 'k copy_world) res" where
  "native_socket K rs server_mode argv w =
     (if server_mode then
        bindR (TCPSocket_new K w) (\<lambda>(listening_socket, w).
        bindR (Socket_set_reuseaddr K listening_socket w) (\<lambda>w.
        bindR (Address_of_host rs (argv ! 2) (argv ! 3)) (\<lambda>address.
        bindR (Socket_bind K listening_socket address w) (\<lambda>w.
        bindR (TCPSocket_listen K listening_socket 16 w) (\<lambda>w.
        bindR (TCPSocket_accept K listening_socket w) (\<lambda>(socket, w).
          Inr (socket, FDWrapper_destroy K listening_socket w)))))))
      else
        bindR (TCPSocket_new K w) (\<lambda>(connecting_socket, w).
        bindR (Address_of_host rs (argv ! 1) (argv ! 2)) (\<lambda>address.
        bindR (Socket_connect K connecting_socket address w) (\<lambda>w. Inr (connecting_socket, w)))))"

definition tcp_native_main :: "'k kernel \<Rightarrow> resolver \<Rightarrow> string list \<Rightarrow> 'k copy_world \<Rightarrow> exit_status option" where
  "tcp_native_main K rs argv w =
     (if length argv < 3 \<or> strncmp_eq ''-l'' (argv ! 1) 3 \<and> length argv < 4 then Some EXIT_FAILURE
      else case native_socket K rs (strncmp_eq ''-l'' (argv ! 1) 3) argv w of
          Inl e \<Rightarrow> Some EXIT_FAILURE
        | Inr (socket, w) \<Rightarrow> map_option (\<lambda>r. case r of Inl e \<Rightarrow> EXIT_FAILURE | Inr w \<Rightarrow> EXIT_SUCCESS) (bidirectional_stream_copy K socket w))"

section \<open>Staying within argv\<close>

text \<open>At the end of the options two arguments are left.\<close>

definition two_left :: "string list \<Rightarrow> (nat \<times> 'a) parsed \<Rightarrow> bool" where
  "two_left argv r \<longleftrightarrow> r \<noteq> Out_of_bounds \<and> (\<forall>cur c. r = Parsed (cur, c) \<longrightarrow> length argv = cur + 2)"

lemma options_split:
  "(b \<Longrightarrow> P x) \<Longrightarrow> (\<not> b \<Longrightarrow> P y) \<Longrightarrow> P (if b then x else y)"
  "m < length argv \<Longrightarrow> P (f (argv ! m)) \<Longrightarrow> P (arg argv m f)"
  "P (Exits 1) \<Longrightarrow> (cur + 3 < length argv \<Longrightarrow> P go) \<Longrightarrow> P (check_argc argv cur go)"
  by (simp_all add: arg_def check_argc_def)

lemma lift_res_safe: "(\<And>x. f x \<noteq> Out_of_bounds) \<Longrightarrow> lift_res r f \<noteq> Out_of_bounds"
  by (simp add: lift_res_def split: sum.split)

lemma arg_safe: "m < length argv \<Longrightarrow> (\<And>s. f s \<noteq> Out_of_bounds) \<Longrightarrow> arg argv m f \<noteq> Out_of_bounds"
  by (simp add: arg_def)

lemma udp_options_in_bounds: "udp_get_options loss_rate argv cur c \<noteq> Out_of_bounds"
proof (induction "length argv - cur" arbitrary: cur c rule: less_induct)
  case less
  show ?case
    unfolding udp_get_options.simps [of loss_rate argv cur c]
    by (intro options_split [where P = "\<lambda>r. r \<noteq> Out_of_bounds"] parsed.distinct less) linarith+
qed

lemma ip_options_in_bounds: "2 \<le> length argv - cur \<Longrightarrow> two_left argv (ip_get_options loss_rate argv cur c)"
proof (induction "length argv - cur" arbitrary: cur c rule: less_induct)
  case less
  have e: "two_left argv (Exits n)" for n by (simp add: two_left_def)
  have p: "two_left argv (Parsed (cur, c))" if "\<not> length argv - cur > 2" for c
    using that less.prems by (simp add: two_left_def)
  show ?case
    unfolding ip_get_options.simps [of loss_rate argv cur c]
    by (intro options_split [where P = "two_left argv"] e p less) linarith+
qed

text \<open>
  C30. Neither program reads past its arguments. With at least two of them, as \<open>main\<close> checks, the option loops of \<open>tcp_udp\<close> and
  \<open>tcp_ipv4\<close> and the reading of the host and the port stay within \<open>argv\<close>, whatever the arguments are; so do both \<open>main\<close>
  functions.
\<close>

theorem get_config_in_bounds:
  assumes "3 \<le> length argv"
  shows "udp_get_config rs loss_rate argv \<noteq> Out_of_bounds \<and> ip_get_config rs loss_rate random_port argv \<noteq> Out_of_bounds"
proof
  have n: "length argv - 2 < length argv" "length argv - 1 < length argv" using assms by linarith+
  have "(case r of Parsed c \<Rightarrow>
         if uo_listen c then arg argv (length argv - 1) (\<lambda>port.
           lift_res (Address_of_host rs ''0'' port) (\<lambda>a. Parsed (c\<lparr>uo_filt := (uo_filt c)\<lparr>fc_source := a\<rparr>\<rparr>)))
         else arg argv (length argv - 2) (\<lambda>host. arg argv (length argv - 1) (\<lambda>port.
           lift_res (Address_of_host rs host port) (\<lambda>a. Parsed (c\<lparr>uo_filt := (uo_filt c)\<lparr>fc_destination := a\<rparr>\<rparr>))))
     | Exits n \<Rightarrow> Exits n | Throws e \<Rightarrow> Throws e | Out_of_bounds \<Rightarrow> Out_of_bounds) \<noteq> Out_of_bounds"
    if "r \<noteq> Out_of_bounds" for r :: "udp_options parsed"
    using that n by (cases r) (simp_all add: arg_safe lift_res_safe)
  then show "udp_get_config rs loss_rate argv \<noteq> Out_of_bounds"
    unfolding udp_get_config_def by (intro lift_res_safe) (simp add: udp_options_in_bounds)
next
  show "ip_get_config rs loss_rate random_port argv \<noteq> Out_of_bounds"
    unfolding ip_get_config_def
  proof (rule lift_res_safe, goal_cases)
    case (1 c_filt)
    let ?r = "ip_get_options loss_rate argv 1 \<lparr>uo_fsm = TCPConfig_default, uo_filt = c_filt, uo_listen = False, io_tundev = None,
         io_source_address = ''169.254.144.9'', io_source_port = dec_string (unat (ucast random_port :: 16 word))\<rparr>"
    have two: "two_left argv ?r" by (rule ip_options_in_bounds) (use assms in simp)
    show ?case
    proof (cases ?r)
      case (Parsed p)
      then obtain cur c where p: "?r = Parsed (cur, c)" by (cases p) simp
      then have "cur < length argv" "cur + 1 < length argv" using two by (simp_all add: two_left_def)
      then show ?thesis unfolding p by (simp add: arg_safe lift_res_safe)
    qed (use two in \<open>simp_all add: two_left_def\<close>)
  qed
qed

theorem get_config_in_bounds_witness:
  "udp_get_config quad_resolver (\<lambda>_. 0) [''tcp_udp'', ''-l'', ''-w'', ''9''] \<noteq> Out_of_bounds \<and>
   ip_get_config quad_resolver (\<lambda>_. 0) 7 [''tcp_udp'', ''-l'', ''-w'', ''9''] \<noteq> Out_of_bounds"
  by (rule get_config_in_bounds) simp

end
