(* ===== verification/Packet_Dump.thy ===== *)
theory Packet_Dump
  imports Text_Format
begin

text \<open>
  What \<open>tun\<close> (\<open>apps/tun.cc\<close>) and \<open>udp_tcpdump\<close> (\<open>apps/udp_tcpdump.cc\<close>) print of one packet. The packet is the captured bytes;
  a read outside of them, which C++ leaves undefined, is an \<open>out_of_range\<close> error. \<open>inet_ntop\<close> is a parameter, and the
  calls of \<open>libpcap\<close> that deliver the packets are left out.
\<close>

unbundle bit_operations_syntax

section \<open>tun\<close>

definition tun_packet :: "byte list \<Rightarrow> string res" where
  "tun_packet buffer =
     (let out = NL @ NL @ ''***'' @ NL @ ''*** Got packet:'' @ NL @ ''***'' @ NL @ hexdump buffer 0 @
            ''attempting to parse as ipv4 datagram... ''
      in bindR (IPv4Datagram_parse IPv4Datagram_default (Buffer_of buffer)) (\<lambda>(ip_dgram, result).
         if result \<noteq> NoError then Inr (out @ ''failed.'' @ NL)
         else
           let h = dg_header ip_dgram;
               out = out @ ''success! totlen='' @ dec_string (unat (ih_len h)) @ '', IPv4 header contents:'' @ NL @ IPv4Header_to_string h
           in if ih_proto h \<noteq> IPv4Header_PROTO_TCP then Inr (out @ NL @ ''Not TCP, skipping.'' @ NL)
              else
                let out = out @ NL @ ''Attempting to parse as a TCP segment... ''
                in bindR (BufferList_to_Buffer (dg_payload ip_dgram)) (\<lambda>payload.
                   bindR (TCPSegment_parse TCPSegment_default payload (IPv4Header_pseudo_cksum h)) (\<lambda>(tcp_seg, result).
                     if result \<noteq> NoError then Inr (out @ ''failed.'' @ NL)
                     else Inr (out @ ''success! payload len='' @ dec_string (Buffer_size (seg_payload tcp_seg)) @ '', TCP header contents:'' @ NL @
                       TCPHeader_to_string (seg_header tcp_seg) @ NL)))))"

section \<open>udp_tcpdump\<close>

definition byte_at :: "byte list \<Rightarrow> nat \<Rightarrow> byte res" where
  "byte_at data i = (if i < length data then Inr (data ! i) else Inl (out_of_range ''packet''))"

definition bytes_at :: "byte list \<Rightarrow> nat \<Rightarrow> nat \<Rightarrow> byte list res" where
  "bytes_at data i n = (if i + n \<le> length data then Inr (take n (drop i data)) else Inl (out_of_range ''packet''))"

definition inet4_addr :: "(nat \<Rightarrow> byte list \<Rightarrow> string option) \<Rightarrow> byte list \<Rightarrow> nat \<Rightarrow> string res" where
  "inet4_addr inet_ntop data i =
     bindR (bytes_at data i 4) (\<lambda>addr. Inr (case inet_ntop 2 addr of None \<Rightarrow> ''unknown'' | Some s \<Rightarrow> s))"

definition inet6_addr :: "(nat \<Rightarrow> byte list \<Rightarrow> string option) \<Rightarrow> byte list \<Rightarrow> nat \<Rightarrow> string res" where
  "inet6_addr inet_ntop data i =
     bindR (bytes_at data i 16) (\<lambda>addr. Inr (case inet_ntop 10 addr of None \<Rightarrow> ''unknown'' | Some s \<Rightarrow> s))"

text \<open>The extension headers of an IPv6 packet; \<open>None\<close> is the result \<open>-1\<close>.\<close>

function ipv6_headers :: "byte list \<Rightarrow> byte \<Rightarrow> nat \<Rightarrow> nat option res" where
  "ipv6_headers data nxt data_offset =
     (if nxt \<noteq> 0x11 then
        if nxt \<noteq> 0 \<and> nxt \<noteq> 43 \<and> nxt \<noteq> 60 then Inr None
        else bindR (byte_at data data_offset) (\<lambda>nxt.
             bindR (byte_at data (data_offset + 1)) (\<lambda>hdr_len.
               if length data < data_offset + 8 * (1 + unat hdr_len) + 2 then Inr None
               else ipv6_headers data nxt (data_offset + 8 * (1 + unat hdr_len))))
      else Inr (Some data_offset))"
  by pat_completeness auto
termination
  by (relation "measure (\<lambda>(data, nxt, data_offset). length data - data_offset)") auto

declare ipv6_headers.simps [simp del]

definition process_ipv4_ipv6 ::
  "(nat \<Rightarrow> byte list \<Rightarrow> string option) \<Rightarrow> byte list \<Rightarrow> (nat \<times> string \<times> string) option res" where
  "process_ipv4_ipv6 inet_ntop data =
     (if length data < 1 then Inr None
      else bindR (byte_at data 0) (\<lambda>b.
        let pt = b AND 0xf0
        in if pt = 0x40 then
             let data_offset = unat (b AND 0x0f) * 4
             in if length data < data_offset then Inr None
                else bindR (byte_at data 9) (\<lambda>proto.
                  if proto \<noteq> 0x11 then Inr None
                  else bindR (inet4_addr inet_ntop data 12) (\<lambda>src_addr.
                       bindR (inet4_addr inet_ntop data 16) (\<lambda>dst_addr. Inr (Some (data_offset + 8, src_addr, dst_addr)))))
           else if pt = 0x60 then
             if length data < 42 then Inr None
             else bindR (byte_at data 6) (\<lambda>nxt.
                  bindR (ipv6_headers data nxt 40) (\<lambda>r. case r of
                      None \<Rightarrow> Inr None
                    | Some data_offset \<Rightarrow>
                        bindR (inet6_addr inet_ntop data 8) (\<lambda>src_addr.
                        bindR (inet6_addr inet_ntop data 24) (\<lambda>dst_addr. Inr (Some (data_offset + 8, src_addr, dst_addr))))))
           else Inr None))"

datatype datalink = DLT_NULL | DLT_EN10MB | DLT_LINUX_SLL | DLT_LINUX_SLL2 | DLT_RAW

text \<open>The length of the link header; \<open>None\<close> for a packet that is skipped.\<close>

definition ether_type :: "byte list \<Rightarrow> nat \<Rightarrow> 16 word res" where
  "ether_type pkt i = bindR (byte_at pkt i) (\<lambda>hi. bindR (byte_at pkt (i + 1)) (\<lambda>lo. Inr (push_bit 8 (ucast hi) OR ucast lo)))"

definition link_header :: "datalink \<Rightarrow> byte list \<Rightarrow> nat option res" where
  "link_header dl_type pkt =
     (let ip_after = (\<lambda>hdr_off type_at. if length pkt < hdr_off then Inr None
        else bindR (ether_type pkt type_at) (\<lambda>pt. Inr (if pt \<noteq> 0x0800 \<and> pt \<noteq> 0x86dd then None else Some hdr_off)))
      in case dl_type of
          DLT_NULL \<Rightarrow> if length pkt < 4 then Inr None
            else bindR (byte_at pkt 3) (\<lambda>pt. Inr (if pt \<noteq> 2 \<and> pt \<noteq> 24 \<and> pt \<noteq> 28 \<and> pt \<noteq> 30 then None else Some 4))
        | DLT_EN10MB \<Rightarrow> ip_after 14 12
        | DLT_LINUX_SLL \<Rightarrow> ip_after 16 14
        | DLT_LINUX_SLL2 \<Rightarrow> ip_after 20 0
        | DLT_RAW \<Rightarrow> Inr (Some 0))"

definition describe_segment :: "string \<Rightarrow> string \<Rightarrow> nat \<Rightarrow> TCPSegment \<Rightarrow> ParseResult \<Rightarrow> string" where
  "describe_segment src dst payload_len seg res =
     (if ParseResult_index res > ParseResult_index BadChecksum
      then ''(did not recognize TCP header) src: '' @ src @ '' dst: '' @ dst @ NL
      else
        let h = seg_header seg;
            seqlen = of_nat (TCPSegment_length_in_sequence_space seg) :: 32 word
        in src @ '':'' @ dec_string (unat (th_sport h)) @ '' > '' @ dst @ '':'' @ dec_string (unat (th_dport h)) @ NL @ ''    Flags ['' @
           (if th_urg h then ''U'' else []) @ (if th_psh h then ''P'' else []) @ (if th_rst h then ''R'' else []) @
           (if th_syn h then ''S'' else []) @ (if th_fin h then ''F'' else []) @ (if th_ack h then ''.'' else []) @
           ''] cksum 0x'' @ setw 4 (hex_string (unat (th_cksum h))) @ (if res = NoError then '' (correct)'' else '' (incorrect!)'') @
           '' seq '' @ dec_string (unat (raw_value (th_seqno h))) @
           (if seqlen > 0 then '':'' @ dec_string (unat (raw_value (wi_plus (th_seqno h) seqlen))) else []) @
           '' ack '' @ dec_string (unat (raw_value (th_ackno h))) @ '' win '' @ dec_string (unat (th_win h)) @
           '' length '' @ dec_string payload_len @ NL)"

text \<open>One round of the capture loop; \<open>None\<close> for a packet that is skipped.\<close>

definition tcpdump_packet :: "(nat \<Rightarrow> byte list \<Rightarrow> string option) \<Rightarrow> datalink \<Rightarrow> byte list \<Rightarrow> string option res" where
  "tcpdump_packet inet_ntop dl_type pkt =
     bindR (link_header dl_type pkt) (\<lambda>link. case link of
         None \<Rightarrow> Inr None
       | Some hdr_off \<Rightarrow>
           bindR (process_ipv4_ipv6 inet_ntop (drop hdr_off pkt)) (\<lambda>r. case r of
               None \<Rightarrow> Inr None
             | Some (start_off, src, dst) \<Rightarrow>
                 let payload_off = hdr_off + start_off;
                     payload_len = sub64 (length pkt) payload_off
                 in bindR (bytes_at pkt payload_off payload_len) (\<lambda>payload.
                    bindR (TCPSegment_parse TCPSegment_default (Buffer_of payload) 0) (\<lambda>(seg, res).
                      Inr (Some (describe_segment src dst payload_len seg res @ hexdump payload 8))))))"

section \<open>Reads outside of the packet\<close>

lemma ipv6_headers_in_bounds:
  "data_offset + 2 \<le> length data \<Longrightarrow> \<exists>r. ipv6_headers data nxt data_offset = Inr r \<and> (\<forall>m. r = Some m \<longrightarrow> m + 2 \<le> length data)"
proof (induction data nxt data_offset rule: ipv6_headers.induct)
  case (1 data nxt data_offset)
  then have b: "byte_at data data_offset = Inr (data ! data_offset)" "byte_at data (data_offset + 1) = Inr (data ! (data_offset + 1))"
    by (simp_all add: byte_at_def)
  show ?case
    using 1(1) [OF _ _ b] 1(2) unfolding ipv6_headers.simps [of data nxt data_offset] b bindR_simps by auto
qed

text \<open>For IPv6 every read is inside the packet; for IPv4 the protocol and the addresses are read before there is a length to rely on.\<close>

lemma process_ipv6_in_bounds:
  assumes "data \<noteq> []" and "hd data AND 0xf0 = 0x60"
  shows "\<exists>r. process_ipv4_ipv6 inet_ntop data = Inr r"
proof (cases "length data < 42")
  case True
  then show ?thesis using assms by (cases data) (simp_all add: process_ipv4_ipv6_def byte_at_def)
next
  case False
  then obtain r where "ipv6_headers data (data ! 6) 40 = Inr r" using ipv6_headers_in_bounds [of 40 data] by auto
  with False assms show ?thesis
    by (cases data) (auto simp: process_ipv4_ipv6_def byte_at_def inet6_addr_def bytes_at_def split: option.split)
qed

lemma process_ipv4_overread: "process_ipv4_ipv6 inet_ntop [0x40] = Inl (out_of_range ''packet'')"
  by (simp add: process_ipv4_ipv6_def byte_at_def)

end
