(* ===== verification/Spec2Isabelle.thy ===== *)
theory Spec2Isabelle
  imports Sponge_Delivery Tcp_Benchmark Command_Line Packet_Dump
begin

text \<open>
  A verification library for libsponge, the user-space TCP implementation under \<open>src/libsponge\<close>, and for the
  programs under \<open>src/apps\<close> that use it.

  \<^bold>\<open>The program.\<close> An application writes bytes into the outgoing \<open>ByteStream\<close> of a \<open>TCPSender\<close>, which cuts them into
  segments, keeps the outstanding ones and retransmits them. A \<open>TCPReceiver\<close> at the other end unwraps the 32-bit
  sequence numbers and pushes the payloads into a \<open>StreamReassembler\<close>, whose output is the \<open>ByteStream\<close> the
  other application reads. A \<open>TCPConnection\<close> joins a sender and a receiver and runs the handshake, the
  acknowledgments, the reset and the end of the connection. Adapters turn segments into IPv4 datagrams on a TUN device
  or into UDP payloads, and back. A \<open>TCPSpongeSocket\<close> runs a connection and an adapter in an \<open>EventLoop\<close> behind
  one end of a local stream socket, of which the owner holds the other end; the programs copy their standard input
  and output to and from it.

  \<^bold>\<open>Values and effects.\<close> A class is a record, with one definition per member function that takes the object and
  returns it updated. \<open>size_t\<close> is a natural number with \<open>add64\<close> and \<open>sub64\<close>, which wrap around; header fields,
  ports, sequence numbers and checksums are words of their width. A call that may throw returns \<open>cpp_exn + 'a\<close>.
  Access outside of an array is a value (\<open>out_of_range\<close>, \<open>Out_of_bounds\<close> or \<open>None\<close>). What is outside of the sources
  is an argument: the kernel \<open>K\<close>, the record \<open>resolver\<close> of address functions, the numbers a \<open>random_device\<close>
  supplies, and \<open>loss_rate\<close> for \<open>strtof\<close>. What is assumed of the kernel is stated where it is used:
  \<open>kernel_streams K inp out\<close> says that \<open>read\<close> and \<open>writev\<close> report the bytes they have moved, and
  \<open>stream_source K inp n S\<close> that what is read from \<open>n\<close> is the stream \<open>S\<close>.

  \<^bold>\<open>The theories\<close>, from the bottom up:

  \<^item> \<open>Sponge_Prelude\<close>: the C++ integers, exceptions and strings, and the shared lemmas.
  \<^item> \<open>Byte_Stream\<close> (\<open>byte_stream.cc\<close>): the class, its invariant and the contract \<open>bounded_fifo\<close>.
  \<^item> \<open>Wrapping_Integers\<close> (\<open>wrapping_integers.cc\<close>): \<open>wrap\<close> and \<open>unwrap\<close>, the contract \<open>seq_codec\<close>.
  \<^item> \<open>Net_Buffer\<close> (\<open>util/buffer.cc\<close>), \<open>Net_Parser\<close> (\<open>util/parser.cc\<close>), \<open>Internet_Checksum\<close> (\<open>util/util.cc\<close>): the contracts
    \<open>front_droppable\<close> of the three buffer classes and \<open>int_codec\<close> of the three integer widths, and the checksum
    against RFC 1071.
  \<^item> \<open>Tcp_Segment\<close> (\<open>tcp_header.cc\<close>, \<open>tcp_segment.cc\<close>) and \<open>Ipv4_Datagram\<close> (\<open>ipv4_header.cc\<close>, \<open>ipv4_datagram.cc\<close>): the
    wire formats, their round trips, and the malformed packets the parsers accept. \<open>Text_Format\<close>: what is printed of
    headers, \<open>hexdump\<close>, and numbers as text.
  \<^item> \<open>Stream_Reassembler\<close> (\<open>stream_reassembler.cc\<close>): the class and the contract \<open>fragment_store\<close> of its list of fragments.
    \<open>Reassembly\<close>: the abstract reassembler, a partial map of known bytes, and the refinement.
  \<^item> \<open>Tcp_Receiver\<close> (\<open>tcp_receiver.cc\<close>): the class, and the invariant \<open>RC_of\<close> that it is receiving a given stream.
  \<^item> \<open>Tcp_Sender\<close> (\<open>tcp_sender.cc\<close>, \<open>tcp_config.hh\<close>): the class. \<open>Transmission\<close>: the invariant \<open>SN_of\<close> that it is sending a
    given stream. \<open>Sending\<close>: the contract of each operation. \<open>Retransmission\<close>: progress between a sender and a receiver.
  \<^item> \<open>Tcp_State\<close> (\<open>tcp_state.cc\<close>), \<open>Tcp_Connection\<close> (\<open>tcp_connection.cc\<close>): the official states and the class.
    \<open>Connection_States\<close>: the handshake, the reset, the give-up, the linger. \<open>Connection_Invariants\<close>: the locale
    \<open>connection_invariant\<close>, which reduces an invariant of all methods to one of their building blocks.
  \<^item> \<open>Reliable_Delivery\<close>: the locale \<open>stream_endpoint\<close> and two endpoints on an unreliable network, as the step relation
    \<open>net_reach\<close>; \<open>TCPConnection\<close> is an instance. \<open>Endpoint_Writes\<close>: what writing, ending the input and reading
    mean for such an endpoint.
  \<^item> \<open>Net_Address\<close> (\<open>util/address.cc\<close>), \<open>Datagram_Adapters\<close> (\<open>fd_adapter.cc\<close>, \<open>tcp_over_ip.cc\<close>, \<open>tuntap_adapter.cc\<close>,
    \<open>lossy_fd_adapter.hh\<close>): the adapters and their contract \<open>segment_link\<close>. \<open>Wire_Delivery\<close>: connection and adapter
    together are a \<open>stream_endpoint\<close> again, with the bytes of datagrams as messages.
  \<^item> \<open>File_Descriptor\<close> (\<open>util/file_descriptor.cc\<close>), \<open>Net_Socket\<close> (\<open>util/socket.cc\<close>, \<open>util/tun.cc\<close>): descriptors on a heap of
    shared wrappers, the sockets, and the adapters on a descriptor with their contract \<open>fd_adapter\<close>.
  \<^item> \<open>Event_Loop\<close> (\<open>util/eventloop.cc\<close>): the loop and the locale \<open>event_client\<close>, which carries an invariant of the rules
    through \<open>wait_next_event\<close>. Its two clients are \<open>Stream_Copy\<close> (\<open>apps/bidirectional_stream_copy.cc\<close>) and
    \<open>Sponge_Socket\<close> with \<open>Sponge_Delivery\<close> (\<open>tcp_sponge_socket.cc\<close>).
  \<^item> \<open>Tcp_Benchmark\<close>, \<open>Web_Get\<close>, \<open>Command_Line\<close>, \<open>Packet_Dump\<close>: the programs \<open>tcp_benchmark\<close>, \<open>webget\<close>, \<open>tcp_udp\<close>,
    \<open>tcp_ipv4\<close>, \<open>tcp_native\<close>, \<open>tun\<close> and \<open>udp_tcpdump\<close>.

  \<^bold>\<open>What is shown.\<close> The main line is delivery. A connection is related to the two reference streams, the one its
  application writes and the one its peer writes, and this relation is kept by every method and by every segment the
  peer may ever have sent, in any order and any number of times. Hence what an application reads is a prefix of what
  the other one wrote, and all of it at the end of the stream: for connections (\<open>reliable_delivery\<close>), for connections
  on IPv4 datagrams (\<open>wire_delivery\<close>), for the owner of a socket (\<open>sponge_delivers\<close>) and for the benchmark
  (\<open>benchmark_never_throws\<close>). These are safety statements. Progress is shown for one step of the
  exchange: the window is filled (\<open>fill_window_fills\<close>), an expired timer retransmits the oldest segment
  (\<open>tick_backoff\<close>, \<open>tick_gives_up\<close>), and its arrival and the acknowledgment's move both sides on
  (\<open>retransmission_progress\<close>, \<open>push_substring_progress\<close>). The other groups are the refinement of the
  reassembler, the round trips of the formats, the checksum, the states of a connection, the loops on descriptors, and
  the theorems that pin down where the code departs from its documentation or from TCP.

  \<^bold>\<open>Bounds.\<close> Delivery is shown for streams of fewer than \<open>2 ^ 32 - 2\<close> bytes and receive capacities below \<open>2 ^ 31\<close>.
  The first bound cannot be dropped: \<open>segment_received\<close> unwraps sequence numbers around a small checkpoint, and
  \<open>receiver_deaf_past_4GiB\<close> shows that data beyond it is not taken. \<open>unwrap_closest\<close> needs a checkpoint below
  \<open>2 ^ 63 - 2 ^ 31\<close>, and \<open>unwrap_high_checkpoint\<close> shows the error above \<open>2 ^ 63\<close>.

  \<^bold>\<open>Loops.\<close> No definition has fuel. Loops that end are total functions with a measure: the loop of \<open>fill_window\<close> (what is
  left to send), the folding of the checksum (the sum), \<open>FileDescriptor::write\<close> (what is left to write), the option
  parsers (the arguments left) and the walk over IPv6 extension headers (the bytes left). Loops that may run for ever
  are partial functions into an option, \<open>None\<close> if they do: the event loops of the socket and of the copy,
  \<open>get_URL\<close>, and the loops of the benchmark. \<open>get_URL_prints_reply\<close> proves that the program ends once
  the server has closed, and \<open>benchmark_never_throws\<close> that each round of the benchmark ends; that the event loops and the
  whole benchmark end is not claimed.

  \<^bold>\<open>Not modelled.\<close>

  \<^item> The interleaving of the owner's thread with the TCP thread of a \<open>TCPSpongeSocket\<close>. The TCP thread is modelled
    by the function it runs, and the owner acts through the kernel and the flag \<open>_abort\<close>; the programs \<open>tcp_udp\<close> and
    \<open>tcp_ipv4\<close> are followed up to the start of that thread.
  \<^item> The calls of \<open>libpcap\<close> in \<open>udp_tcpdump\<close> and the endless read loop of \<open>tun\<close>; what is done with one packet is modelled.
  \<^item> \<open>strtof\<close> and its single-precision product (a parameter), the clock (a call of the kernel), and the
    random generators (arguments).
  \<^item> The texts of usage messages and debugging output, and the throughput that the benchmark prints.
  \<^item> The example programs under \<open>src/doctests\<close> and the tests, which only call the library.
\<close>

end
